(* ===== verification/Prelude.thy ===== *)
theory Prelude
  imports Main "HOL-Library.Word" "HOL-Library.State_Monad" "HOL-Library.Sublist"
    "HOL-Library.Char_ord" "HOL-Library.List_Lexorder"
begin

text \<open>
  The shared base of the development: the machine integers, the two ways the models express
  effects, and the rules that the component theories use to reason about them.

  A fallible Rust function returns \<open>'e + 'a\<close> (\<open>Inl\<close> is \<open>Err\<close>). A function with effects
  is a \<open>('s, 'a) state\<close> of \<open>HOL-Library.State_Monad\<close>, written with the do-notation. Two
  judgements are used on such a program: \<open>hoare P m Q\<close> (from a state in \<open>P\<close>, \<open>m\<close> ends
  in a result and a state in \<open>Q\<close>) and \<open>preserves I m\<close> (\<open>m\<close> keeps \<open>I\<close>). The
  collection \<open>keeps\<close> gathers the preservation facts of the primitive operations, so that a
  component's own fact follows from its program text.
\<close>

named_theorems keeps \<open>preservation facts, one per operation\<close>
named_theorems triples \<open>Hoare triples, one per operation\<close>

type_synonym u64 = "64 word"
type_synonym u16 = "16 word"

subsection \<open>Programs over a state\<close>

definition hoare :: "('s \<Rightarrow> bool) \<Rightarrow> ('s, 'a) state \<Rightarrow> ('a \<Rightarrow> 's \<Rightarrow> bool) \<Rightarrow> bool" where
  "hoare P m Q \<longleftrightarrow> (\<forall>s. P s \<longrightarrow> (case run_state m s of (a, t) \<Rightarrow> Q a t))"

definition preserves :: "('s \<Rightarrow> bool) \<Rightarrow> ('s, 'a) state \<Rightarrow> bool" where
  "preserves I m \<longleftrightarrow> hoare I m (\<lambda>_. I)"

abbreviation ret :: "'a \<Rightarrow> ('s, 'a) state" where
  "ret \<equiv> State_Monad.return"

definition gets :: "('s \<Rightarrow> 'a) \<Rightarrow> ('s, 'a) state" where
  "gets f = State (\<lambda>s. (f s, s))"

definition modify :: "('s \<Rightarrow> 's) \<Rightarrow> ('s, unit) state" where
  "modify f = State (\<lambda>s. ((), f s))"

lemma run_gets [simp]: "run_state (gets f) s = (f s, s)"
  by (simp add: gets_def)

lemma run_modify [simp]: "run_state (modify f) s = ((), f s)"
  by (simp add: modify_def)

lemma run_bind: "run_state (State_Monad.bind m f) s =
    run_state (f (fst (run_state m s))) (snd (run_state m s))"
  by (simp split: prod.split)

lemma hoareI: "(\<And>s a t. P s \<Longrightarrow> run_state m s = (a, t) \<Longrightarrow> Q a t) \<Longrightarrow> hoare P m Q"
  by (auto simp: hoare_def)

lemma hoareD: "hoare P m Q \<Longrightarrow> P s \<Longrightarrow> run_state m s = (a, t) \<Longrightarrow> Q a t"
  by (auto simp: hoare_def split: prod.splits)

lemma hoare_snd: "hoare P m (\<lambda>_. Q) \<Longrightarrow> P s \<Longrightarrow> Q (snd (run_state m s))"
  by (cases "run_state m s") (auto simp: hoare_def)

lemma hoare_return: "(\<And>s. P s \<Longrightarrow> Q a s) \<Longrightarrow> hoare P (ret a) Q"
  by (simp add: hoare_def)

lemma hoare_bind:
  "hoare P m R \<Longrightarrow> (\<And>a. hoare (R a) (f a) Q) \<Longrightarrow> hoare P (State_Monad.bind m f) Q"
  by (fastforce simp: hoare_def split: prod.splits)

lemma hoare_weaken:
  "hoare P' m Q' \<Longrightarrow> (\<And>s. P s \<Longrightarrow> P' s) \<Longrightarrow> (\<And>a s. Q' a s \<Longrightarrow> Q a s) \<Longrightarrow> hoare P m Q"
  by (fastforce simp: hoare_def split: prod.splits)

lemma hoare_post: "hoare P m Q' \<Longrightarrow> (\<And>a s. Q' a s \<Longrightarrow> Q a s) \<Longrightarrow> hoare P m Q"
  by (rule hoare_weaken)

lemma hoare_pre: "hoare P' m Q \<Longrightarrow> (\<And>s. P s \<Longrightarrow> P' s) \<Longrightarrow> hoare P m Q"
  by (rule hoare_weaken)

lemma hoare_conj: "hoare P m Q \<Longrightarrow> hoare P m R \<Longrightarrow> hoare P m (\<lambda>a s. Q a s \<and> R a s)"
  by (fastforce simp: hoare_def split: prod.splits)

lemma hoare_gets: "(\<And>s. P s \<Longrightarrow> Q (f s) s) \<Longrightarrow> hoare P (gets f) Q"
  by (simp add: hoare_def)

lemma hoare_modify: "(\<And>s. P s \<Longrightarrow> Q () (f s)) \<Longrightarrow> hoare P (modify f) Q"
  by (simp add: hoare_def)

lemma hoare_lift: "preserves I m \<Longrightarrow> hoare I m (\<lambda>_. I)"
  by (simp add: preserves_def)

lemma hoare_both:
  "preserves I m \<Longrightarrow> hoare R m S \<Longrightarrow> (\<And>s. P s \<Longrightarrow> I s \<and> R s) \<Longrightarrow>
    (\<And>a s. I s \<Longrightarrow> S a s \<Longrightarrow> Q a s) \<Longrightarrow> hoare P m Q"
  by (rule hoare_weaken [OF hoare_conj [of "\<lambda>s. I s \<and> R s" m "\<lambda>_. I" S]])
    (auto simp: preserves_def intro: hoare_pre)

lemma preservesI: "(\<And>s a t. I s \<Longrightarrow> run_state m s = (a, t) \<Longrightarrow> I t) \<Longrightarrow> preserves I m"
  by (auto simp: preserves_def hoare_def)

lemma preservesD: "preserves I m \<Longrightarrow> I s \<Longrightarrow> run_state m s = (a, t) \<Longrightarrow> I t"
  by (auto simp: preserves_def dest: hoareD)

lemma preserves_snd: "preserves I m \<Longrightarrow> I s \<Longrightarrow> I (snd (run_state m s))"
  by (cases "run_state m s") (auto dest: preservesD)

lemma preserves_conj: "preserves P m \<Longrightarrow> preserves Q m \<Longrightarrow> preserves (\<lambda>w. P w \<and> Q w) m"
  by (auto simp: preserves_def hoare_def split: prod.splits)

lemma preserves_return [keeps, intro!]: "preserves I (ret a)"
  by (rule preservesI) simp

lemma preserves_gets [keeps, intro!]: "preserves I (gets f)"
  by (rule preservesI) simp

lemma preserves_modify: "(\<And>s. I s \<Longrightarrow> I (f s)) \<Longrightarrow> preserves I (modify f)"
  by (rule preservesI) auto

lemma preserves_bind [intro]:
  "preserves I m \<Longrightarrow> (\<And>a. preserves I (f a)) \<Longrightarrow> preserves I (State_Monad.bind m f)"
  unfolding preserves_def by (rule hoare_bind)

lemma preserves_if [intro]:
  "(b \<Longrightarrow> preserves I m) \<Longrightarrow> (\<not> b \<Longrightarrow> preserves I n) \<Longrightarrow> preserves I (if b then m else n)"
  by simp

lemma preserves_sum [intro]:
  "(\<And>e. x = Inl e \<Longrightarrow> preserves I (f e)) \<Longrightarrow> (\<And>a. x = Inr a \<Longrightarrow> preserves I (g a)) \<Longrightarrow>
    preserves I (case x of Inl e \<Rightarrow> f e | Inr a \<Rightarrow> g a)"
  by (cases x) auto

lemma preserves_option [intro]:
  "(x = None \<Longrightarrow> preserves I m) \<Longrightarrow> (\<And>a. x = Some a \<Longrightarrow> preserves I (f a)) \<Longrightarrow>
    preserves I (case x of None \<Rightarrow> m | Some a \<Rightarrow> f a)"
  by (cases x) auto

lemma preserves_prod [intro]:
  "(\<And>a b. x = (a, b) \<Longrightarrow> preserves I (f a b)) \<Longrightarrow> preserves I (case x of (a, b) \<Rightarrow> f a b)"
  by (cases x) auto

lemmas preserves_rules =
  preserves_return preserves_gets preserves_bind preserves_if preserves_sum
  preserves_option preserves_prod

subsection \<open>Fallible steps\<close>

definition on_ok :: "('a \<Rightarrow> 's \<Rightarrow> bool) \<Rightarrow> 'x + 'a \<Rightarrow> 's \<Rightarrow> bool" where
  "on_ok Q r s \<longleftrightarrow> (case r of Inl _ \<Rightarrow> True | Inr a \<Rightarrow> Q a s)"

lemma on_ok_simps [simp]: "on_ok Q (Inl e) s" "on_ok Q (Inr a) s = Q a s"
  by (simp_all add: on_ok_def)

lemma hoare_sum:
  "(\<And>e. x = Inl e \<Longrightarrow> hoare P (f e) Q) \<Longrightarrow> (\<And>a. x = Inr a \<Longrightarrow> hoare P (g a) Q) \<Longrightarrow>
    hoare P (case x of Inl e \<Rightarrow> f e | Inr a \<Rightarrow> g a) Q"
  by (cases x) auto

lemma hoare_if:
  "(b \<Longrightarrow> hoare P m Q) \<Longrightarrow> (\<not> b \<Longrightarrow> hoare P n Q) \<Longrightarrow> hoare P (if b then m else n) Q"
  by simp

lemma hoare_keep: "preserves I m \<Longrightarrow> (\<And>a. hoare I (f a) Q) \<Longrightarrow> hoare I (State_Monad.bind m f) Q"
  unfolding preserves_def by (rule hoare_bind)

text \<open>The \<open>?\<close> of Rust: the steps after a fallible call see its success only.\<close>

lemma hoare_try:
  "hoare P m (on_ok R) \<Longrightarrow> (\<And>e. hoare (\<lambda>_. True) (f e) Q) \<Longrightarrow> (\<And>a. hoare (R a) (g a) Q) \<Longrightarrow>
    hoare P (State_Monad.bind m (\<lambda>r. case r of Inl e \<Rightarrow> f e | Inr a \<Rightarrow> g a)) Q"
  by (rule hoare_bind, assumption) (fastforce simp: hoare_def split: sum.split)


subsection \<open>Step relations\<close>

text \<open>
  Threads that share state are step relations: a step is one atomic action of one of them. A
  \<open>machine\<close> is a start, a step relation and an invariant they keep.
\<close>

locale machine =
  fixes starts :: "'s \<Rightarrow> bool"
    and step :: "'s \<Rightarrow> 's \<Rightarrow> bool"
    and inv :: "'s \<Rightarrow> bool"
  assumes start_inv: "starts s \<Longrightarrow> inv s"
    and step_inv: "step s t \<Longrightarrow> inv s \<Longrightarrow> inv t"
begin

lemma steps_inv: "step\<^sup>*\<^sup>* s t \<Longrightarrow> inv s \<Longrightarrow> inv t"
  by (induction rule: rtranclp_induct) (auto intro: step_inv)

lemma reachable_inv: "starts s \<Longrightarrow> step\<^sup>*\<^sup>* s t \<Longrightarrow> inv t"
  by (blast intro: steps_inv start_inv)

text \<open>What every step keeps once the invariant holds stays for good.\<close>

lemma stays:
  assumes "step\<^sup>*\<^sup>* s t" "inv s" "P s" "\<And>u v. step u v \<Longrightarrow> inv u \<Longrightarrow> P u \<Longrightarrow> P v"
  shows "P t"
  using assms(1)
proof (induction rule: rtranclp_induct)
  case (step u v)
  then show ?case
    using assms(2,4) steps_inv by blast
qed (rule assms(3))

end

subsection \<open>Checked machine arithmetic\<close>

text \<open>Rust's \<open>checked_add(1)\<close> on an unsigned word: \<open>None\<close> on overflow.\<close>

definition checked_inc :: "'a::len word \<Rightarrow> 'a word option" where
  "checked_inc w = (if w = - 1 then None else Some (w + 1))"

lemma checked_inc_Some:
  assumes "checked_inc w = Some v"
  shows "unat v = unat w + 1"
proof -
  from assms have v: "w \<noteq> - 1" "v = w + 1"
    by (auto simp: checked_inc_def split: if_splits)
  then have "1 + w \<noteq> 0"
    using max_word_wrap [of w] by (metis add.commute)
  then have "unat (1 + w) = Suc (unat w)"
    by (rule unatSuc)
  then show ?thesis
    by (simp add: v add.commute)
qed

lemma checked_inc_less: "checked_inc w = Some v \<Longrightarrow> w < v"
  by (auto dest: checked_inc_Some simp: word_less_nat_alt)

lemma checked_inc_None: "checked_inc w = None \<longleftrightarrow> w = - 1"
  by (simp add: checked_inc_def)

end
