(* ===== verification/RustStr.thy ===== *)
theory RustStr
  imports Prelude
begin

text \<open>
  The string and integer functions of the Rust standard library that the supervisor uses. A
  Rust string is its UTF-8 bytes, a HOL \<open>string\<close>; whitespace is the Unicode White_Space
  property, given by the byte sequences of its characters (UTF-8 is self-synchronising, so a
  match of such a sequence in a valid string is that character).
\<close>

abbreviation NL :: char where "NL \<equiv> CHR 0x0A"
abbreviation CR :: char where "CR \<equiv> CHR 0x0D"
abbreviation SP :: char where "SP \<equiv> CHR 0x20"

subsection \<open>Prefixes and splitting\<close>

definition strip_prefix :: "string \<Rightarrow> string \<Rightarrow> string option" where
  "strip_prefix p s = (if prefix p s then Some (drop (length p) s) else None)"

definition strip_suffix :: "string \<Rightarrow> string \<Rightarrow> string option" where
  "strip_suffix p s = (if suffix p s then Some (take (length s - length p) s) else None)"

text \<open>\<open>str::split_once\<close> with a non-empty pattern: around its first occurrence.\<close>

fun split_once :: "string \<Rightarrow> string \<Rightarrow> (string \<times> string) option" where
  "split_once pat [] = None"
| "split_once pat (c # s) =
     (if prefix pat (c # s) then Some ([], drop (length pat) (c # s))
      else map_option (\<lambda>(a, b). (c # a, b)) (split_once pat s))"

text \<open>\<open>str::rsplit_once\<close> with a one-character pattern: around its last occurrence.\<close>

definition rsplit_once :: "char \<Rightarrow> string \<Rightarrow> (string \<times> string) option" where
  "rsplit_once c s = map_option (\<lambda>(a, b). (rev b, rev a)) (split_once [c] (rev s))"

fun contains_str :: "string \<Rightarrow> string \<Rightarrow> bool" where
  "contains_str pat [] = (pat = [])"
| "contains_str pat (c # s) = (prefix pat (c # s) \<or> contains_str pat s)"

text \<open>\<open>str::splitn(n, c)\<close> as the list of its parts.\<close>

fun splitn :: "nat \<Rightarrow> char \<Rightarrow> string \<Rightarrow> string list" where
  "splitn 0 c s = []"
| "splitn (Suc 0) c s = [s]"
| "splitn (Suc (Suc n)) c s =
     (case split_once [c] s of None \<Rightarrow> [s] | Some (a, b) \<Rightarrow> a # splitn (Suc n) c b)"

text \<open>\<open>str::lines\<close>: a line ends at LF, and a CR before that LF is dropped.\<close>

fun drop_cr :: "string \<Rightarrow> string" where
  "drop_cr (c # s) = (if c = CR then s else c # s)"
| "drop_cr [] = []"

fun lines_from :: "string \<Rightarrow> string \<Rightarrow> string list" where
  "lines_from acc [] = (if acc = [] then [] else [rev acc])"
| "lines_from acc (c # s) =
     (if c = NL then rev (drop_cr acc) # lines_from [] s else lines_from (c # acc) s)"

definition str_lines :: "string \<Rightarrow> string list" where
  "str_lines s = lines_from [] s"

subsection \<open>Whitespace\<close>

definition ws_seqs :: "string list" where
  "ws_seqs = [[CHR 0x09], [CHR 0x0A], [CHR 0x0B], [CHR 0x0C], [CHR 0x0D], [CHR 0x20],
     [CHR 0xC2, CHR 0x85], [CHR 0xC2, CHR 0xA0], [CHR 0xE1, CHR 0x9A, CHR 0x80],
     [CHR 0xE2, CHR 0x80, CHR 0x80], [CHR 0xE2, CHR 0x80, CHR 0x81],
     [CHR 0xE2, CHR 0x80, CHR 0x82], [CHR 0xE2, CHR 0x80, CHR 0x83],
     [CHR 0xE2, CHR 0x80, CHR 0x84], [CHR 0xE2, CHR 0x80, CHR 0x85],
     [CHR 0xE2, CHR 0x80, CHR 0x86], [CHR 0xE2, CHR 0x80, CHR 0x87],
     [CHR 0xE2, CHR 0x80, CHR 0x88], [CHR 0xE2, CHR 0x80, CHR 0x89],
     [CHR 0xE2, CHR 0x80, CHR 0x8A], [CHR 0xE2, CHR 0x80, CHR 0xA8],
     [CHR 0xE2, CHR 0x80, CHR 0xA9], [CHR 0xE2, CHR 0x80, CHR 0xAF],
     [CHR 0xE2, CHR 0x81, CHR 0x9F], [CHR 0xE3, CHR 0x80, CHR 0x80]]"

definition find_seq :: "string list \<Rightarrow> string \<Rightarrow> string option" where
  "find_seq seqs s = find (\<lambda>w. w \<noteq> [] \<and> prefix w s) seqs"

lemma find_seq_Some: "find_seq seqs s = Some w \<Longrightarrow> w \<noteq> [] \<and> prefix w s \<and> w \<in> set seqs"
  by (auto simp: find_seq_def find_Some_iff)

lemma find_seq_len: "find_seq seqs s = Some w \<Longrightarrow> length (drop (length w) s) < length s"
  by (auto dest!: find_seq_Some prefix_length_le simp: Suc_le_eq) (cases s; simp)

lemma find_seq_Nil [simp]: "find_seq seqs [] = None"
  by (auto simp: find_seq_def find_None_iff)

function trim_seqs :: "string list \<Rightarrow> string \<Rightarrow> string" where
  "trim_seqs seqs s =
     (case find_seq seqs s of None \<Rightarrow> s | Some w \<Rightarrow> trim_seqs seqs (drop (length w) s))"
  by pat_completeness auto
termination
  by (relation "measure (\<lambda>(seqs, s). length s)") (auto dest: find_seq_len)

declare trim_seqs.simps [simp del]

definition trim_start :: "string \<Rightarrow> string" where
  "trim_start s = trim_seqs ws_seqs s"

definition trim_end :: "string \<Rightarrow> string" where
  "trim_end s = rev (trim_seqs (map rev ws_seqs) (rev s))"

definition trim :: "string \<Rightarrow> string" where
  "trim s = trim_end (trim_start s)"

text \<open>\<open>str::split_whitespace\<close>: the maximal runs of characters that are not whitespace.\<close>

fun break_ws :: "string \<Rightarrow> string \<times> string" where
  "break_ws [] = ([], [])"
| "break_ws (c # s) =
     (if find_seq ws_seqs (c # s) \<noteq> None then ([], c # s)
      else case break_ws s of (a, b) \<Rightarrow> (c # a, b))"

lemma break_ws_append: "fst (break_ws s) @ snd (break_ws s) = s"
  by (induction s) (auto split: prod.splits)

lemma trim_seqs_length: "length (trim_seqs seqs s) \<le> length s"
proof (induction seqs s rule: trim_seqs.induct)
  case (1 seqs s)
  then show ?case
    by (subst trim_seqs.simps) (fastforce split: option.split dest: find_seq_len)
qed

lemma trim_seqs_None: "find_seq seqs (trim_seqs seqs s) = None"
proof (induction seqs s rule: trim_seqs.induct)
  case (1 seqs s)
  then show ?case
    by (cases "find_seq seqs s") (simp_all add: trim_seqs.simps [of seqs s])
qed

lemma trim_seqs_id: "find_seq seqs s = None \<Longrightarrow> trim_seqs seqs s = s"
  by (subst trim_seqs.simps) simp

lemma break_ws_progress:
  assumes "trim_start s \<noteq> []"
  shows "length (snd (break_ws (trim_start s))) < length s"
proof -
  obtain c t where t: "trim_start s = c # t"
    using assms by (cases "trim_start s") auto
  then have "find_seq ws_seqs (c # t) = None"
    using trim_seqs_None [of ws_seqs s] by (simp add: trim_start_def)
  then have "length (snd (break_ws (c # t))) \<le> length t"
    using arg_cong [OF break_ws_append [of t], of length] by (cases "break_ws t") simp
  moreover have "length (c # t) \<le> length s"
    using trim_seqs_length [of ws_seqs s] t by (simp add: trim_start_def)
  ultimately show ?thesis by (simp add: t)
qed

function split_ws :: "string \<Rightarrow> string list" where
  "split_ws s = (if trim_start s = [] then []
     else fst (break_ws (trim_start s)) # split_ws (snd (break_ws (trim_start s))))"
  by pat_completeness auto
termination
  by (relation "measure length") (auto simp: break_ws_progress)

declare split_ws.simps [simp del]

subsection \<open>Decimal numbers\<close>

definition is_digit :: "char \<Rightarrow> bool" where
  "is_digit c \<longleftrightarrow> CHR ''0'' \<le> c \<and> c \<le> CHR ''9''"

definition digit_val :: "char \<Rightarrow> nat" where
  "digit_val c = of_char c - 48"

definition digits_val :: "string \<Rightarrow> nat" where
  "digits_val s = foldl (\<lambda>n c. 10 * n + digit_val c) 0 s"

text \<open>
  \<open>str::parse\<close> for an unsigned integer below \<open>b\<close>: an optional \<open>+\<close>, then at least one
  ASCII digit and nothing else, and no overflow.
\<close>

definition parse_uint :: "nat \<Rightarrow> string \<Rightarrow> nat option" where
  "parse_uint b s = (let d = (case s of c # r \<Rightarrow> if c = CHR ''+'' then r else s | [] \<Rightarrow> []) in
     if d \<noteq> [] \<and> list_all is_digit d \<and> digits_val d < b then Some (digits_val d) else None)"

definition parse_u64 :: "string \<Rightarrow> u64 option" where
  "parse_u64 s = map_option of_nat (parse_uint (2 ^ 64) s)"

definition parse_u16 :: "string \<Rightarrow> u16 option" where
  "parse_u16 s = map_option of_nat (parse_uint (2 ^ 16) s)"

fun show_nat :: "nat \<Rightarrow> string" where
  "show_nat n = (if n < 10 then [char_of (48 + n)] else show_nat (n div 10) @ [char_of (48 + n mod 10)])"

declare show_nat.simps [simp del]

definition show_word :: "'a::len word \<Rightarrow> string" where
  "show_word w = show_nat (unat w)"

lemma of_char_digit: "n < 10 \<Longrightarrow> of_char (char_of (48 + n) :: char) = 48 + (n::nat)"
  by simp

lemma is_digit_char: "n < 10 \<Longrightarrow> is_digit (char_of (48 + n :: nat))"
  by (simp add: is_digit_def less_eq_char_def)

lemma digit_val_char: "n < 10 \<Longrightarrow> digit_val (char_of (48 + n :: nat)) = n"
  by (simp add: digit_val_def)

lemma show_nat_digits: "show_nat n \<noteq> [] \<and> list_all is_digit (show_nat n)"
proof (induction n rule: show_nat.induct)
  case (1 n)
  then show ?case
    by (cases "n < 10") (simp_all add: show_nat.simps [of n] is_digit_char)
qed

lemma digits_val_show: "digits_val (show_nat n) = n"
proof (induction n rule: show_nat.induct)
  case (1 n)
  then show ?case
    by (cases "n < 10") (simp_all add: show_nat.simps [of n] digits_val_def digit_val_char)
qed

lemma digit_not_plus: "is_digit c \<Longrightarrow> c \<noteq> CHR ''+''"
  by (auto simp: is_digit_def less_eq_char_def)

lemma parse_uint_show: "n < b \<Longrightarrow> parse_uint b (show_nat n) = Some n"
  using show_nat_digits [of n] digits_val_show [of n]
  by (cases "show_nat n") (auto simp: parse_uint_def Let_def dest: digit_not_plus)

lemma parse_u64_show [simp]: "parse_u64 (show_word w) = Some w"
  using unsigned_less [of w, where 'a = nat]
  by (simp add: parse_u64_def show_word_def parse_uint_show)

lemma parse_u16_show [simp]: "parse_u16 (show_word w) = Some w"
  using unsigned_less [of w, where 'a = nat]
  by (simp add: parse_u16_def show_word_def parse_uint_show)

lemma parse_uint_bound: "parse_uint b s = Some n \<Longrightarrow> n < b"
  by (auto simp: parse_uint_def Let_def split: if_splits)

lemma show_nat_inj: "show_nat m = show_nat n \<Longrightarrow> m = n"
  by (metis digits_val_show)

lemma show_nat_set: "c \<in> set (show_nat n) \<Longrightarrow> is_digit c"
  using show_nat_digits [of n] by (auto simp: list_all_iff)

subsection \<open>Hexadecimal\<close>

definition is_hex :: "char \<Rightarrow> bool" where
  "is_hex c \<longleftrightarrow> is_digit c \<or> (CHR ''a'' \<le> c \<and> c \<le> CHR ''f'') \<or> (CHR ''A'' \<le> c \<and> c \<le> CHR ''F'')"

definition ascii_lower :: "char \<Rightarrow> char" where
  "ascii_lower c = (if CHR ''A'' \<le> c \<and> c \<le> CHR ''Z'' then char_of (of_char c + (32::nat)) else c)"

abbreviation to_ascii_lowercase :: "string \<Rightarrow> string" where
  "to_ascii_lowercase \<equiv> map ascii_lower"

subsection \<open>UTF-8\<close>

text \<open>\<open>String::from_utf8\<close> and \<open>str::from_utf8\<close> accept exactly these byte strings.\<close>

definition byte_in :: "nat \<Rightarrow> nat \<Rightarrow> char \<Rightarrow> bool" where
  "byte_in lo hi c \<longleftrightarrow> lo \<le> of_char c \<and> of_char c \<le> hi"

abbreviation cont_byte :: "char \<Rightarrow> bool" where
  "cont_byte \<equiv> byte_in 0x80 0xBF"

fun utf8_ok :: "string \<Rightarrow> bool" where
  "utf8_ok [] = True"
| "utf8_ok (a # s) =
     (if byte_in 0 0x7F a then utf8_ok s
      else case s of
        [] \<Rightarrow> False
      | b # s2 \<Rightarrow>
          if byte_in 0xC2 0xDF a then cont_byte b \<and> utf8_ok s2
          else case s2 of
            [] \<Rightarrow> False
          | c # s3 \<Rightarrow>
              if byte_in 0xE0 0xEF a then
                byte_in (if byte_in 0xE0 0xE0 a then 0xA0 else 0x80)
                  (if byte_in 0xED 0xED a then 0x9F else 0xBF) b
                \<and> cont_byte c \<and> utf8_ok s3
              else case s3 of
                [] \<Rightarrow> False
              | d # s4 \<Rightarrow>
                  byte_in 0xF0 0xF4 a
                  \<and> byte_in (if byte_in 0xF0 0xF0 a then 0x90 else 0x80)
                      (if byte_in 0xF4 0xF4 a then 0x8F else 0xBF) b
                  \<and> cont_byte c \<and> cont_byte d \<and> utf8_ok s4)"

subsection \<open>Facts about the string functions\<close>

lemma strip_prefix_Some: "strip_prefix p s = Some r \<longleftrightarrow> s = p @ r"
  by (auto simp: strip_prefix_def prefix_def)

lemma strip_suffix_append [simp]: "strip_suffix p (r @ p) = Some r"
  by (simp add: strip_suffix_def suffix_def)

lemma strip_prefix_append [simp]: "strip_prefix p (p @ r) = Some r"
  by (simp add: strip_prefix_Some)

lemma split_once_Some: "split_once pat s = Some (a, b) \<Longrightarrow> s = a @ pat @ b"
  by (induction s arbitrary: a b) (auto simp: prefix_def split: if_splits)

lemma split_once_char: "c \<notin> set a \<Longrightarrow> split_once [c] (a @ c # b) = Some (a, b)"
  by (induction a) auto

lemma split_once_char_None: "c \<notin> set s \<Longrightarrow> split_once [c] s = None"
  by (induction s) auto

lemma split_once_char_free: "split_once [c] s = Some (a, b) \<Longrightarrow> c \<notin> set a"
  by (induction s arbitrary: a b) (auto split: if_splits)

lemma rsplit_once_char: "c \<notin> set b \<Longrightarrow> rsplit_once c (a @ c # b) = Some (a, b)"
  using split_once_char [of c "rev b" "rev a"] by (simp add: rsplit_once_def)

lemma rsplit_once_Some:
  assumes "rsplit_once c s = Some (a, b)"
  shows "s = a @ c # b \<and> c \<notin> set b"
proof -
  from assms have *: "split_once [c] (rev s) = Some (rev b, rev a)"
    by (auto simp: rsplit_once_def)
  have "rev (rev s) = rev (rev b @ [c] @ rev a)"
    using split_once_Some [OF *] by (rule arg_cong)
  then show ?thesis
    using split_once_char_free [OF *] by simp
qed

lemma lines_from_line: "NL \<notin> set l \<Longrightarrow>
    lines_from acc (l @ NL # s) = rev (drop_cr (rev l @ acc)) # lines_from [] s"
  by (induction l arbitrary: acc) auto

lemma str_lines_line: "NL \<notin> set l \<Longrightarrow> CR \<notin> set l \<Longrightarrow> str_lines (l @ NL # s) = l # str_lines s"
proof -
  assume l: "NL \<notin> set l" "CR \<notin> set l"
  have "CR \<notin> set r \<Longrightarrow> drop_cr r = r" for r
    by (cases r) auto
  then have "drop_cr (rev l) = rev l"
    using l(2) by simp
  with l show ?thesis
    by (simp add: str_lines_def lines_from_line)
qed

lemma str_lines_Nil [simp]: "str_lines [] = []"
  by (simp add: str_lines_def)

lemma trim_end_id: "find_seq (map rev ws_seqs) (rev s) = None \<Longrightarrow> trim_end s = s"
  by (simp add: trim_end_def trim_seqs_id)


subsection \<open>Lossy decoding\<close>

text \<open>
  \<open>String::from_utf8_lossy\<close>: \<open>utf8_step\<close> gives the length of the next chunk and whether
  it is one valid character; an invalid chunk is the longest start of a character, and becomes
  one U+FFFD.
\<close>

definition byte_at :: "nat \<Rightarrow> nat \<Rightarrow> string \<Rightarrow> nat \<Rightarrow> bool" where
  "byte_at lo hi s i \<longleftrightarrow> i < length s \<and> byte_in lo hi (s ! i)"

definition second_ok :: "string \<Rightarrow> bool" where
  "second_ok s = byte_at (if byte_in 0xE0 0xE0 (hd s) then 0xA0 else if byte_in 0xF0 0xF0 (hd s) then 0x90 else 0x80)
     (if byte_in 0xED 0xED (hd s) then 0x9F else if byte_in 0xF4 0xF4 (hd s) then 0x8F else 0xBF) s 1"

definition utf8_step :: "string \<Rightarrow> nat \<times> bool" where
  "utf8_step s = (let a = hd s; c = byte_at 0x80 0xBF s in
     if byte_in 0 0x7F a then (1, True)
     else if byte_in 0xC2 0xDF a then (if c 1 then (2, True) else (1, False))
     else if byte_in 0xE0 0xEF a then
       (if \<not> second_ok s then (1, False) else if c 2 then (3, True) else (2, False))
     else if byte_in 0xF0 0xF4 a then
       (if \<not> second_ok s then (1, False) else if \<not> c 2 then (2, False)
        else if c 3 then (4, True) else (3, False))
     else (1, False))"

lemma utf8_step_pos: "0 < fst (utf8_step s)"
  by (simp add: utf8_step_def Let_def)

function utf8_lossy :: "string \<Rightarrow> string" where
  "utf8_lossy s = (if s = [] then [] else
     (if snd (utf8_step s) then take (fst (utf8_step s)) s else [CHR 0xEF, CHR 0xBF, CHR 0xBD])
       @ utf8_lossy (drop (fst (utf8_step s)) s))"
  by pat_completeness auto
termination
  by (relation "measure length") (auto simp: utf8_step_pos)

declare utf8_lossy.simps [simp del]

lemma utf8_lossy_Nil [simp]: "utf8_lossy [] = []"
  by (simp add: utf8_lossy.simps)

lemma byte_at_simps [simp]:
  "byte_at lo hi (a # s) 0 \<longleftrightarrow> byte_in lo hi a" "byte_at lo hi [] i \<longleftrightarrow> False"
  "byte_at lo hi (a # s) (Suc i) \<longleftrightarrow> byte_at lo hi s i"
  by (auto simp: byte_at_def)

lemma byte_at_numeral [simp]: "byte_at lo hi (a # s) (numeral n) \<longleftrightarrow> byte_at lo hi s (pred_numeral n)"
  by (simp add: numeral_eq_Suc)

lemma utf8_step_1: "byte_in 0 0x7F a \<Longrightarrow> utf8_step (a # s) = (1, True)"
  by (simp add: utf8_step_def)

lemma utf8_step_2: "byte_in 0xC2 0xDF a \<Longrightarrow> cont_byte b \<Longrightarrow> utf8_step (a # b # s) = (2, True)"
  by (simp add: utf8_step_def byte_in_def [of _ _ a])

lemma utf8_step_3: "byte_in 0xE0 0xEF a \<Longrightarrow> second_ok (a # b # c # s) \<Longrightarrow> cont_byte c \<Longrightarrow>
    utf8_step (a # b # c # s) = (3, True)"
  by (simp add: utf8_step_def byte_in_def [of _ _ a])

lemma utf8_step_4: "byte_in 0xF0 0xF4 a \<Longrightarrow> second_ok (a # b # c # d # s) \<Longrightarrow> cont_byte c \<Longrightarrow> cont_byte d \<Longrightarrow>
    utf8_step (a # b # c # d # s) = (4, True)"
  by (simp add: utf8_step_def byte_in_def [of _ _ a])

lemma second_ok_3: "byte_in 0xE0 0xEF a \<Longrightarrow> second_ok (a # b # s) =
    byte_in (if byte_in 0xE0 0xE0 a then 0xA0 else 0x80) (if byte_in 0xED 0xED a then 0x9F else 0xBF) b"
  by (simp add: second_ok_def byte_in_def [of _ _ a])

lemma second_ok_4: "byte_in 0xF0 0xF4 a \<Longrightarrow> second_ok (a # b # s) =
    byte_in (if byte_in 0xF0 0xF0 a then 0x90 else 0x80) (if byte_in 0xF4 0xF4 a then 0x8F else 0xBF) b"
  by (simp add: second_ok_def byte_in_def [of _ _ a])

lemma utf8_ok_cases:
  assumes "utf8_ok (a # s)"
  obtains "byte_in 0 0x7F a" "utf8_ok s"
    | b s' where "byte_in 0xC2 0xDF a" "s = b # s'" "cont_byte b" "utf8_ok s'"
    | b c s' where "byte_in 0xE0 0xEF a" "s = b # c # s'" "second_ok (a # s)" "cont_byte c" "utf8_ok s'"
    | b c d s' where "byte_in 0xF0 0xF4 a" "s = b # c # d # s'" "second_ok (a # s)" "cont_byte c" "cont_byte d" "utf8_ok s'"
proof (cases "byte_in 0 0x7F a")
  case True
  with assms that(1) show ?thesis by simp
next
  case one: False
  with assms obtain b s2 where s: "s = b # s2"
    by (cases s) simp_all
  show ?thesis
  proof (cases "byte_in 0xC2 0xDF a")
    case True
    with assms one s that(2) show ?thesis by simp
  next
    case two: False
    with assms one s obtain c s3 where s2: "s2 = c # s3"
      by (cases s2) simp_all
    show ?thesis
    proof (cases "byte_in 0xE0 0xEF a")
      case True
      with assms one two s s2 that(3) show ?thesis by (simp add: second_ok_3)
    next
      case three: False
      with assms one two s s2 obtain d s4 where s3: "s3 = d # s4"
        by (cases s3) simp_all
      with assms one two three s s2 that(4) show ?thesis by (simp add: second_ok_4)
    qed
  qed
qed

lemma utf8_step_valid: "utf8_ok (a # s) \<Longrightarrow> snd (utf8_step (a # s)) \<and> utf8_ok (drop (fst (utf8_step (a # s))) (a # s))"
  by (erule utf8_ok_cases) (simp_all add: utf8_step_1 utf8_step_2 utf8_step_3 utf8_step_4 del: utf8_ok.simps)

lemma utf8_lossy_valid: "utf8_ok s \<Longrightarrow> utf8_lossy s = s"
proof (induction s rule: utf8_lossy.induct)
  case (1 s)
  show ?case
  proof (cases s)
    case (Cons a t)
    have v: "snd (utf8_step s)" "utf8_ok (drop (fst (utf8_step s)) s)"
      using utf8_step_valid 1(2) unfolding Cons by blast+
    have "utf8_lossy (drop (fst (utf8_step s)) s) = drop (fst (utf8_step s)) s"
      by (rule 1(1)) (use v in \<open>simp_all add: Cons\<close>)
    with v show ?thesis
      by (subst utf8_lossy.simps) simp
  qed simp
qed

end
