(* ===== verification/OrdMap.thy ===== *)
theory OrdMap
  imports RustStr
begin

text \<open>
  \<open>BTreeMap\<close> and \<open>BTreeSet\<close> of the Rust standard library, as association lists in strictly
  ascending key order (the order in which the code iterates). The locale \<open>ordered_map\<close> states
  the contract the components use (what a lookup returns after an insert or a removal, that
  the iteration is sorted and agrees with the lookup) and proves the facts they share: what a
  sequence of inserts leaves, and that two maps with the same lookups iterate alike.
\<close>

locale ordered_map =
  fixes empty :: 'm
    and ins :: "'k::linorder \<Rightarrow> 'v \<Rightarrow> 'm \<Rightarrow> 'm"
    and del :: "'k \<Rightarrow> 'm \<Rightarrow> 'm"
    and look :: "'m \<Rightarrow> 'k \<Rightarrow> 'v option"
    and iter :: "'m \<Rightarrow> ('k \<times> 'v) list"
    and ok :: "'m \<Rightarrow> bool"
  assumes look_empty: "look empty k = None"
    and look_ins: "look (ins k v m) k' = (if k' = k then Some v else look m k')"
    and look_del: "look (del k m) k' = (if k' = k then None else look m k')"
    and ok_empty: "ok empty"
    and ok_ins: "ok m \<Longrightarrow> ok (ins k v m)"
    and ok_del: "ok m \<Longrightarrow> ok (del k m)"
    and iter_sorted: "ok m \<Longrightarrow> sorted_wrt (<) (map fst (iter m))"
    and iter_look: "ok m \<Longrightarrow> map_of (iter m) = look m"
begin

lemma look_fold:
  "look (foldl (\<lambda>m (k, v). ins k v m) m kvs) k =
     (case map_of (rev kvs) k of Some v \<Rightarrow> Some v | None \<Rightarrow> look m k)"
  by (induction kvs arbitrary: m)
    (auto simp: look_ins map_add_Some_iff split: option.splits)

lemma ok_fold: "ok m \<Longrightarrow> ok (foldl (\<lambda>m (k, v). ins k v m) m kvs)"
  by (induction kvs arbitrary: m) (auto simp: ok_ins)

lemma distinct_map_of_rev: "distinct (map fst xs) \<Longrightarrow> map_of (rev xs) = map_of xs"
  by (subst map_of_inject_set) (simp_all flip: rev_map)

lemma iter_distinct: "ok m \<Longrightarrow> distinct (map fst (iter m))"
  by (drule iter_sorted) (simp add: strict_sorted_iff)

lemma iter_mem: "ok m \<Longrightarrow> (k, v) \<in> set (iter m) \<longleftrightarrow> look m k = Some v"
  by (metis iter_distinct iter_look map_of_eq_Some_iff)

lemma iter_canonical:
  assumes "ok m"
  shows "map (\<lambda>k. (k, the (look m k))) (map fst (iter m)) = iter m"
proof -
  have "(fst e, the (look m (fst e))) = e" if "e \<in> set (iter m)" for e
    using that assms iter_mem [of m "fst e" "snd e"] by simp
  then show ?thesis
    by (simp add: map_idI)
qed

lemma iter_eqI:
  assumes "ok m" and "ok n" and "look m = look n"
  shows "iter m = iter n"
proof -
  have "set (map fst (iter m)) = set (map fst (iter n))"
    using assms by (simp flip: dom_map_of_conv_image_fst add: iter_look)
  then have "map fst (iter m) = map fst (iter n)"
    using assms by (intro strict_sorted_equal) (simp_all add: iter_sorted)
  then show ?thesis
    using assms iter_canonical by metis
qed

lemma look_restore:
  assumes "ok m"
  shows "look (foldl (\<lambda>m (k, v). ins k v m) empty (iter m)) = look m"
proof
  fix k
  have "map_of (rev (iter m)) k = map_of (iter m) k"
    using iter_distinct [OF assms] by (simp add: distinct_map_of_rev)
  then show "look (foldl (\<lambda>m (k, v). ins k v m) empty (iter m)) k = look m k"
    by (auto simp: look_fold look_empty iter_look assms split: option.splits)
qed

end

subsection \<open>The implementation\<close>

type_synonym ('k, 'v) btree = "('k \<times> 'v) list"

fun bt_insert :: "'k::linorder \<Rightarrow> 'v \<Rightarrow> ('k, 'v) btree \<Rightarrow> ('k, 'v) btree" where
  "bt_insert k v [] = [(k, v)]"
| "bt_insert k v ((a, b) # m) =
     (if k = a then (k, v) # m else if k < a then (k, v) # (a, b) # m else (a, b) # bt_insert k v m)"

definition bt_remove :: "'k \<Rightarrow> ('k, 'v) btree \<Rightarrow> ('k, 'v) btree" where
  "bt_remove k m = filter (\<lambda>e. fst e \<noteq> k) m"

abbreviation bt_get :: "('k, 'v) btree \<Rightarrow> 'k \<Rightarrow> 'v option" where
  "bt_get \<equiv> map_of"

definition bt_ok :: "('k::linorder, 'v) btree \<Rightarrow> bool" where
  "bt_ok m \<longleftrightarrow> sorted_wrt (<) (map fst m)"

lemma bt_get_insert: "bt_get (bt_insert k v m) k' = (if k' = k then Some v else bt_get m k')"
  by (induction m) auto

lemma bt_get_remove: "bt_get (bt_remove k m) k' = (if k' = k then None else bt_get m k')"
  by (induction m) (auto simp: bt_remove_def)

lemma bt_keys_insert: "fst ` set (bt_insert k v m) = insert k (fst ` set m)"
  by (simp flip: dom_map_of_conv_image_fst) (auto simp: dom_def bt_get_insert split: if_splits)

lemma bt_ok_insert: "bt_ok m \<Longrightarrow> bt_ok (bt_insert k v m)"
proof (induction m)
  case Nil
  then show ?case by (simp add: bt_ok_def)
next
  case (Cons e m)
  moreover obtain a b where "e = (a, b)" by (cases e)
  ultimately show ?case
    using bt_keys_insert [of k v m] by (auto simp: bt_ok_def)
qed

lemma bt_ok_remove: "bt_ok m \<Longrightarrow> bt_ok (bt_remove k m)"
  by (simp add: bt_ok_def bt_remove_def sorted_wrt_map sorted_wrt_filter)

interpretation bt: ordered_map "[]" bt_insert bt_remove bt_get "\<lambda>m. m" bt_ok
  by unfold_locales
    (simp_all add: bt_get_insert bt_get_remove bt_ok_insert bt_ok_remove, simp_all add: bt_ok_def)

lemma bt_rebuild: "bt_ok m \<Longrightarrow> foldl (\<lambda>m (k, v). bt_insert k v m) [] m = m"
  by (rule bt.iter_eqI) (simp_all add: bt.ok_fold bt.ok_empty bt.look_restore)

declare bt_get_insert [simp] bt_get_remove [simp]

text \<open>\<open>BTreeSet\<close> is a map to \<open>unit\<close>; its elements in order are the keys.\<close>

type_synonym 'k bset = "('k, unit) btree"

definition bs_insert :: "'k::linorder \<Rightarrow> 'k bset \<Rightarrow> 'k bset" where
  "bs_insert k s = bt_insert k () s"

definition bs_mem :: "'k bset \<Rightarrow> 'k \<Rightarrow> bool" where
  "bs_mem s k \<longleftrightarrow> bt_get s k \<noteq> None"

definition bs_elems :: "'k bset \<Rightarrow> 'k list" where
  "bs_elems s = map fst s"

definition bs_of_list :: "'k::linorder list \<Rightarrow> 'k bset" where
  "bs_of_list ks = foldl (\<lambda>s k. bs_insert k s) [] ks"

lemma bs_mem_insert [simp]: "bs_mem (bs_insert k s) k' \<longleftrightarrow> k' = k \<or> bs_mem s k'"
  by (simp add: bs_mem_def bs_insert_def)

lemma bs_mem_remove [simp]: "bs_mem (bt_remove k s) k' \<longleftrightarrow> k' \<noteq> k \<and> bs_mem s k'"
  by (simp add: bs_mem_def)

lemma bs_mem_elems: "bs_mem s k \<longleftrightarrow> k \<in> set (bs_elems s)"
  by (induction s) (auto simp: bs_mem_def bs_elems_def)

lemma bs_mem_foldl: "bs_mem (foldl (\<lambda>s k. bs_insert k s) s ks) k \<longleftrightarrow> k \<in> set ks \<or> bs_mem s k"
  by (induction ks arbitrary: s) auto

lemma bs_mem_of_list [simp]: "bs_mem (bs_of_list ks) k \<longleftrightarrow> k \<in> set ks"
  by (simp add: bs_of_list_def bs_mem_foldl) (simp add: bs_mem_def)

end
