(* ===== verification/World.thy ===== *)
theory World
  imports OrdMap
begin

text \<open>
  The state every effectful component runs over, and the file-system calls of the Rust standard
  library it makes (\<open>util/fs.rs\<close> included).

  A world holds the files (by path string; a directory exists when a file lies below it), the
  clock reading a write stamps a file with, and everything outside the process
  (\<open>w_env\<close>: the bucket, the other processes, the stop flag), whose type is a parameter. Any
  call can fail: \<open>w_faults\<close> is the schedule of outcomes, one per fallible call and \<open>Fine\<close>
  after its end, and \<open>w_stat\<close> the same for \<open>Path::exists\<close>, which reports an error as
  "absent". A theorem quantifies over the schedule, so it holds whatever fails, and since a
  crash leaves the same world as failing every later call, it also covers a crash anywhere. A
  torn write leaves a prefix of the data. What lies outside the process does not write the
  supervisor's files (\<open>env_op\<close> changes \<open>w_env\<close> only).
\<close>

record inode =
  f_data :: string
  f_private :: bool  \<comment> \<open>mode 0600\<close>
  f_mtime :: nat
  f_ctime :: nat

datatype fault = Fine | Fail | Torn nat

record 'e world =
  w_fs :: "(string, inode) btree"
  w_faults :: "fault list"
  w_stat :: "bool list"
  w_now :: nat
  w_env :: 'e

datatype io_error = NotFound | AlreadyExists | OtherIo

abbreviation file_at :: "'e world \<Rightarrow> string \<Rightarrow> inode option" where
  "file_at w p \<equiv> bt_get (w_fs w) p"

definition data_at :: "'e world \<Rightarrow> string \<Rightarrow> string option" where
  "data_at w p = map_option f_data (file_at w p)"

definition is_dir :: "'e world \<Rightarrow> string \<Rightarrow> bool" where
  "is_dir w d \<longleftrightarrow> list_ex (\<lambda>e. prefix (d @ ''/'') (fst e)) (w_fs w)"

definition next_fault :: "('e world, fault) state" where
  "next_fault = State (\<lambda>w. case w_faults w of
     [] \<Rightarrow> (Fine, w) | f # fs \<Rightarrow> (f, w\<lparr>w_faults := fs\<rparr>))"

definition env_op :: "('e \<Rightarrow> 'a \<times> 'e) \<Rightarrow> ('e world, 'a) state" where
  "env_op f = State (\<lambda>w. case f (w_env w) of (a, e) \<Rightarrow> (a, w\<lparr>w_env := e\<rparr>))"

definition fs_exists :: "string \<Rightarrow> ('e world, bool) state" where
  "fs_exists p = State (\<lambda>w. case w_stat w of
     [] \<Rightarrow> (file_at w p \<noteq> None \<or> is_dir w p, w)
   | b # bs \<Rightarrow> (\<not> b \<and> (file_at w p \<noteq> None \<or> is_dir w p), w\<lparr>w_stat := bs\<rparr>))"

definition fs_is_file :: "string \<Rightarrow> ('e world, bool) state" where
  "fs_is_file p = State (\<lambda>w. case w_stat w of
     [] \<Rightarrow> (file_at w p \<noteq> None, w)
   | b # bs \<Rightarrow> (\<not> b \<and> file_at w p \<noteq> None, w\<lparr>w_stat := bs\<rparr>))"

definition fs_is_dir :: "string \<Rightarrow> ('e world, bool) state" where
  "fs_is_dir p = State (\<lambda>w. case w_stat w of
     [] \<Rightarrow> (is_dir w p, w)
   | b # bs \<Rightarrow> (\<not> b \<and> is_dir w p, w\<lparr>w_stat := bs\<rparr>))"

text \<open>\<open>Path::join\<close>: an absolute path replaces the base.\<close>

definition join :: "string \<Rightarrow> string \<Rightarrow> string" where
  "join root rel = (if prefix ''/'' rel then rel else root @ ''/'' @ rel)"

definition fs_read :: "string \<Rightarrow> ('e world, io_error + string) state" where
  "fs_read p = do {
     f \<leftarrow> next_fault;
     if f \<noteq> Fine then ret (Inl OtherIo)
     else gets (\<lambda>w. case file_at w p of None \<Rightarrow> Inl NotFound | Some x \<Rightarrow> Inr (f_data x)) }"

definition fs_read_to_string :: "string \<Rightarrow> ('e world, io_error + string) state" where
  "fs_read_to_string p = do {
     r \<leftarrow> fs_read p;
     ret (case r of Inl e \<Rightarrow> Inl e | Inr s \<Rightarrow> if utf8_ok s then Inr s else Inl OtherIo) }"

definition put_file :: "string \<Rightarrow> inode \<Rightarrow> 'e world \<Rightarrow> 'e world" where
  "put_file p x w = w\<lparr>w_fs := bt_insert p x (w_fs w)\<rparr>"

definition drop_file :: "string \<Rightarrow> 'e world \<Rightarrow> 'e world" where
  "drop_file p w = w\<lparr>w_fs := bt_remove p (w_fs w)\<rparr>"

text \<open>\<open>fs::write\<close>: create or truncate, then write; the mode of an existing file is kept.\<close>

definition written :: "string \<Rightarrow> string \<Rightarrow> 'e world \<Rightarrow> 'e world" where
  "written p d w = put_file p \<lparr>f_data = d,
     f_private = (case file_at w p of None \<Rightarrow> False | Some x \<Rightarrow> f_private x),
     f_mtime = w_now w, f_ctime = w_now w\<rparr> w"

definition fs_write :: "string \<Rightarrow> string \<Rightarrow> ('e world, io_error + unit) state" where
  "fs_write p d = do {
     f \<leftarrow> next_fault;
     case f of
       Fine \<Rightarrow> do { modify (written p d); ret (Inr ()) }
     | Fail \<Rightarrow> ret (Inl OtherIo)
     | Torn n \<Rightarrow> do { modify (written p (take n d)); ret (Inl OtherIo) } }"

definition fs_remove :: "string \<Rightarrow> ('e world, io_error + unit) state" where
  "fs_remove p = do {
     f \<leftarrow> next_fault;
     if f \<noteq> Fine then ret (Inl OtherIo) else do {
       present \<leftarrow> gets (\<lambda>w. file_at w p \<noteq> None);
       if present then do { modify (drop_file p); ret (Inr ()) } else ret (Inl NotFound) } }"

definition fs_rename :: "string \<Rightarrow> string \<Rightarrow> ('e world, io_error + unit) state" where
  "fs_rename a b = do {
     f \<leftarrow> next_fault;
     if f \<noteq> Fine then ret (Inl OtherIo) else do {
       x \<leftarrow> gets (\<lambda>w. file_at w a);
       case x of None \<Rightarrow> ret (Inl NotFound)
       | Some y \<Rightarrow> do { modify (\<lambda>w. put_file b y (drop_file a w)); ret (Inr ()) } } }"

text \<open>\<open>fs::hard_link\<close> never replaces its target.\<close>

definition fs_hard_link :: "string \<Rightarrow> string \<Rightarrow> ('e world, io_error + unit) state" where
  "fs_hard_link a b = do {
     f \<leftarrow> next_fault;
     if f \<noteq> Fine then ret (Inl OtherIo) else do {
       there \<leftarrow> gets (\<lambda>w. file_at w b \<noteq> None \<or> is_dir w b);
       x \<leftarrow> gets (\<lambda>w. file_at w a);
       if there then ret (Inl AlreadyExists)
       else case x of None \<Rightarrow> ret (Inl NotFound)
       | Some y \<Rightarrow> do { modify (put_file b y); ret (Inr ()) } } }"

definition fs_len :: "string \<Rightarrow> ('e world, io_error + nat) state" where
  "fs_len p = do { r \<leftarrow> fs_read p; ret (case r of Inl e \<Rightarrow> Inl e | Inr d \<Rightarrow> Inr (length d)) }"

text \<open>\<open>create_dir_all\<close> and a permission change of a directory: they can only fail.\<close>

definition fs_dir_op :: "('e world, io_error + unit) state" where
  "fs_dir_op = do { f \<leftarrow> next_fault; ret (if f = Fine then Inr () else Inl OtherIo) }"

text \<open>\<open>read_dir\<close>: the names directly below a directory.\<close>

definition child_of :: "string \<Rightarrow> string \<Rightarrow> string option" where
  "child_of d p = (case strip_prefix (d @ ''/'') p of None \<Rightarrow> None
     | Some r \<Rightarrow> Some (takeWhile (\<lambda>c. c \<noteq> CHR ''/'') r))"

definition dir_children :: "'e world \<Rightarrow> string \<Rightarrow> string list" where
  "dir_children w d = remdups (List.map_filter (\<lambda>e. child_of d (fst e)) (w_fs w))"

definition fs_read_dir :: "string \<Rightarrow> ('e world, io_error + string list) state" where
  "fs_read_dir d = do {
     f \<leftarrow> next_fault;
     if f \<noteq> Fine then ret (Inl OtherIo)
     else gets (\<lambda>w. if is_dir w d then Inr (dir_children w d) else Inl NotFound) }"

definition fs_remove_dir_all :: "string \<Rightarrow> ('e world, io_error + unit) state" where
  "fs_remove_dir_all d = do {
     f \<leftarrow> next_fault;
     if f \<noteq> Fine then ret (Inl OtherIo)
     else do {
       modify (\<lambda>w. w\<lparr>w_fs := filter (\<lambda>e. \<not> prefix (d @ ''/'') (fst e)) (w_fs w)\<rparr>);
       ret (Inr ()) } }"

text \<open>\<open>util::make_private\<close>: restrict a path to its owner.\<close>

definition make_private :: "string \<Rightarrow> ('e world, io_error + unit) state" where
  "make_private p = do {
     f \<leftarrow> next_fault;
     if f \<noteq> Fine then ret (Inl OtherIo) else do {
       x \<leftarrow> gets (\<lambda>w. file_at w p);
       case x of None \<Rightarrow> ret (Inl NotFound)
       | Some y \<Rightarrow> do { modify (put_file p (y\<lparr>f_private := True\<rparr>)); ret (Inr ()) } } }"

subsection \<open>What each call leaves alone\<close>

text \<open>A file that is as it was, or gone.\<close>

definition as_before :: "inode option \<Rightarrow> inode option \<Rightarrow> bool" where
  "as_before b x \<longleftrightarrow> x = b \<or> x = None"

abbreviation on_fs :: "((string, inode) btree \<Rightarrow> bool) \<Rightarrow> 'e world \<Rightarrow> bool" where
  "on_fs P w \<equiv> P (w_fs w)"

abbreviation on_env :: "('e \<Rightarrow> bool) \<Rightarrow> 'e world \<Rightarrow> bool" where
  "on_env P w \<equiv> P (w_env w)"

lemma run_next_fault: "run_state next_fault w = (f, v) \<Longrightarrow>
    w_fs v = w_fs w \<and> w_env v = w_env w \<and> w_stat v = w_stat w \<and> w_now v = w_now w"
  by (auto simp: next_fault_def split: list.splits)

lemma put_file_simps [simp]:
  "w_fs (put_file p x w) = bt_insert p x (w_fs w)" "w_env (put_file p x w) = w_env w"
  "w_stat (put_file p x w) = w_stat w" "w_faults (put_file p x w) = w_faults w"
  "w_now (put_file p x w) = w_now w"
  by (simp_all add: put_file_def)

lemma drop_file_simps [simp]:
  "w_fs (drop_file p w) = bt_remove p (w_fs w)" "w_env (drop_file p w) = w_env w"
  "w_stat (drop_file p w) = w_stat w" "w_faults (drop_file p w) = w_faults w"
  "w_now (drop_file p w) = w_now w"
  by (simp_all add: drop_file_def)

lemma written_simps [simp]:
  "w_env (written p d w) = w_env w" "w_stat (written p d w) = w_stat w"
  "data_at (written p d w) p = Some d" "q \<noteq> p \<Longrightarrow> file_at (written p d w) q = file_at w q"
  by (simp_all add: written_def data_at_def)

text \<open>
  \<open>framed ps m\<close>: \<open>m\<close> changes at most the files of \<open>ps\<close>; \<open>local_op ps m\<close>: nor anything
  outside the process. Neither invents a failing \<open>stat\<close>.
\<close>

definition frame :: "string set \<Rightarrow> 'e world \<Rightarrow> 'e world \<Rightarrow> bool" where
  "frame ps w v \<longleftrightarrow> (w_stat w = [] \<longrightarrow> w_stat v = []) \<and> (\<forall>q. q \<notin> ps \<longrightarrow> file_at v q = file_at w q)"

definition framed :: "string set \<Rightarrow> ('e world, 'a) state \<Rightarrow> bool" where
  "framed ps m \<longleftrightarrow> (\<forall>w. frame ps w (snd (run_state m w)))"

definition local_op :: "string set \<Rightarrow> ('e world, 'a) state \<Rightarrow> bool" where
  "local_op ps m \<longleftrightarrow> framed ps m \<and> (\<forall>w. w_env (snd (run_state m w)) = w_env w)"

lemma frame_simps [simp]: "frame ps w w"
  by (simp add: frame_def)

lemma frame_trans: "frame ps w v \<Longrightarrow> frame ps v u \<Longrightarrow> frame ps w u"
  by (simp add: frame_def)

lemma framedI: "(\<And>w a v. run_state m w = (a, v) \<Longrightarrow> frame ps w v) \<Longrightarrow> framed ps m"
  by (metis framed_def prod.collapse)

lemma framedD: "framed ps m \<Longrightarrow> run_state m w = (a, v) \<Longrightarrow> frame ps w v"
  by (metis framed_def snd_conv)

lemma framed_return [intro!]: "framed ps (ret a)"
  by (rule framedI) simp

lemma framed_gets [intro!]: "framed ps (gets f)"
  by (rule framedI) auto

lemma framed_env_op [intro!]: "framed ps (env_op f)"
  by (rule framedI) (auto simp: env_op_def frame_def split: prod.splits)

lemma framed_bind [intro]:
  assumes "framed ps m" "\<And>a. framed ps (f a)"
  shows "framed ps (State_Monad.bind m f)"
  using assms unfolding framed_def by (auto simp: split_beta intro: frame_trans)

lemma framed_bind_ret:
  assumes "framed ps m" "hoare (\<lambda>_. True) m (\<lambda>a _. R a)" "\<And>a. R a \<Longrightarrow> framed ps (f a)"
  shows "framed ps (State_Monad.bind m f)"
proof (rule framedI)
  fix w b u
  assume run: "run_state (State_Monad.bind m f) w = (b, u)"
  obtain a v where v: "run_state m w = (a, v)"
    by (cases "run_state m w")
  from hoareD [OF assms(2) _ v] have "R a"
    by simp
  moreover have "run_state (f a) v = (b, u)"
    using run v by simp
  ultimately show "frame ps w u"
    using framedD [OF assms(1) v] framedD [OF assms(3)] frame_trans by blast
qed

lemma framed_if [intro]:
  "(b \<Longrightarrow> framed ps m) \<Longrightarrow> (\<not> b \<Longrightarrow> framed ps n) \<Longrightarrow> framed ps (if b then m else n)"
  by simp

lemma framed_option [intro]:
  "(x = None \<Longrightarrow> framed ps m) \<Longrightarrow> (\<And>a. x = Some a \<Longrightarrow> framed ps (f a)) \<Longrightarrow>
    framed ps (case x of None \<Rightarrow> m | Some a \<Rightarrow> f a)"
  by (cases x) auto

lemma framed_sum [intro]: "(\<And>e. framed ps (f e)) \<Longrightarrow> (\<And>a. framed ps (g a)) \<Longrightarrow>
    framed ps (case x of Inl e \<Rightarrow> f e | Inr a \<Rightarrow> g a)"
  by (cases x) auto

lemma framed_prod [intro]: "(\<And>a b. framed ps (f a b)) \<Longrightarrow> framed ps (case x of (a, b) \<Rightarrow> f a b)"
  by (cases x) auto

lemmas framed_rules =
  framed_return framed_gets framed_env_op framed_bind framed_if framed_option framed_sum framed_prod

lemma framed_preserves: "framed ps m \<Longrightarrow> q \<notin> ps \<Longrightarrow> preserves (\<lambda>w. P (file_at w q)) m"
  by (rule preservesI) (auto dest: framedD simp: frame_def)

lemma framed_mono: "framed ps m \<Longrightarrow> ps \<subseteq> qs \<Longrightarrow> framed qs m"
  by (auto simp: framed_def frame_def)

lemma local_op_framed: "local_op ps m \<Longrightarrow> framed ps m"
  by (simp add: local_op_def)

lemma local_opI: "(\<And>w a v. run_state m w = (a, v) \<Longrightarrow> w_env v = w_env w \<and> frame ps w v) \<Longrightarrow> local_op ps m"
  by (metis local_op_def framed_def prod.collapse)

lemma local_opD: "local_op ps m \<Longrightarrow> run_state m w = (a, v) \<Longrightarrow> w_env v = w_env w \<and>
    (\<forall>q. q \<notin> ps \<longrightarrow> file_at v q = file_at w q)"
  by (metis local_op_def framed_def frame_def snd_conv)

lemma local_op_return [intro!]: "local_op ps (ret a)"
  by (rule local_opI) simp

lemma local_op_gets [intro!]: "local_op ps (gets f)"
  by (rule local_opI) auto

lemma local_op_next_fault [intro!]: "local_op ps next_fault"
  by (rule local_opI) (auto simp: frame_def dest!: run_next_fault)

lemma local_op_bind [intro]:
  assumes m: "local_op ps m" and f: "\<And>a. local_op ps (f a)"
  shows "local_op ps (State_Monad.bind m f)"
  using assms unfolding local_op_def by (auto simp: split_beta)

lemma local_op_modify:
  "(\<And>w. w_env (f w) = w_env w \<and> w_stat (f w) = w_stat w \<and>
      (\<forall>q. q \<notin> ps \<longrightarrow> file_at (f w) q = file_at w q)) \<Longrightarrow> local_op ps (modify f)"
  by (rule local_opI) (auto simp: frame_def)

lemma local_op_if [intro]: "local_op ps m \<Longrightarrow> local_op ps n \<Longrightarrow> local_op ps (if b then m else n)"
  by simp

lemma local_op_option [intro]: "local_op ps m \<Longrightarrow> (\<And>a. local_op ps (f a)) \<Longrightarrow>
    local_op ps (case x of None \<Rightarrow> m | Some a \<Rightarrow> f a)"
  by (cases x) auto

lemma local_op_sum [intro]: "(\<And>e. local_op ps (f e)) \<Longrightarrow> (\<And>a. local_op ps (g a)) \<Longrightarrow>
    local_op ps (case x of Inl e \<Rightarrow> f e | Inr a \<Rightarrow> g a)"
  by (cases x) auto

lemma local_op_mono: "local_op ps m \<Longrightarrow> ps \<subseteq> qs \<Longrightarrow> local_op qs m"
  by (auto simp: local_op_def framed_def frame_def)

lemma local_op_read [intro!]: "local_op ps (fs_read p)"
  unfolding fs_read_def by auto

lemma local_op_read_to_string [intro!]: "local_op ps (fs_read_to_string p)"
  unfolding fs_read_to_string_def by auto

lemma local_op_len [intro!]: "local_op ps (fs_len p)"
  unfolding fs_len_def by auto

lemma local_op_exists [intro!]: "local_op ps (fs_exists p)"
  by (rule local_opI) (auto simp: fs_exists_def frame_def split: list.splits)

lemma local_op_is_file [intro!]: "local_op ps (fs_is_file p)"
  by (rule local_opI) (auto simp: fs_is_file_def frame_def split: list.splits)

lemma local_op_is_dir [intro!]: "local_op ps (fs_is_dir p)"
  by (rule local_opI) (auto simp: fs_is_dir_def frame_def split: list.splits)

lemma local_op_dir_op [intro!]: "local_op ps fs_dir_op"
  unfolding fs_dir_op_def by auto

lemma local_op_read_dir [intro!]: "local_op ps (fs_read_dir d)"
  unfolding fs_read_dir_def by auto

lemma local_op_write [intro]: "p \<in> ps \<Longrightarrow> local_op ps (fs_write p d)"
  unfolding fs_write_def
  by (auto intro!: local_op_bind local_op_modify written_simps(4) split: fault.split)

lemma local_op_remove [intro]: "p \<in> ps \<Longrightarrow> local_op ps (fs_remove p)"
  unfolding fs_remove_def by (auto intro!: local_op_bind local_op_modify)

lemma local_op_rename [intro]: "a \<in> ps \<Longrightarrow> b \<in> ps \<Longrightarrow> local_op ps (fs_rename a b)"
  unfolding fs_rename_def by (auto intro!: local_op_bind local_op_modify split: option.split)

lemma local_op_hard_link [intro]: "b \<in> ps \<Longrightarrow> local_op ps (fs_hard_link a b)"
  unfolding fs_hard_link_def by (auto intro!: local_op_bind local_op_modify split: option.split)

lemma local_op_make_private [intro]: "p \<in> ps \<Longrightarrow> local_op ps (make_private p)"
  unfolding make_private_def by (auto intro!: local_op_bind local_op_modify split: option.split)

lemma map_of_filter_key: "map_of (filter (\<lambda>e. P (fst e)) m) k = (if P k then map_of m k else None)"
  by (induction m) auto

lemmas map_of_drop_below = map_of_filter_key [of "\<lambda>q. \<not> prefix p q" for p]

lemma local_op_remove_dir_all [intro]:
  "(\<And>q. prefix (d @ ''/'') q \<Longrightarrow> q \<in> ps) \<Longrightarrow> local_op ps (fs_remove_dir_all d)"
  unfolding fs_remove_dir_all_def
  by (auto intro!: local_op_bind local_op_modify simp: map_of_drop_below)

lemma local_preserves_env [keeps]: "local_op ps m \<Longrightarrow> preserves (on_env P) m"
  by (rule preservesI) (auto dest: local_opD)

lemma local_preserves_file: "local_op ps m \<Longrightarrow> q \<notin> ps \<Longrightarrow> preserves (\<lambda>w. P (file_at w q)) m"
  by (rule preservesI) (auto dest: local_opD)

lemma env_op_preserves_fs [keeps, intro!]: "preserves (on_fs P) (env_op f)"
  by (rule preservesI) (auto simp: env_op_def split: prod.splits)

lemma env_op_preserves_env: "(\<And>e. P e \<Longrightarrow> P (snd (f e))) \<Longrightarrow> preserves (on_env P) (env_op f)"
  by (rule preservesI) (force simp: env_op_def split: prod.splits)

end
