(* ===== verification/Signals.thy ===== *)
theory Signals
  imports World
begin

text \<open>
  \<open>runtime/process/signals.rs\<close>: the stop flag. A handler does nothing but set it; \<open>stopping\<close>
  peeks and \<open>take_stop\<close> consumes. Registering a handler is a parameter (the crate \<open>signal-hook\<close>).
\<close>

definition STOP_SIGNALS :: "nat list" where
  "STOP_SIGNALS = [15, 2, 1, 3]"  \<comment> \<open>\<open>SIGTERM\<close>, \<open>SIGINT\<close>, \<open>SIGHUP\<close>, \<open>SIGQUIT\<close>\<close>

text \<open>A registration that fails does not keep the others from being made.\<close>

primrec register_each :: "(nat \<Rightarrow> 'e \<Rightarrow> bool \<times> 'e) \<Rightarrow> nat list \<Rightarrow> bool \<Rightarrow> ('e world, bool) state" where
  "register_each register [] ok = ret ok"
| "register_each register (s # ss) ok = do {
     r \<leftarrow> env_op (register s);
     register_each register ss (if r then ok else False) }"

definition install_signal_handlers :: "(nat \<Rightarrow> 'e \<Rightarrow> bool \<times> 'e) \<Rightarrow> ('e world, bool) state" where
  "install_signal_handlers register = register_each register STOP_SIGNALS True"

definition take_stop :: "bool \<Rightarrow> bool \<times> bool" where
  "take_stop flag = (flag, False)"

definition stopping :: "bool \<Rightarrow> bool \<times> bool" where
  "stopping flag = (flag, flag)"

lemma register_each_failed: "\<not> fst (run_state (register_each register ss False) w)"
  by (induction ss arbitrary: w) (simp_all split: prod.split)

text \<open>A request is consumed once; looking at it does not consume it.\<close>

lemma take_stop_once: "fst (take_stop (snd (take_stop flag))) = False" "fst (take_stop (snd (stopping flag))) = flag"
  by (simp_all add: take_stop_def stopping_def)

end
