(* ===== verification/Schema.thy ===== *)
theory Schema
  imports OrdMap
begin

text \<open>
  \<open>config/env/schema.rs\<close> and \<open>config/env/knobs.rs\<close>: the table of the keys the supervisor
  consumes, and the scalar parsers over it. Warnings that only log are not modelled; a value
  that warns and is ignored is \<open>None\<close> or the default, as in the code.
\<close>

subsection \<open>The knob table\<close>

datatype knob_policy = File | Legacy | ProcessOnly

datatype knob_default = Str string | Bool bool

record knob =
  k_name :: string
  k_policy :: knob_policy
  k_default :: "knob_default option"

definition KNOBS :: "knob list" where
  "KNOBS = [
    \<lparr>k_name = ''TAILSCALE_AUTHKEY'', k_policy = File, k_default = None\<rparr>,
    \<lparr>k_name = ''TAILSCALE_STATE_FILE'', k_policy = File, k_default = Some (Str ''/data/tailscaled.state'')\<rparr>,
    \<lparr>k_name = ''TAILSCALE_SOCKET'', k_policy = File, k_default = Some (Str ''/tmp/tailscaled.sock'')\<rparr>,
    \<lparr>k_name = ''TAILSCALE_HOSTNAME'', k_policy = File, k_default = Some (Str ''vaultwarden-hummingbird'')\<rparr>,
    \<lparr>k_name = ''TAILSCALE_SERVE'', k_policy = File, k_default = Some (Bool True)\<rparr>,
    \<lparr>k_name = ''TAILSCALE_SERVICE'', k_policy = File, k_default = None\<rparr>,
    \<lparr>k_name = ''TAILSCALE_USERSPACE'', k_policy = File, k_default = Some (Bool True)\<rparr>,
    \<lparr>k_name = ''VAULTWARDEN_PORT'', k_policy = File, k_default = Some (Str ''8080'')\<rparr>,
    \<lparr>k_name = ''VAULTWARDEN_ROCKET_PORT'', k_policy = Legacy, k_default = None\<rparr>,
    \<lparr>k_name = ''SUPERVISOR_ENV_FILE'', k_policy = ProcessOnly, k_default = None\<rparr>,
    \<lparr>k_name = ''SUPERVISOR_DB_BACKUP'', k_policy = File, k_default = None\<rparr>,
    \<lparr>k_name = ''SUPERVISOR_DB_BACKUP_INTERVAL'', k_policy = File, k_default = None\<rparr>,
    \<lparr>k_name = ''SUPERVISOR_DB_BACKUP_KEEP'', k_policy = File, k_default = None\<rparr>,
    \<lparr>k_name = ''SUPERVISOR_DB_BACKUP_RESTORE'', k_policy = File, k_default = None\<rparr>,
    \<lparr>k_name = ''SUPERVISOR_S3_REMOTE'', k_policy = File, k_default = None\<rparr>,
    \<lparr>k_name = ''SUPERVISOR_S3_ACCESS_KEY_ID'', k_policy = File, k_default = None\<rparr>,
    \<lparr>k_name = ''SUPERVISOR_S3_SECRET_ACCESS_KEY'', k_policy = File, k_default = None\<rparr>,
    \<lparr>k_name = ''SUPERVISOR_S3_ENDPOINT'', k_policy = File, k_default = None\<rparr>,
    \<lparr>k_name = ''SUPERVISOR_S3_SYNC_INTERVAL'', k_policy = File, k_default = None\<rparr>]"

definition find_knob :: "string \<Rightarrow> knob option" where
  "find_knob name = find (\<lambda>k. k_name k = name) KNOBS"

definition file_policy :: "string \<Rightarrow> knob_policy option" where
  "file_policy name = map_option k_policy (find_knob name)"

definition consumed_child_key :: "string \<Rightarrow> bool" where
  "consumed_child_key name \<longleftrightarrow> prefix ''VAULTWARDEN_'' name \<and> find_knob name \<noteq> None"

text \<open>The two default lookups panic on a key without such a default: \<open>None\<close> here.\<close>

definition string_default :: "string \<Rightarrow> string option" where
  "string_default name = (case Option.bind (find_knob name) k_default of
     Some (Str v) \<Rightarrow> Some v | _ \<Rightarrow> None)"

definition bool_default :: "string \<Rightarrow> bool option" where
  "bool_default name = (case Option.bind (find_knob name) k_default of
     Some (Bool v) \<Rightarrow> Some v | _ \<Rightarrow> None)"

subsection \<open>Namespaces\<close>

definition is_supervisor_key :: "string \<Rightarrow> bool" where
  "is_supervisor_key key \<longleftrightarrow> prefix ''TAILSCALE_'' key \<or> prefix ''SUPERVISOR_'' key"

definition is_supervisor_consumed :: "string \<Rightarrow> bool" where
  "is_supervisor_consumed key \<longleftrightarrow> is_supervisor_key key \<or> consumed_child_key key"

definition vaultwarden_key :: "string \<Rightarrow> string option" where
  "vaultwarden_key key = (case strip_prefix ''VAULTWARDEN_'' key of
     None \<Rightarrow> None | Some k \<Rightarrow> if k \<noteq> [] then Some k else None)"

subsection \<open>Scalar parsers\<close>

definition non_empty :: "string option \<Rightarrow> string option" where
  "non_empty v = (case v of None \<Rightarrow> None | Some s \<Rightarrow> if s \<noteq> [] then Some s else None)"

definition valid_port :: "string option \<Rightarrow> string option" where
  "valid_port v = (case non_empty v of None \<Rightarrow> None
     | Some s \<Rightarrow> (case parse_u16 s of
         Some p \<Rightarrow> if p \<noteq> 0 then Some s else None
       | None \<Rightarrow> None))"

definition parse_bool :: "string \<Rightarrow> bool option" where
  "parse_bool v = (let l = to_ascii_lowercase v in
     if l \<in> {''true'', ''1'', ''yes'', ''on''} then Some True
     else if l \<in> {''false'', ''0'', ''no'', ''off''} then Some False
     else None)"

definition parse_flag :: "string \<Rightarrow> bool \<Rightarrow> bool" where
  "parse_flag raw dflt = (if raw = [] then dflt
     else case parse_bool raw of Some b \<Rightarrow> b | None \<Rightarrow> dflt)"

definition parse_count :: "string \<Rightarrow> u64 \<Rightarrow> u64" where
  "parse_count raw dflt = (if raw = [] then dflt
     else case parse_u64 raw of Some v \<Rightarrow> v | None \<Rightarrow> dflt)"

definition resolve_service :: "string option \<Rightarrow> string option" where
  "resolve_service v = (case non_empty v of None \<Rightarrow> None
     | Some s \<Rightarrow>
         let name = (case strip_prefix ''svc:'' s of Some r \<Rightarrow> r | None \<Rightarrow> s)
         in if name = [] then None else Some (''svc:'' @ name))"

subsection \<open>Facts\<close>

lemma non_empty_Some: "non_empty v = Some s \<longleftrightarrow> v = Some s \<and> s \<noteq> []"
  by (cases v) (auto simp: non_empty_def)

lemma find_knob_name: "find_knob name = Some k \<Longrightarrow> k_name k = name"
  by (auto simp: find_knob_def find_Some_iff)

lemma valid_port_Some: "valid_port v = Some s \<longleftrightarrow>
    v = Some s \<and> (\<exists>p. parse_u16 s = Some p \<and> p \<noteq> 0)"
proof -
  have "parse_u16 [] = None"
    by (simp add: parse_u16_def parse_uint_def)
  then show ?thesis
    by (auto simp: valid_port_def non_empty_def split: option.splits if_splits)
qed

lemma parse_count_default: "parse_u64 raw = None \<Longrightarrow> parse_count raw d = d"
  by (simp add: parse_count_def)

text \<open>No defaulted key makes \<open>string_default\<close> or \<open>bool_default\<close> panic where it is used.\<close>

lemma string_defaults:
  "string_default ''VAULTWARDEN_PORT'' = Some ''8080''"
  "string_default ''TAILSCALE_STATE_FILE'' = Some ''/data/tailscaled.state''"
  "string_default ''TAILSCALE_SOCKET'' = Some ''/tmp/tailscaled.sock''"
  "string_default ''TAILSCALE_HOSTNAME'' = Some ''vaultwarden-hummingbird''"
  by (simp_all add: string_default_def find_knob_def KNOBS_def)

lemma bool_defaults:
  "bool_default ''TAILSCALE_SERVE'' = Some True"
  "bool_default ''TAILSCALE_USERSPACE'' = Some True"
  by (simp_all add: bool_default_def find_knob_def KNOBS_def)

lemma vaultwarden_key_Some: "vaultwarden_key k = Some s \<longleftrightarrow> k = ''VAULTWARDEN_'' @ s \<and> s \<noteq> []"
  by (auto simp: vaultwarden_key_def strip_prefix_Some split: option.splits if_splits)
    (auto simp: strip_prefix_def split: if_splits)

lemma supervisor_key_not_vaultwarden: "is_supervisor_key k \<Longrightarrow> vaultwarden_key k = None"
  by (auto simp: is_supervisor_key_def vaultwarden_key_def strip_prefix_def prefix_def)

lemma resolve_service_shape:
  "resolve_service v = Some s \<Longrightarrow> \<exists>n. n \<noteq> [] \<and> s = ''svc:'' @ n"
  by (auto simp: resolve_service_def Let_def split: option.splits if_splits)

end
