(* ===== verification/SyncConfig.thy ===== *)
theory SyncConfig
  imports Schema
begin

text \<open>
  \<open>config/sync\<close> (spec and resolve), \<open>s3/remote.rs\<close> and the constants of
  \<open>config/consts.rs\<close> they use: the S3 remote and the state-sync settings. A knob source is
  a function from a key and a default to a value, as the resolvers receive it. Durations are
  whole seconds.
\<close>

definition SYNC_INTERVAL_DEFAULT :: u64 where "SYNC_INTERVAL_DEFAULT = 3600"
definition BACKUP_INTERVAL_DEFAULT :: u64 where "BACKUP_INTERVAL_DEFAULT = 21600"
definition BACKUP_KEEP_DEFAULT :: u64 where "BACKUP_KEEP_DEFAULT = 3"
definition MAX_INTERVAL_SECS :: u64 where "MAX_INTERVAL_SECS = 7 * 24 * 3600"
definition MAX_BACKUP_KEEP :: u64 where "MAX_BACKUP_KEEP = 1000"
definition BACKUP_STAGING :: string where "BACKUP_STAGING = ''/data/db-backups''"

lemmas config_consts =
  SYNC_INTERVAL_DEFAULT_def BACKUP_INTERVAL_DEFAULT_def BACKUP_KEEP_DEFAULT_def
  MAX_INTERVAL_SECS_def MAX_BACKUP_KEEP_def

type_synonym knob_source = "string \<Rightarrow> string \<Rightarrow> string"

record remote_spec =
  rs_bucket :: string
  rs_prefix :: string
  rs_key_id :: string
  rs_key_secret :: string
  rs_endpoint :: string

record sync_config =
  sc_remote :: string
  sc_target :: remote_spec
  sc_interval :: u64
  sc_state_file :: "string option"

datatype config_error = NoEndpoint | NoColon | BadBucket

text \<open>
  \<open>trim_start_matches('/')\<close> on the prefix, and the bucket's forbidden characters: whitespace,
  \<open>:\<close> and \<open>/\<close>.
\<close>

definition bad_bucket :: "string \<Rightarrow> bool" where
  "bad_bucket b \<longleftrightarrow> b = [] \<or> contains_str '':'' b \<or> contains_str ''/'' b
     \<or> list_ex (\<lambda>w. contains_str w b) ws_seqs"

definition bucket_and_prefix :: "string \<Rightarrow> string \<times> string" where
  "bucket_and_prefix path = (case split_once ''/'' path of Some bp \<Rightarrow> bp | None \<Rightarrow> (path, []))"

definition dir_prefix :: "string \<Rightarrow> string" where
  "dir_prefix p = (let q = dropWhile (\<lambda>c. c = CHR ''/'') p in if q = [] then [] else q @ ''/'')"

definition parse_remote :: "string \<Rightarrow> string \<Rightarrow> string \<Rightarrow> string \<Rightarrow> config_error + remote_spec" where
  "parse_remote remote key_id key_secret endpoint =
     (case split_once '':'' remote of
        None \<Rightarrow> Inl NoColon
      | Some np \<Rightarrow>
          let bp = bucket_and_prefix (trim (snd np))
          in if bad_bucket (fst bp) then Inl BadBucket
             else Inr \<lparr>rs_bucket = fst bp, rs_prefix = dir_prefix (snd bp),
                    rs_key_id = key_id, rs_key_secret = key_secret, rs_endpoint = endpoint\<rparr>)"

definition sync_config_new ::
    "string \<Rightarrow> string \<Rightarrow> string \<Rightarrow> string \<Rightarrow> u64 \<Rightarrow> config_error + sync_config" where
  "sync_config_new remote key_id key_secret endpoint interval =
     (if endpoint = [] then Inl NoEndpoint
      else case parse_remote remote key_id key_secret endpoint of
        Inl e \<Rightarrow> Inl e
      | Inr target \<Rightarrow> Inr \<lparr>sc_remote = remote, sc_target = target, sc_interval = interval,
          sc_state_file = None\<rparr>)"

definition set_state_file :: "string \<Rightarrow> sync_config \<Rightarrow> sync_config" where
  "set_state_file state c = c\<lparr>sc_state_file := strip_prefix ''/data/'' state\<rparr>"

definition sync_prefix :: "sync_config \<Rightarrow> string" where
  "sync_prefix c = rs_prefix (sc_target c)"

definition resolve_sync :: "knob_source \<Rightarrow> sync_config option" where
  "resolve_sync knob =
     (let remote = knob ''SUPERVISOR_S3_REMOTE'' [];
          key_id = knob ''SUPERVISOR_S3_ACCESS_KEY_ID'' [];
          key_secret = knob ''SUPERVISOR_S3_SECRET_ACCESS_KEY'' []
      in if remote = [] then None
         else if key_id = [] \<or> key_secret = [] then None
         else
           let s = parse_count (knob ''SUPERVISOR_S3_SYNC_INTERVAL'' []) SYNC_INTERVAL_DEFAULT;
               secs = (if s > MAX_INTERVAL_SECS then SYNC_INTERVAL_DEFAULT else s)
           in case sync_config_new remote key_id key_secret (knob ''SUPERVISOR_S3_ENDPOINT'' []) secs of
                Inr sync \<Rightarrow> Some sync
              | Inl _ \<Rightarrow> None)"

subsection \<open>What a resolved configuration satisfies\<close>

text \<open>A key prefix is empty or directory-style, and starts with no separator.\<close>

definition prefix_ok :: "string \<Rightarrow> bool" where
  "prefix_ok p \<longleftrightarrow> p = [] \<or> (last p = CHR ''/'' \<and> hd p \<noteq> CHR ''/'')"

definition sync_config_ok :: "sync_config \<Rightarrow> bool" where
  "sync_config_ok c \<longleftrightarrow>
     prefix_ok (sync_prefix c) \<and> rs_bucket (sc_target c) \<noteq> [] \<and>
     CHR ''/'' \<notin> set (rs_bucket (sc_target c)) \<and> CHR '':'' \<notin> set (rs_bucket (sc_target c)) \<and>
     rs_endpoint (sc_target c) \<noteq> [] \<and> sc_interval c \<le> MAX_INTERVAL_SECS"

lemma contains_char: "contains_str [c] s \<longleftrightarrow> c \<in> set s"
  by (induction s) auto

lemma prefix_ok_dir: "prefix_ok (dir_prefix p)"
  using hd_dropWhile [of "\<lambda>c. c = CHR ''/''" p] by (auto simp: prefix_ok_def dir_prefix_def Let_def)

lemma parse_remote_ok:
  assumes "parse_remote r i k e = Inr t"
  shows "prefix_ok (rs_prefix t) \<and> \<not> bad_bucket (rs_bucket t) \<and> rs_endpoint t = e"
  using assms
  by (auto simp: parse_remote_def Let_def prefix_ok_dir split: option.splits if_split_asm)

lemma bad_bucketD: "\<not> bad_bucket b \<Longrightarrow> b \<noteq> [] \<and> CHR ''/'' \<notin> set b \<and> CHR '':'' \<notin> set b"
  by (simp add: bad_bucket_def contains_char)

lemma sync_config_new_ok: "sync_config_new r i k e n = Inr c \<Longrightarrow> n \<le> MAX_INTERVAL_SECS \<Longrightarrow> sync_config_ok c"
  by (auto simp: sync_config_new_def sync_config_ok_def sync_prefix_def
      dest!: parse_remote_ok bad_bucketD split: if_splits sum.splits)

lemma resolve_sync_ok: "resolve_sync knob = Some c \<Longrightarrow> sync_config_ok c"
  by (auto simp: resolve_sync_def Let_def split: if_splits sum.splits intro!: sync_config_new_ok)
    (simp_all add: config_consts)

lemma set_state_file_ok: "sync_config_ok (set_state_file s c) = sync_config_ok c"
  by (simp add: sync_config_ok_def set_state_file_def sync_prefix_def)

end
