(* ===== verification/S3Types.thy ===== *)
theory S3Types
  imports World SyncConfig
begin

text \<open>
  The vocabulary of \<open>s3/client.rs\<close>: requests, responses and errors, the third-party code the
  client rests on, and the pure parts of the client (bounds, retry policy, signing region).

  \<open>ureq\<close>, \<open>rusty_s3\<close>, \<open>url\<close> and \<open>sha2\<close> are crates outside the repository: they are the
  fields of \<open>deps\<close>. \<open>d_http\<close> performs one signed request; as documented, ureq turns a 4xx
  or 5xx status into \<open>StatusCode\<close> and hands every other response over, its body being read
  in chunks, each a piece of the body or a failed read. Byte counts of a transfer are \<open>nat\<close>.
\<close>

subsection \<open>Bounds\<close>

definition MULTIPART_THRESHOLD :: nat where "MULTIPART_THRESHOLD = 16 * 1024 * 1024"
definition PART_SIZE :: nat where "PART_SIZE = 8 * 1024 * 1024"
definition MAX_PARTS :: nat where "MAX_PARTS = 10000"
definition MULTIPART_XML_CAP :: nat where "MULTIPART_XML_CAP = 64 * 1024"
definition MAX_DOWNLOAD_ATTEMPTS :: nat where "MAX_DOWNLOAD_ATTEMPTS = 3"
definition RETRY_ATTEMPTS :: nat where "RETRY_ATTEMPTS = 3"
definition RETRY_BASE :: nat where "RETRY_BASE = 200"
definition MAX_SYNC_OBJECT_BYTES :: nat where "MAX_SYNC_OBJECT_BYTES = 1024 * 1024 * 1024"
definition MAX_DB_OBJECT_BYTES :: nat where "MAX_DB_OBJECT_BYTES = 4 * 1024 * 1024 * 1024"
definition MAX_LIST_KEYS :: nat where "MAX_LIST_KEYS = 10000"
definition MAX_LIST_PAGES :: nat where "MAX_LIST_PAGES = 1024"
definition LIST_BODY_CAP :: nat where "LIST_BODY_CAP = 16 * 1024 * 1024"

subsection \<open>Requests and responses\<close>

datatype action =
    PutObject
  | GetObject "nat option"
  | DeleteObject
  | CreateMultipart
  | UploadPart nat string
  | CompleteMultipart string "string list"
  | AbortMultipart string
  | ListObjects "string option"

record client =
  cl_bucket :: string
  cl_path :: string
  cl_region :: string
  cl_key_id :: string
  cl_key_secret :: string

record request =
  rq_client :: client
  rq_action :: action
  rq_key :: string
  rq_body :: string

record response =
  rp_status :: nat
  rp_etag :: "string option"
  rp_length :: "string option"
  rp_body :: "(unit + string) list"

datatype ureq_error = StatusCode nat | Io | Transport

record raw_item =
  ri_key :: string
  ri_size :: "nat option"
  ri_modified :: "string option"

record listed =
  li_key :: string
  li_size :: nat
  li_modified :: string

record expect =
  ex_size :: "nat option"
  ex_sha256 :: "string option"
  ex_max :: nat

datatype s3_error =
    Aborted | NoEndpointUrl | BadEndpoint | CannotSize | CannotOpen | CannotRead
  | Http ureq_error | BadStatus nat | Unparseable | TooManyParts | NoEtag
  | ReadFailed | OverCap | LargerThanListed | ShortBody | WriteFailed
  | SizeMismatch | CannotHash | ShaMismatch | CannotPublish
  | TooManyPages | TooManyKeys | NoSize | RepeatedToken

type_synonym 'e abort = "'e \<Rightarrow> bool \<times> 'e"

record 'e deps =
  d_http :: "request \<Rightarrow> 'e \<Rightarrow> (ureq_error + response) \<times> 'e"
  d_sleep :: "nat \<Rightarrow> 'e \<Rightarrow> unit \<times> 'e"
  d_millis :: "'e \<Rightarrow> nat \<times> 'e"
  d_parse_create :: "string \<Rightarrow> string option"
  d_parse_list :: "string \<Rightarrow> (raw_item list \<times> string option) option"
  d_parse_url :: "string \<Rightarrow> (string option \<times> string) option"
  d_bucket_ok :: "string \<Rightarrow> bool"
  d_sha256 :: "string \<Rightarrow> string"

subsection \<open>Retries\<close>

definition retryable :: "ureq_error \<Rightarrow> bool" where
  "retryable e = (case e of StatusCode c \<Rightarrow> c = 429 \<or> (500 \<le> c \<and> c < 600) | _ \<Rightarrow> True)"

text \<open>Milliseconds: \<open>RETRY_BASE * 2^min(attempt-1, 3)\<close> and a jitter below 100.\<close>

definition backoff :: "nat \<Rightarrow> nat \<Rightarrow> nat" where
  "backoff attempt subsec_millis = RETRY_BASE * 2 ^ min (attempt - 1) 3 + subsec_millis mod 100"

text \<open>The attempts that may still follow are the recursion's argument.\<close>

fun retrying_from :: "'e deps \<Rightarrow> nat \<Rightarrow> ('e world, ureq_error + 'a) state \<Rightarrow>
    ('e world, ureq_error + 'a) state" where
  "retrying_from dp 0 request = request"
| "retrying_from dp (Suc n) request = do {
     r \<leftarrow> request;
     case r of
       Inl e \<Rightarrow> if retryable e then do {
           ms \<leftarrow> env_op (d_millis dp);
           env_op (d_sleep dp (backoff (RETRY_ATTEMPTS - Suc n) ms));
           retrying_from dp n request }
         else ret (Inl e)
     | Inr a \<Rightarrow> ret (Inr a) }"

definition retrying :: "'e deps \<Rightarrow> ('e world, ureq_error + 'a) state \<Rightarrow>
    ('e world, ureq_error + 'a) state" where
  "retrying dp request = retrying_from dp (RETRY_ATTEMPTS - 1) request"

subsection \<open>Endpoint and signing region\<close>

definition AUTO_REGION :: string where "AUTO_REGION = ''auto''"

definition aws_host_rest :: "string \<Rightarrow> string option" where
  "aws_host_rest host = (case strip_suffix ''.amazonaws.com'' host of
     Some r \<Rightarrow> Some r | None \<Rightarrow> strip_suffix ''.amazonaws.com.cn'' host)"

definition strip_region_label :: "string \<Rightarrow> string option" where
  "strip_region_label r = (case strip_prefix ''dualstack.'' r of Some n \<Rightarrow> Some n
     | None \<Rightarrow> (case strip_prefix ''fips.'' r of Some n \<Rightarrow> Some n
       | None \<Rightarrow> strip_prefix ''fips-'' r))"

lemma strip_region_label_shorter: "strip_region_label r = Some n \<Longrightarrow> length n < length r"
  by (auto simp: strip_region_label_def strip_prefix_Some split: option.splits)

function strip_region_labels :: "string \<Rightarrow> string" where
  "strip_region_labels r = (case strip_region_label r of Some n \<Rightarrow> strip_region_labels n | None \<Rightarrow> r)"
  by pat_completeness auto
termination
  by (relation "measure length") (auto dest: strip_region_label_shorter)

declare strip_region_labels.simps [simp del]

definition region_for :: "string option \<Rightarrow> string" where
  "region_for host_str = (case host_str of None \<Rightarrow> AUTO_REGION
     | Some host \<Rightarrow> (case aws_host_rest host of None \<Rightarrow> AUTO_REGION
       | Some rest \<Rightarrow>
           if prefix ''s3-accelerate'' rest then ''us-east-1''
           else if rest = ''s3'' then ''us-east-1''
           else case (case strip_prefix ''s3.'' rest of Some r \<Rightarrow> Some r | None \<Rightarrow> strip_prefix ''s3-'' rest) of
             None \<Rightarrow> AUTO_REGION
           | Some r \<Rightarrow> let region = strip_region_labels r in
               if region = [] \<or> region = ''external-1'' then ''us-east-1'' else region))"

definition normalize_endpoint :: "string \<Rightarrow> string" where
  "normalize_endpoint path = (if suffix ''/'' path then path else path @ ''/'')"

definition connect :: "'e deps \<Rightarrow> remote_spec \<Rightarrow> s3_error + client" where
  "connect dp spec = (if rs_endpoint spec = [] then Inl NoEndpointUrl
     else case d_parse_url dp (rs_endpoint spec) of None \<Rightarrow> Inl BadEndpoint
     | Some hp \<Rightarrow>
         if d_bucket_ok dp (rs_bucket spec)
         then Inr \<lparr>cl_bucket = rs_bucket spec, cl_path = normalize_endpoint (snd hp),
                cl_region = region_for (fst hp), cl_key_id = rs_key_id spec,
                cl_key_secret = rs_key_secret spec\<rparr>
         else Inl BadEndpoint)"

subsection \<open>Digests and bounded bodies\<close>

definition hex_char :: "nat \<Rightarrow> char" where
  "hex_char n = (if n < 10 then char_of (48 + n) else char_of (87 + n))"

definition hex :: "string \<Rightarrow> string" where
  "hex bytes = concat (map (\<lambda>b. [hex_char (of_char b div 16), hex_char (of_char b mod 16)]) bytes)"

definition sha256_hex :: "'e deps \<Rightarrow> string \<Rightarrow> string" where
  "sha256_hex dp d = hex (d_sha256 dp d)"

definition sha256_file :: "'e deps \<Rightarrow> string \<Rightarrow> ('e world, io_error + string) state" where
  "sha256_file dp p = do {
     r \<leftarrow> fs_read p;
     ret (case r of Inl e \<Rightarrow> Inl e | Inr d \<Rightarrow> Inr (sha256_hex dp d)) }"

text \<open>\<open>take(cap).read_to_string\<close>: at most \<open>cap\<close> bytes, then the UTF-8 check.\<close>

fun read_capped :: "nat \<Rightarrow> (unit + string) list \<Rightarrow> unit + string" where
  "read_capped cap [] = Inr []"
| "read_capped cap (Inl u # cs) = (if cap = 0 then Inr [] else Inl u)"
| "read_capped cap (Inr b # cs) =
     (if cap \<le> length b then Inr (take cap b)
      else case read_capped (cap - length b) cs of Inl u \<Rightarrow> Inl u | Inr s \<Rightarrow> Inr (b @ s))"

definition read_text :: "nat \<Rightarrow> response \<Rightarrow> s3_error + string" where
  "read_text cap r = (case read_capped cap (rp_body r) of
     Inl _ \<Rightarrow> Inl ReadFailed | Inr s \<Rightarrow> if utf8_ok s then Inr s else Inl ReadFailed)"

definition checked :: "response \<Rightarrow> s3_error + response" where
  "checked r = (if 200 \<le> rp_status r \<and> rp_status r < 300 then Inr r else Inl (BadStatus (rp_status r)))"

subsection \<open>Facts\<close>

lemma read_capped_length: "read_capped cap cs = Inr s \<Longrightarrow> length s \<le> cap"
  by (induction cap cs arbitrary: s rule: read_capped.induct)
    (fastforce split: if_splits sum.splits)+

lemma hex_length: "length (hex bs) = 2 * length bs"
  by (induction bs) (simp_all add: hex_def)

lemma strip_region_labels_None: "strip_region_label (strip_region_labels r) = None"
proof (induction r rule: strip_region_labels.induct)
  case (1 r)
  then show ?case
    by (cases "strip_region_label r") (simp_all add: strip_region_labels.simps [of r])
qed

lemma normalize_endpoint_dir: "suffix ''/'' (normalize_endpoint p)"
  by (simp add: normalize_endpoint_def)

text \<open>The retry loop: its invariants are the request's, and it ends in an answer of the request.\<close>

lemma preserves_retrying_from:
  assumes "preserves I request" and "\<And>f. preserves I (env_op (d_millis dp) :: ('e world, nat) state)"
    and "\<And>n. preserves I (env_op (d_sleep dp n))"
  shows "preserves I (retrying_from dp n request)"
proof (induction n)
  case 0
  then show ?case
    using assms(1) by simp
next
  case (Suc n)
  show ?case
    unfolding retrying_from.simps
    by (intro preserves_bind preserves_sum preserves_if preserves_return assms Suc)
qed

end
