(* ===== verification/S3Client.thy ===== *)
theory S3Client
  imports S3Types
begin

text \<open>
  \<open>s3/client.rs\<close>: the operations of \<open>Client\<close> (\<open>put\<close>, \<open>put_bytes\<close>, \<open>get\<close>,
  \<open>get_optional_text\<close>, \<open>list\<close>, \<open>delete\<close>) as programs over the world. Every operation
  takes its caller's \<open>abort\<close>. The loops are cut at the source's own bounds: the parts of an
  upload by the remaining size, the attempts of a download by those left, the pages of a listing
  by those left.
\<close>

subsection \<open>One request\<close>

definition send :: "'e deps \<Rightarrow> client \<Rightarrow> action \<Rightarrow> string \<Rightarrow> string \<Rightarrow>
    ('e world, ureq_error + response) state" where
  "send dp cl act key body = env_op (d_http dp
     \<lparr>rq_client = cl, rq_action = act, rq_key = key, rq_body = body\<rparr>)"

definition guard_abort :: "'e abort \<Rightarrow> ('e world, s3_error + 'a) state \<Rightarrow>
    ('e world, s3_error + 'a) state" where
  "guard_abort abort m = do {
     stop \<leftarrow> env_op abort;
     if stop then ret (Inl Aborted) else m }"

definition answer :: "ureq_error + response \<Rightarrow> s3_error + response" where
  "answer r = (case r of Inl e \<Rightarrow> Inl (Http e) | Inr rp \<Rightarrow> checked rp)"

definition send_checked :: "'e deps \<Rightarrow> client \<Rightarrow> action \<Rightarrow> string \<Rightarrow> string \<Rightarrow>
    ('e world, s3_error + response) state" where
  "send_checked dp cl act key body = do {
     r \<leftarrow> retrying dp (send dp cl act key body);
     ret (answer r) }"

definition no_body :: "s3_error + response \<Rightarrow> s3_error + unit" where
  "no_body r = (case r of Inl e \<Rightarrow> Inl e | Inr _ \<Rightarrow> Inr ())"

subsection \<open>Uploads\<close>

definition abort_upload :: "'e deps \<Rightarrow> client \<Rightarrow> string \<Rightarrow> string \<Rightarrow> ('e world, unit) state" where
  "abort_upload dp cl key up = do { send dp cl (AbortMultipart up) key []; ret () }"

text \<open>
  One part, of \<open>d\<close> (the whole file) at the offset the parts so far add up to. \<open>read_exact\<close>
  fails when the file is shorter than it was sized.
\<close>

definition put_part :: "'e deps \<Rightarrow> client \<Rightarrow> string \<Rightarrow> string \<Rightarrow> nat \<Rightarrow> string \<Rightarrow>
    ('e world, s3_error + string) state" where
  "put_part dp cl key up part_number chunk = do {
     r \<leftarrow> send_checked dp cl (UploadPart part_number up) key chunk;
     ret (case r of Inl e \<Rightarrow> Inl e
       | Inr rp \<Rightarrow> (case rp_etag rp of None \<Rightarrow> Inl NoEtag | Some t \<Rightarrow> Inr t)) }"

function put_parts_from :: "'e deps \<Rightarrow> client \<Rightarrow> string \<Rightarrow> string \<Rightarrow> nat \<Rightarrow> nat \<Rightarrow> string \<Rightarrow>
    'e abort \<Rightarrow> nat \<Rightarrow> string list \<Rightarrow> ('e world, s3_error + string list) state" where
  "put_parts_from dp cl key d fsize part_size up abort offset etags =
    (if offset < fsize then guard_abort abort
       (if MAX_PARTS \<le> length etags then ret (Inl TooManyParts)
        else let this = min (fsize - offset) part_size; chunk = take this (drop offset d) in do {
          f \<leftarrow> next_fault;
          if f \<noteq> Fine \<or> length chunk < this then ret (Inl CannotRead)
          else do {
            r \<leftarrow> put_part dp cl key up (length etags + 1) chunk;
            case r of Inl e \<Rightarrow> ret (Inl e)
            | Inr t \<Rightarrow> put_parts_from dp cl key d fsize part_size up abort (offset + this) (etags @ [t]) } })
     else ret (Inr etags))"
  by pat_completeness auto
termination
  by (relation "measure (\<lambda>(_, _, _, _, _, _, _, _, _, etags). MAX_PARTS - length etags)") auto

declare put_parts_from.simps [simp del]

definition put_parts :: "'e deps \<Rightarrow> client \<Rightarrow> string \<Rightarrow> string \<Rightarrow> nat \<Rightarrow> nat \<Rightarrow> string \<Rightarrow>
    'e abort \<Rightarrow> ('e world, s3_error + string list) state" where
  "put_parts dp cl key path fsize part_size up abort = do {
     f \<leftarrow> fs_read path;
     case f of Inl _ \<Rightarrow> ret (Inl CannotOpen)
     | Inr d \<Rightarrow> put_parts_from dp cl key d fsize part_size up abort 0 [] }"

definition create_upload :: "'e deps \<Rightarrow> client \<Rightarrow> string \<Rightarrow> ('e world, s3_error + string) state" where
  "create_upload dp cl key = do {
     r \<leftarrow> send_checked dp cl CreateMultipart key [];
     ret (case r of Inl e \<Rightarrow> Inl e
       | Inr rp \<Rightarrow> (case read_text MULTIPART_XML_CAP rp of Inl e \<Rightarrow> Inl e
         | Inr body \<Rightarrow> (case d_parse_create dp body of None \<Rightarrow> Inl Unparseable | Some up \<Rightarrow> Inr up))) }"

text \<open>A complete request that fails outright returns at once (\<open>?\<close>); only a checked status aborts.\<close>

definition complete_upload :: "'e deps \<Rightarrow> client \<Rightarrow> string \<Rightarrow> string \<Rightarrow> string list \<Rightarrow>
    ('e world, s3_error + unit) state" where
  "complete_upload dp cl key up etags = do {
     r \<leftarrow> retrying dp (send dp cl (CompleteMultipart up etags) key []);
     case r of Inl e \<Rightarrow> ret (Inl (Http e))
     | Inr rp \<Rightarrow> (case checked rp of
         Inl e \<Rightarrow> do { abort_upload dp cl key up; ret (Inl e) }
       | Inr _ \<Rightarrow> ret (Inr ())) }"

definition put_multipart :: "'e deps \<Rightarrow> client \<Rightarrow> string \<Rightarrow> string \<Rightarrow> nat \<Rightarrow> nat \<Rightarrow> 'e abort \<Rightarrow>
    ('e world, s3_error + unit) state" where
  "put_multipart dp cl key path fsize part_size abort = guard_abort abort (do {
     c \<leftarrow> create_upload dp cl key;
     case c of Inl e \<Rightarrow> ret (Inl e)
     | Inr up \<Rightarrow> do {
         ps \<leftarrow> put_parts dp cl key path fsize part_size up abort;
         case ps of
           Inl e \<Rightarrow> do { abort_upload dp cl key up; ret (Inl e) }
         | Inr etags \<Rightarrow> complete_upload dp cl key up etags } })"

text \<open>The request of a single-shot upload reopens the file at every attempt.\<close>

definition put_request :: "'e deps \<Rightarrow> client \<Rightarrow> string \<Rightarrow> string \<Rightarrow>
    ('e world, ureq_error + response) state" where
  "put_request dp cl key path = do {
     f \<leftarrow> fs_read path;
     case f of Inl _ \<Rightarrow> ret (Inl Io) | Inr d \<Rightarrow> send dp cl PutObject key d }"

definition s3_put :: "'e deps \<Rightarrow> client \<Rightarrow> string \<Rightarrow> string \<Rightarrow> 'e abort \<Rightarrow>
    ('e world, s3_error + unit) state" where
  "s3_put dp cl key path abort = guard_abort abort (do {
     l \<leftarrow> fs_len path;
     case l of Inl _ \<Rightarrow> ret (Inl CannotSize)
     | Inr fsize \<Rightarrow>
         if MULTIPART_THRESHOLD \<le> fsize then put_multipart dp cl key path fsize PART_SIZE abort
         else do {
           r \<leftarrow> retrying dp (put_request dp cl key path);
           ret (no_body (answer r)) } })"

definition s3_put_bytes :: "'e deps \<Rightarrow> client \<Rightarrow> string \<Rightarrow> string \<Rightarrow> 'e abort \<Rightarrow>
    ('e world, s3_error + unit) state" where
  "s3_put_bytes dp cl key bytes abort = guard_abort abort (do {
     r \<leftarrow> send_checked dp cl PutObject key bytes;
     ret (no_body r) })"

definition s3_delete :: "'e deps \<Rightarrow> client \<Rightarrow> string \<Rightarrow> 'e abort \<Rightarrow> ('e world, s3_error + unit) state" where
  "s3_delete dp cl key abort = guard_abort abort (do {
     r \<leftarrow> send_checked dp cl DeleteObject key [];
     ret (no_body r) })"

subsection \<open>Small objects and listings\<close>

definition optional_text :: "nat \<Rightarrow> ureq_error + response \<Rightarrow> s3_error + string option" where
  "optional_text max_bytes r = (case r of
     Inl (StatusCode c) \<Rightarrow> if c = 404 then Inr None else Inl (Http (StatusCode c))
   | Inl e \<Rightarrow> Inl (Http e)
   | Inr rp \<Rightarrow> (case checked rp of Inl e \<Rightarrow> Inl e
     | Inr rp \<Rightarrow> (case read_text (max_bytes + 1) rp of Inl e \<Rightarrow> Inl e
       | Inr t \<Rightarrow> if max_bytes < length t then Inl OverCap else Inr (Some t))))"

definition get_optional_text :: "'e deps \<Rightarrow> client \<Rightarrow> string \<Rightarrow> nat \<Rightarrow> 'e abort \<Rightarrow>
    ('e world, s3_error + string option) state" where
  "get_optional_text dp cl key max_bytes abort = guard_abort abort (do {
     r \<leftarrow> retrying dp (send dp cl (GetObject None) key []);
     ret (optional_text max_bytes r) })"

fun page_items :: "raw_item list \<Rightarrow> s3_error + listed list" where
  "page_items [] = Inr []"
| "page_items (c # cs) = (case ri_size c of None \<Rightarrow> Inl NoSize
     | Some n \<Rightarrow> (case page_items cs of Inl e \<Rightarrow> Inl e
       | Inr ls \<Rightarrow> Inr (\<lparr>li_key = ri_key c, li_size = n,
           li_modified = (case ri_modified c of None \<Rightarrow> [] | Some m \<Rightarrow> m)\<rparr> # ls)))"

definition list_page :: "'e deps \<Rightarrow> client \<Rightarrow> string \<Rightarrow> string option \<Rightarrow>
    ('e world, s3_error + listed list \<times> string option) state" where
  "list_page dp cl pre token = do {
     r \<leftarrow> send_checked dp cl (ListObjects token) pre [];
     ret (case r of Inl e \<Rightarrow> Inl e
       | Inr rp \<Rightarrow> (case read_text LIST_BODY_CAP rp of Inl e \<Rightarrow> Inl e
         | Inr body \<Rightarrow> (case d_parse_list dp body of None \<Rightarrow> Inl Unparseable
           | Some (items, next) \<Rightarrow> (case page_items items of Inl e \<Rightarrow> Inl e
             | Inr ls \<Rightarrow> Inr (ls, next))))) }"

fun list_from :: "'e deps \<Rightarrow> client \<Rightarrow> string \<Rightarrow> 'e abort \<Rightarrow> nat \<Rightarrow> string option \<Rightarrow> listed list \<Rightarrow>
    ('e world, s3_error + listed list) state" where
  "list_from dp cl pre abort 0 token names = guard_abort abort (ret (Inl TooManyPages))"
| "list_from dp cl pre abort (Suc pages) token names = guard_abort abort (do {
     r \<leftarrow> list_page dp cl pre token;
     case r of Inl e \<Rightarrow> ret (Inl e)
     | Inr (ls, next) \<Rightarrow>
         if MAX_LIST_KEYS < length (names @ ls) then ret (Inl TooManyKeys)
         else case next of None \<Rightarrow> ret (Inr (sort_key li_key (names @ ls)))
         | Some t \<Rightarrow> if token = Some t then ret (Inl RepeatedToken)
             else list_from dp cl pre abort pages (Some t) (names @ ls) })"

definition s3_list :: "'e deps \<Rightarrow> client \<Rightarrow> string \<Rightarrow> 'e abort \<Rightarrow>
    ('e world, s3_error + listed list) state" where
  "s3_list dp cl pre abort = list_from dp cl pre abort MAX_LIST_PAGES None []"

end
