(* ===== verification/S3Get.thy ===== *)
theory S3Get
  imports S3Client
begin

text \<open>
  \<open>Client::get\<close> of \<open>s3/client.rs\<close>: the download into a sibling temp file, resumed over at
  most three attempts, and its publication by rename; the operations a client offers as one
  record (\<open>store\<close>); and what a finished or failed download leaves on disk.
\<close>

subsection \<open>The temp file\<close>

text \<open>\<open>OpenOptions\<close> of the temp: created 0600, truncated or appended to; a torn append leaves a prefix.\<close>

definition opened :: "string \<Rightarrow> bool \<Rightarrow> 'e world \<Rightarrow> 'e world" where
  "opened p trunc w = put_file p (case file_at w p of
       None \<Rightarrow> \<lparr>f_data = [], f_private = True, f_mtime = w_now w, f_ctime = w_now w\<rparr>
     | Some x \<Rightarrow> if trunc then x\<lparr>f_data := [], f_mtime := w_now w, f_ctime := w_now w\<rparr> else x) w"

definition appended :: "string \<Rightarrow> string \<Rightarrow> 'e world \<Rightarrow> 'e world" where
  "appended p d w = (case file_at w p of None \<Rightarrow> w
     | Some x \<Rightarrow> put_file p (x\<lparr>f_data := f_data x @ d, f_mtime := w_now w, f_ctime := w_now w\<rparr>) w)"

definition open_temp :: "string \<Rightarrow> bool \<Rightarrow> ('e world, io_error + unit) state" where
  "open_temp p trunc = do {
     f \<leftarrow> next_fault;
     if f \<noteq> Fine then ret (Inl OtherIo) else do { modify (opened p trunc); ret (Inr ()) } }"

definition write_all :: "string \<Rightarrow> string \<Rightarrow> ('e world, io_error + unit) state" where
  "write_all p d = do {
     f \<leftarrow> next_fault;
     case f of
       Fine \<Rightarrow> do { modify (appended p d); ret (Inr ()) }
     | Fail \<Rightarrow> ret (Inl OtherIo)
     | Torn n \<Rightarrow> do { modify (appended p (take n d)); ret (Inl OtherIo) } }"

subsection \<open>One attempt\<close>

definition resumed_offset :: "string \<Rightarrow> nat option \<Rightarrow> ('e world, nat) state" where
  "resumed_offset tmp expected = do {
     l \<leftarrow> fs_len tmp;
     ret (let n = (case l of Inl _ \<Rightarrow> 0 | Inr n \<Rightarrow> n) in
       case expected of None \<Rightarrow> n | Some k \<Rightarrow> if k \<le> n then 0 else n) }"

text \<open>The checks on the running total before a chunk is written.\<close>

definition over :: "expect \<Rightarrow> nat \<Rightarrow> s3_error option" where
  "over ex got = (if ex_max ex < got then Some OverCap
     else case ex_size ex of None \<Rightarrow> None | Some k \<Rightarrow> if k < got then Some LargerThanListed else None)"

fun stream_body :: "string \<Rightarrow> expect \<Rightarrow> 'e abort \<Rightarrow> nat \<Rightarrow> (unit + string) list \<Rightarrow>
    ('e world, s3_error + nat) state" where
  "stream_body tmp ex abort got [] = guard_abort abort (ret (Inr got))"
| "stream_body tmp ex abort got (Inl u # cs) = guard_abort abort (ret (Inl ReadFailed))"
| "stream_body tmp ex abort got (Inr b # cs) = guard_abort abort
     (if b = [] then ret (Inr got)
      else case over ex (got + length b) of Some e \<Rightarrow> ret (Inl e)
      | None \<Rightarrow> do {
          r \<leftarrow> write_all tmp b;
          case r of Inl _ \<Rightarrow> ret (Inl WriteFailed)
          | Inr _ \<Rightarrow> stream_body tmp ex abort (got + length b) cs })"

definition declared_length :: "response \<Rightarrow> nat option" where
  "declared_length rp = (case rp_length rp of None \<Rightarrow> None | Some v \<Rightarrow> map_option unat (parse_u64 v))"

definition finish_stream :: "nat option \<Rightarrow> nat \<Rightarrow> nat \<Rightarrow> ('e world, s3_error + nat) state" where
  "finish_stream declared start got =
     (if declared \<noteq> None \<and> declared \<noteq> Some (got - start) then ret (Inl ShortBody)
      else do {
        r \<leftarrow> fs_dir_op;  \<comment> \<open>\<open>sync_all\<close>\<close>
        ret (case r of Inl _ \<Rightarrow> Inl WriteFailed | Inr _ \<Rightarrow> Inr got) })"

definition receive :: "string \<Rightarrow> expect \<Rightarrow> 'e abort \<Rightarrow> nat \<Rightarrow> response \<Rightarrow>
    ('e world, s3_error + nat) state" where
  "receive tmp ex abort start rp = do {
     opn \<leftarrow> open_temp tmp (start = 0);
     case opn of Inl _ \<Rightarrow> ret (Inl WriteFailed)
     | Inr _ \<Rightarrow> do {
         s \<leftarrow> stream_body tmp ex abort start (rp_body rp);
         case s of Inl e \<Rightarrow> ret (Inl e)
         | Inr got \<Rightarrow> finish_stream (declared_length rp) start got } }"

datatype attempt = Done "s3_error + nat" | Again nat

text \<open>
  The decision after a failed transfer: another attempt from the bytes on disk, or the failure.
  \<open>final\<close> is \<open>attempt = MAX_DOWNLOAD_ATTEMPTS\<close>. \<open>&&\<close> is short-circuit, so \<open>abort\<close> is only
  asked when an attempt is left.
\<close>

definition after_failure :: "string \<Rightarrow> expect \<Rightarrow> 'e abort \<Rightarrow> bool \<Rightarrow> s3_error \<Rightarrow>
    ('e world, attempt) state" where
  "after_failure tmp ex abort final e = do {
     l \<leftarrow> fs_len tmp;
     if final then ret (Done (Inl e)) else do {
       stop \<leftarrow> env_op abort;
       let on_disk = (case l of Inl _ \<Rightarrow> 0 | Inr n \<Rightarrow> n) in
         ret (if stop \<or> (case ex_size ex of None \<Rightarrow> unat (- 1 :: u64) \<le> on_disk | Some k \<Rightarrow> k \<le> on_disk)
           then Done (Inl e) else Again on_disk) } }"

definition attempt_once :: "'e deps \<Rightarrow> client \<Rightarrow> string \<Rightarrow> string \<Rightarrow> expect \<Rightarrow> 'e abort \<Rightarrow> bool \<Rightarrow> nat \<Rightarrow>
    ('e world, attempt) state" where
  "attempt_once dp cl key tmp ex abort final offset = do {
     stop \<leftarrow> env_op abort;
     if stop then ret (Done (Inl Aborted)) else do {
       r \<leftarrow> send dp cl (GetObject (if 0 < offset then Some offset else None)) key [];
       case r of
         Inl e \<Rightarrow> ret (if retryable e \<and> \<not> final then Again offset else Done (Inl (Http e)))
       | Inr rp \<Rightarrow> (case checked rp of
           Inl e \<Rightarrow> ret (Done (Inl e))
         | Inr rp \<Rightarrow> do {
             s \<leftarrow> receive tmp ex abort (if 0 < offset \<and> rp_status rp \<noteq> 206 then 0 else offset) rp;
             case s of Inr got \<Rightarrow> ret (Done (Inr got))
             | Inl e \<Rightarrow> after_failure tmp ex abort final e }) } }"

text \<open>\<open>n\<close> attempts may still follow this one.\<close>

fun attempts :: "'e deps \<Rightarrow> client \<Rightarrow> string \<Rightarrow> string \<Rightarrow> expect \<Rightarrow> 'e abort \<Rightarrow> nat \<Rightarrow> nat \<Rightarrow>
    ('e world, s3_error + nat) state" where
  "attempts dp cl key tmp ex abort 0 offset = do {
     a \<leftarrow> attempt_once dp cl key tmp ex abort True offset;
     case a of Done r \<Rightarrow> ret r | Again _ \<Rightarrow> ret (Inl ReadFailed) }"
| "attempts dp cl key tmp ex abort (Suc n) offset = do {
     a \<leftarrow> attempt_once dp cl key tmp ex abort False offset;
     case a of Done r \<Rightarrow> ret r | Again k \<Rightarrow> attempts dp cl key tmp ex abort n k }"

subsection \<open>Publication\<close>

definition check_sha :: "'e deps \<Rightarrow> string \<Rightarrow> expect \<Rightarrow> ('e world, s3_error + unit) state" where
  "check_sha dp tmp ex = (case ex_sha256 ex of None \<Rightarrow> ret (Inr ())
     | Some want \<Rightarrow> do {
         h \<leftarrow> sha256_file dp tmp;
         ret (case h of Inl _ \<Rightarrow> Inl CannotHash
           | Inr got \<Rightarrow> if got = want then Inr () else Inl ShaMismatch) })"

definition publish :: "'e deps \<Rightarrow> string \<Rightarrow> string \<Rightarrow> expect \<Rightarrow> nat \<Rightarrow> ('e world, s3_error + unit) state" where
  "publish dp tmp path ex got =
     (if ex_size ex \<noteq> None \<and> ex_size ex \<noteq> Some got then ret (Inl SizeMismatch)
      else do {
        c \<leftarrow> check_sha dp tmp ex;
        case c of Inl e \<Rightarrow> ret (Inl e)
        | Inr _ \<Rightarrow> do {
            r \<leftarrow> fs_rename tmp path;
            ret (case r of Inl _ \<Rightarrow> Inl CannotPublish | Inr _ \<Rightarrow> Inr ()) } })"

definition part_of :: "string \<Rightarrow> string" where "part_of path = path @ ''.part''"

definition staged_publish :: "'e deps \<Rightarrow> string \<Rightarrow> string \<Rightarrow> expect \<Rightarrow> s3_error + nat \<Rightarrow>
    ('e world, s3_error + unit) state" where
  "staged_publish dp tmp path ex staged =
     (case staged of Inl e \<Rightarrow> ret (Inl e) | Inr got \<Rightarrow> publish dp tmp path ex got)"

definition cleanup :: "string \<Rightarrow> s3_error + unit \<Rightarrow> ('e world, s3_error + unit) state" where
  "cleanup tmp result = (case result of Inr _ \<Rightarrow> ret result
     | Inl e \<Rightarrow> do { fs_remove tmp; ret result })"

definition s3_get :: "'e deps \<Rightarrow> client \<Rightarrow> string \<Rightarrow> string \<Rightarrow> expect \<Rightarrow> 'e abort \<Rightarrow>
    ('e world, s3_error + unit) state" where
  "s3_get dp cl key path ex abort = guard_abort abort (do {
     offset \<leftarrow> resumed_offset (part_of path) (ex_size ex);
     staged \<leftarrow> attempts dp cl key (part_of path) ex abort (MAX_DOWNLOAD_ATTEMPTS - 1) offset;
     result \<leftarrow> staged_publish dp (part_of path) path ex staged;
     cleanup (part_of path) result })"

subsection \<open>The client as a record of operations\<close>

record 'e store =
  st_put :: "string \<Rightarrow> string \<Rightarrow> 'e abort \<Rightarrow> ('e world, s3_error + unit) state"
  st_put_bytes :: "string \<Rightarrow> string \<Rightarrow> 'e abort \<Rightarrow> ('e world, s3_error + unit) state"
  st_get :: "string \<Rightarrow> string \<Rightarrow> expect \<Rightarrow> 'e abort \<Rightarrow> ('e world, s3_error + unit) state"
  st_get_text :: "string \<Rightarrow> nat \<Rightarrow> 'e abort \<Rightarrow> ('e world, s3_error + string option) state"
  st_list :: "string \<Rightarrow> 'e abort \<Rightarrow> ('e world, s3_error + listed list) state"
  st_delete :: "string \<Rightarrow> 'e abort \<Rightarrow> ('e world, s3_error + unit) state"

definition client_store :: "'e deps \<Rightarrow> client \<Rightarrow> 'e store" where
  "client_store dp cl = \<lparr>st_put = s3_put dp cl, st_put_bytes = s3_put_bytes dp cl,
     st_get = s3_get dp cl, st_get_text = get_optional_text dp cl, st_list = s3_list dp cl,
     st_delete = s3_delete dp cl\<rparr>"

lemma client_store_simps [simp]:
  "st_put (client_store dp cl) = s3_put dp cl" "st_put_bytes (client_store dp cl) = s3_put_bytes dp cl"
  "st_get (client_store dp cl) = s3_get dp cl" "st_get_text (client_store dp cl) = get_optional_text dp cl"
  "st_list (client_store dp cl) = s3_list dp cl" "st_delete (client_store dp cl) = s3_delete dp cl"
  by (simp_all add: client_store_def)

subsection \<open>What a download leaves on disk\<close>

abbreviation on_file :: "string \<Rightarrow> (inode option \<Rightarrow> bool) \<Rightarrow> 'e world \<Rightarrow> bool" where
  "on_file q P w \<equiv> P (file_at w q)"

lemma preserves_guard_abort [intro]:
  "preserves I (env_op abort) \<Longrightarrow> preserves I m \<Longrightarrow> preserves I (guard_abort abort m)"
  unfolding guard_abort_def by (intro preserves_rules)

lemma preserves_attempt [intro]:
  "(\<And>r. x = Done r \<Longrightarrow> preserves I (f r)) \<Longrightarrow> (\<And>k. x = Again k \<Longrightarrow> preserves I (g k)) \<Longrightarrow>
    preserves I (case x of Done r \<Rightarrow> f r | Again k \<Rightarrow> g k)"
  by (cases x) auto

lemma send_fs [keeps]: "preserves (on_fs P) (send dp cl act key body)"
  unfolding send_def by (rule env_op_preserves_fs)

lemma opened_other: "q \<noteq> p \<Longrightarrow> file_at (opened p t w) q = file_at w q"
  by (simp add: opened_def)

lemma appended_other: "q \<noteq> p \<Longrightarrow> file_at (appended p d w) q = file_at w q"
  by (simp add: appended_def split: option.split)

lemma local_op_open_temp [intro]: "p \<in> ps \<Longrightarrow> local_op ps (open_temp p t)"
  unfolding open_temp_def
  by (intro local_op_bind local_op_if local_op_next_fault local_op_return local_op_modify)
    (auto simp: opened_def split: option.split)

lemma local_op_write_all [intro]: "p \<in> ps \<Longrightarrow> local_op ps (write_all p d)"
  unfolding write_all_def
  by (intro local_op_bind local_op_next_fault)
    (auto simp: appended_def intro!: local_op_bind local_op_modify split: fault.split option.split)

lemmas temp_frame = local_op_open_temp [THEN local_preserves_file]
  local_op_write_all [THEN local_preserves_file] local_op_len [THEN local_preserves_file]
  local_op_dir_op [THEN local_preserves_file] local_op_read [THEN local_preserves_file]

lemma stream_body_other: "q \<noteq> tmp \<Longrightarrow> preserves (on_file q P) (stream_body tmp ex abort got cs)"
  by (induction tmp ex abort got cs rule: stream_body.induct)
    (simp_all only: stream_body.simps, (intro preserves_guard_abort preserves_rules
      env_op_preserves_fs temp_frame [where ps = "{_}"]; (assumption | simp))+)

lemma receive_other: "q \<noteq> tmp \<Longrightarrow> preserves (on_file q P) (receive tmp ex abort start rp)"
  unfolding receive_def finish_stream_def
  by (intro preserves_rules stream_body_other temp_frame [where ps = "{tmp}"]) auto

lemma after_failure_other: "preserves (on_file q P) (after_failure tmp ex abort final e)"
  unfolding after_failure_def Let_def
  by (intro preserves_rules env_op_preserves_fs temp_frame [where ps = "{}"]) auto

lemma attempt_once_other:
  "q \<noteq> tmp \<Longrightarrow> preserves (on_file q P) (attempt_once dp cl key tmp ex abort final offset)"
  unfolding attempt_once_def
  by (intro preserves_rules env_op_preserves_fs send_fs receive_other after_failure_other)

lemma attempts_other:
  assumes "q \<noteq> tmp"
  shows "preserves (on_file q P) (attempts dp cl key tmp ex abort n offset)"
proof (induction n arbitrary: offset)
  case 0
  show ?case
    unfolding attempts.simps by (intro preserves_rules preserves_attempt attempt_once_other assms)
next
  case (Suc n)
  show ?case
    unfolding attempts.simps
    by (intro preserves_rules preserves_attempt attempt_once_other assms Suc)
qed

text \<open>The temp is private from its creation on.\<close>

definition private_file :: "inode option \<Rightarrow> bool" where
  "private_file x \<longleftrightarrow> (case x of None \<Rightarrow> True | Some i \<Rightarrow> f_private i)"

definition has_len :: "nat \<Rightarrow> inode option \<Rightarrow> bool" where
  "has_len n x \<longleftrightarrow> (\<exists>i. x = Some i \<and> length (f_data i) = n)"

definition resumable :: "nat \<Rightarrow> inode option \<Rightarrow> bool" where
  "resumable n x \<longleftrightarrow> n = 0 \<or> has_len n x"


lemma hoare_guard_abort:
  "preserves P (env_op abort) \<Longrightarrow> hoare P m (on_ok Q) \<Longrightarrow> hoare P (guard_abort abort m) (on_ok Q)"
  unfolding guard_abort_def by (rule hoare_keep) (auto intro!: hoare_if hoare_return)

lemma hoare_error: "hoare P (ret (Inl e)) (on_ok Q)"
  by (rule hoare_return) simp

lemma open_temp_len: "hoare (\<lambda>w. resumable start (file_at w tmp)) (open_temp tmp (start = 0))
    (on_ok (\<lambda>_ w. has_len start (file_at w tmp)))"
  by (rule hoareI) (auto simp: open_temp_def opened_def resumable_def has_len_def
    dest!: run_next_fault split: prod.splits if_splits option.splits)

lemma write_all_len: "hoare (\<lambda>w. has_len got (file_at w tmp)) (write_all tmp b)
    (on_ok (\<lambda>_ w. has_len (got + length b) (file_at w tmp)))"
  by (rule hoareI) (auto simp: write_all_def appended_def has_len_def
    dest!: run_next_fault split: prod.splits fault.splits option.splits)

lemma stream_body_len: "hoare (\<lambda>w. has_len got (file_at w tmp)) (stream_body tmp ex abort got cs)
    (on_ok (\<lambda>n w. has_len n (file_at w tmp)))"
proof (induction tmp ex abort got cs rule: stream_body.induct)
  case (3 tmp ex abort got b cs)
  show ?case
  proof (cases "b = [] \<or> over ex (got + length b) \<noteq> None")
    case True
    then show ?thesis
      by (auto intro!: hoare_guard_abort env_op_preserves_fs hoare_return split: option.split)
  next
    case False
    then have *: "b \<noteq> []" "over ex (got + length b) = None" by auto
    show ?thesis
      unfolding stream_body.simps *(2) option.case if_not_P [OF *(1)]
      by (intro hoare_guard_abort env_op_preserves_fs hoare_try [OF write_all_len] hoare_error 3 *)
  qed
qed (auto intro!: hoare_guard_abort env_op_preserves_fs hoare_return)

lemma receive_len: "hoare (\<lambda>w. resumable start (file_at w tmp)) (receive tmp ex abort start rp)
    (on_ok (\<lambda>n w. has_len n (file_at w tmp)))"
proof -
  have fin: "hoare (\<lambda>w. has_len n (file_at w tmp)) (finish_stream d start n)
      (on_ok (\<lambda>n w. has_len n (file_at w tmp)))" for d n
    unfolding finish_stream_def
    by (intro hoare_if hoare_error hoare_keep temp_frame(4) [where ps = "{}"])
      (auto intro: hoare_return split: sum.split)
  show ?thesis
    unfolding receive_def
    by (intro hoare_try [OF open_temp_len] hoare_try [OF stream_body_len] hoare_error fin)
qed

text \<open>An attempt ends with the whole object in the temp, or with an offset the temp really reaches.\<close>

definition attempt_ok :: "string \<Rightarrow> attempt \<Rightarrow> 'e world \<Rightarrow> bool" where
  "attempt_ok tmp a w \<longleftrightarrow> (case a of
     Done (Inl _) \<Rightarrow> True | Done (Inr n) \<Rightarrow> has_len n (file_at w tmp)
   | Again k \<Rightarrow> resumable k (file_at w tmp))"

lemma attempt_ok_simps [simp]:
  "attempt_ok tmp (Done (Inl e)) w" "attempt_ok tmp (Done (Inr n)) w = has_len n (file_at w tmp)"
  "attempt_ok tmp (Again k) w = resumable k (file_at w tmp)"
  by (simp_all add: attempt_ok_def)

lemma fs_len_resumable: "hoare (\<lambda>_. True) (fs_len tmp)
    (\<lambda>l w. resumable (case l of Inl _ \<Rightarrow> 0 | Inr n \<Rightarrow> n) (file_at w tmp))"
  by (rule hoareI) (auto simp: fs_len_def fs_read_def resumable_def has_len_def
    dest!: run_next_fault split: prod.splits if_splits option.splits)

lemma resumable_0 [simp]: "resumable 0 x"
  by (simp add: resumable_def)

lemma resumed_offset_resumable: "hoare (\<lambda>_. True) (resumed_offset tmp k)
    (\<lambda>n w. resumable n (file_at w tmp))"
  unfolding resumed_offset_def
  by (rule hoare_bind [OF fs_len_resumable]) (auto intro!: hoare_return simp: Let_def split: option.split)

lemma after_failure_ok: "hoare (\<lambda>_. True) (after_failure tmp ex abort final e) (attempt_ok tmp)"
  unfolding after_failure_def
  by (intro hoare_bind [OF fs_len_resumable] hoare_if hoare_keep env_op_preserves_fs)
    (auto intro!: hoare_return simp: Let_def)

lemma attempt_once_ok: "hoare (\<lambda>w. resumable offset (file_at w tmp))
    (attempt_once dp cl key tmp ex abort final offset) (attempt_ok tmp)"
proof -
  have rec: "hoare (\<lambda>w. resumable offset (file_at w tmp))
      (do { s \<leftarrow> receive tmp ex abort (if b then 0 else offset) rp;
         case s of Inr got \<Rightarrow> ret (Done (Inr got)) | Inl e \<Rightarrow> after_failure tmp ex abort final e })
      (attempt_ok tmp)" for b rp
    by (rule hoare_pre, rule hoare_try [OF receive_len])
      (auto intro!: hoare_return hoare_pre [OF after_failure_ok])
  show ?thesis
    unfolding attempt_once_def
    by (intro hoare_keep hoare_if hoare_sum env_op_preserves_fs send_fs rec) (auto intro!: hoare_return)
qed

lemma hoare_attempt:
  "hoare P m (attempt_ok tmp) \<Longrightarrow> (\<And>k. hoare (\<lambda>w. resumable k (file_at w tmp)) (g k)
      (on_ok (\<lambda>n w. has_len n (file_at w tmp)))) \<Longrightarrow>
    hoare P (State_Monad.bind m (\<lambda>a. case a of Done r \<Rightarrow> ret r | Again k \<Rightarrow> g k))
      (on_ok (\<lambda>n w. has_len n (file_at w tmp)))"
  by (rule hoare_bind, assumption)
    (auto intro: hoare_return simp: on_ok_def hoare_def split: attempt.split sum.split)

lemma attempts_ok: "hoare (\<lambda>w. resumable offset (file_at w tmp))
    (attempts dp cl key tmp ex abort n offset) (on_ok (\<lambda>n w. has_len n (file_at w tmp)))"
proof (induction n arbitrary: offset)
  case 0
  show ?case
    unfolding attempts.simps by (intro hoare_attempt attempt_once_ok hoare_error)
next
  case (Suc n)
  show ?case
    unfolding attempts.simps by (intro hoare_attempt attempt_once_ok Suc)
qed

text \<open>What a file must be to be published under \<open>ex\<close>.\<close>

definition meets :: "'e deps \<Rightarrow> expect \<Rightarrow> inode option \<Rightarrow> bool" where
  "meets dp ex x \<longleftrightarrow> (\<exists>i. x = Some i \<and> (\<forall>n. ex_size ex = Some n \<longrightarrow> length (f_data i) = n) \<and>
     (\<forall>h. ex_sha256 ex = Some h \<longrightarrow> sha256_hex dp (f_data i) = h))"

definition meets_size :: "expect \<Rightarrow> inode option \<Rightarrow> bool" where
  "meets_size ex x \<longleftrightarrow> (\<exists>i. x = Some i \<and> (\<forall>n. ex_size ex = Some n \<longrightarrow> length (f_data i) = n))"

lemma check_sha_ok: "hoare (\<lambda>w. meets_size ex (file_at w tmp)) (check_sha dp tmp ex)
    (on_ok (\<lambda>_ w. meets dp ex (file_at w tmp)))"
  by (rule hoareI) (auto simp: check_sha_def sha256_file_def fs_read_def meets_def meets_size_def
    dest!: run_next_fault split: prod.splits if_splits option.splits)

lemma rename_ok: "hoare (\<lambda>w. P (file_at w a)) (fs_rename a b) (on_ok (\<lambda>_ w. P (file_at w b)))"
  by (rule hoareI) (auto simp: fs_rename_def bt_get_insert dest!: run_next_fault
    split: prod.splits if_splits option.splits)

lemma publish_ok: "hoare (\<lambda>w. has_len got (file_at w tmp)) (publish dp tmp path ex got)
    (on_ok (\<lambda>_ w. meets dp ex (file_at w path)))"
proof -
  have r: "hoare (\<lambda>w. meets dp ex (file_at w tmp))
      (do { r \<leftarrow> fs_rename tmp path; ret (case r of Inl _ \<Rightarrow> Inl CannotPublish | Inr _ \<Rightarrow> Inr ()) })
      (on_ok (\<lambda>_ w. meets dp ex (file_at w path)))"
    by (rule hoare_bind [OF rename_ok]) (auto intro!: hoare_return simp: on_ok_def split: sum.split)
  have "hoare (\<lambda>w. has_len got (file_at w tmp)) (check_sha dp tmp ex)
      (on_ok (\<lambda>_ w. meets dp ex (file_at w tmp)))" if "ex_size ex = None \<or> ex_size ex = Some got"
    by (rule hoare_pre [OF check_sha_ok]) (use that in \<open>auto simp: meets_size_def has_len_def\<close>)
  then show ?thesis
    unfolding publish_def by (intro hoare_if hoare_error hoare_try [OF _ _ r]) auto
qed

text \<open>The temp stays private.\<close>

abbreviation tmp_private :: "string \<Rightarrow> 'e world \<Rightarrow> bool" where
  "tmp_private tmp w \<equiv> private_file (file_at w tmp)"

lemma open_temp_private: "preserves (tmp_private tmp) (open_temp tmp t)"
  unfolding open_temp_def
  by (intro preserves_rules preserves_modify local_preserves_file [OF local_op_next_fault [of "{}"]])
    (auto simp: opened_def private_file_def split: option.splits)

lemma write_all_private: "preserves (tmp_private tmp) (write_all tmp d)"
  by (rule preservesI) (auto simp: write_all_def appended_def private_file_def
    dest!: run_next_fault split: prod.splits fault.splits option.splits)

lemma stream_body_private: "preserves (tmp_private tmp) (stream_body tmp ex abort got cs)"
proof (induction tmp ex abort got cs rule: stream_body.induct)
  case (3 tmp ex abort got b cs)
  then show ?case
    unfolding stream_body.simps
    by (intro preserves_guard_abort preserves_rules env_op_preserves_fs write_all_private) auto
qed (auto intro!: preserves_guard_abort env_op_preserves_fs)

lemma receive_private: "preserves (tmp_private tmp) (receive tmp ex abort start rp)"
  unfolding receive_def finish_stream_def
  by (intro preserves_rules stream_body_private open_temp_private temp_frame(4) [where ps = "{}"]) auto

lemma attempt_once_private:
  "preserves (tmp_private tmp) (attempt_once dp cl key tmp ex abort final offset)"
  unfolding attempt_once_def
  by (intro preserves_rules env_op_preserves_fs send_fs receive_private after_failure_other)

lemma attempts_private: "preserves (tmp_private tmp) (attempts dp cl key tmp ex abort n offset)"
proof (induction n arbitrary: offset)
  case 0
  show ?case
    unfolding attempts.simps by (intro preserves_rules preserves_attempt attempt_once_private)
next
  case (Suc n)
  show ?case
    unfolding attempts.simps by (intro preserves_rules preserves_attempt attempt_once_private Suc)
qed

lemma check_sha_frame: "preserves (on_file q P) (check_sha dp tmp ex)"
  unfolding check_sha_def sha256_file_def
  by (intro preserves_rules temp_frame(5) [where ps = "{}"]) auto

lemma publish_private: "hoare (tmp_private tmp) (publish dp tmp path ex got)
    (on_ok (\<lambda>_. on_file path private_file))"
  unfolding publish_def
  by (intro hoare_if hoare_error hoare_keep check_sha_frame hoare_sum hoare_bind [OF rename_ok])
    (auto intro!: hoare_return simp: on_ok_def split: sum.split)

text \<open>A failed publication leaves the target alone.\<close>

definition on_err :: "('s \<Rightarrow> bool) \<Rightarrow> 'x + 'a \<Rightarrow> 's \<Rightarrow> bool" where
  "on_err Q r s \<longleftrightarrow> (case r of Inl _ \<Rightarrow> Q s | Inr _ \<Rightarrow> True)"

lemma on_err_simps [simp]: "on_err Q (Inl e) s = Q s" "on_err Q (Inr a) s"
  by (simp_all add: on_err_def)

lemma rename_err: "hoare (on_file q P) (fs_rename a b) (on_err (on_file q P))"
  by (rule hoareI) (auto simp: fs_rename_def dest!: run_next_fault
    split: prod.splits if_splits option.splits)

lemma publish_err: "hoare (on_file q P) (publish dp tmp path ex got) (on_err (on_file q P))"
  unfolding publish_def
  by (intro hoare_if hoare_keep check_sha_frame hoare_sum hoare_bind [OF rename_err])
    (auto intro!: hoare_return simp: on_err_def split: sum.split)

lemma path_not_part: "path \<noteq> part_of path"
  by (simp add: part_of_def)

text \<open>\<open>cleanup\<close> removes the temp on failure only, and hands the result on.\<close>

lemma hoare_cleanup_ok:
  "hoare P m (on_ok Q) \<Longrightarrow> hoare P (State_Monad.bind m (cleanup tmp)) (on_ok Q)"
  by (rule hoare_bind, assumption)
    (auto intro!: hoareI simp: cleanup_def on_ok_def split: sum.splits prod.splits)

lemma hoare_cleanup_err: "q \<noteq> tmp \<Longrightarrow>
  hoare P m (on_err (on_file q Q)) \<Longrightarrow> hoare P (State_Monad.bind m (cleanup tmp)) (on_err (on_file q Q))"
  by (rule hoare_bind, assumption) (auto intro!: hoareI simp: cleanup_def on_err_def
    dest!: local_opD [OF local_op_remove [of tmp "{tmp}", OF singletonI]] split: sum.splits prod.splits)

lemma staged_publish_ok:
  "(\<And>got. hoare (P got) (publish dp tmp path ex got) (on_ok Q)) \<Longrightarrow>
    hoare (on_ok P r) (staged_publish dp tmp path ex r) (on_ok Q)"
  by (cases r) (auto simp: staged_publish_def on_ok_def hoare_def)

lemma s3_get_ok: "hoare (\<lambda>_. True) (s3_get dp cl key path ex abort)
    (on_ok (\<lambda>_ w. meets dp ex (file_at w path)))"
  unfolding s3_get_def
  by (intro hoare_guard_abort hoare_bind [OF resumed_offset_resumable] hoare_bind [OF attempts_ok]
    hoare_cleanup_ok staged_publish_ok publish_ok) (simp add: preserves_def hoare_def split: prod.split)

lemma resumed_offset_frame: "preserves (on_file q P) (resumed_offset tmp k)"
  unfolding resumed_offset_def by (intro preserves_rules temp_frame(3) [where ps = "{}"]) auto

lemma s3_get_err: "hoare (on_file path P) (s3_get dp cl key path ex abort) (on_err (on_file path P))"
proof -
  have "hoare (on_file path P) (staged_publish dp tmp path ex r) (on_err (on_file path P))" for tmp r
    by (cases r) (auto simp: staged_publish_def intro!: publish_err hoare_return)
  then show ?thesis
    unfolding s3_get_def guard_abort_def
    by (intro hoare_keep hoare_if env_op_preserves_fs resumed_offset_frame attempts_other
      hoare_cleanup_err path_not_part) (auto intro: hoare_return)
qed

lemma s3_get_private: "hoare (tmp_private (part_of path)) (s3_get dp cl key path ex abort)
    (on_ok (\<lambda>_. on_file path private_file))"
proof -
  have *: "hoare (tmp_private tmp) (staged_publish dp tmp path ex r) (on_ok (\<lambda>_. on_file path private_file))"
    for tmp r
    by (cases r) (auto simp: staged_publish_def intro!: publish_private hoare_error)
  show ?thesis
    unfolding s3_get_def
    by (intro hoare_guard_abort hoare_keep resumed_offset_frame attempts_private
      env_op_preserves_fs hoare_cleanup_ok *)
qed

lemma publish_other: "q \<noteq> path \<Longrightarrow> q \<noteq> tmp \<Longrightarrow> preserves (on_file q P) (publish dp tmp path ex got)"
  unfolding publish_def
  by (intro preserves_rules check_sha_frame local_preserves_file [OF local_op_rename [of _ "{tmp, path}"]])
    auto

lemma s3_get_other: "q \<noteq> path \<Longrightarrow> q \<noteq> part_of path \<Longrightarrow>
    preserves (on_file q P) (s3_get dp cl key path ex abort)"
  unfolding s3_get_def staged_publish_def cleanup_def
  by (intro preserves_guard_abort preserves_rules resumed_offset_frame attempts_other
    env_op_preserves_fs publish_other local_preserves_file [OF local_op_remove [of _ "{part_of path}"]])
    auto

text \<open>Outside the process a download is its requests and its abort checks.\<close>

lemmas temp_env = local_op_open_temp [OF singletonI, THEN local_preserves_env]
  local_op_write_all [OF singletonI, THEN local_preserves_env] local_op_len [THEN local_preserves_env]
  local_op_dir_op [THEN local_preserves_env] local_op_read [THEN local_preserves_env]
  local_op_rename [of _ "UNIV", OF UNIV_I UNIV_I, THEN local_preserves_env]
  local_op_remove [OF singletonI, THEN local_preserves_env]

lemma stream_body_env:
  assumes "preserves (on_env P) (env_op abort)"
  shows "preserves (on_env P) (stream_body tmp ex abort got cs)"
  using assms
proof (induction tmp ex abort got cs rule: stream_body.induct)
  case (3 tmp ex abort got b cs)
  then show ?case
    unfolding stream_body.simps
    by (intro preserves_guard_abort preserves_rules temp_env) auto
qed (auto intro!: preserves_guard_abort)

lemma receive_env: "preserves (on_env P) (env_op abort) \<Longrightarrow> preserves (on_env P) (receive tmp ex abort start rp)"
  unfolding receive_def finish_stream_def
  by (intro preserves_rules stream_body_env temp_env)

lemma attempt_once_env:
  assumes "preserves (on_env P) (env_op abort)"
    and "\<And>off. preserves (on_env P) (send dp cl (GetObject off) key [])"
  shows "preserves (on_env P) (attempt_once dp cl key tmp ex abort final offset)"
  unfolding attempt_once_def after_failure_def Let_def
  by (intro preserves_rules assms receive_env temp_env)

lemma attempts_env:
  assumes "preserves (on_env P) (env_op abort)"
    and "\<And>off. preserves (on_env P) (send dp cl (GetObject off) key [])"
  shows "preserves (on_env P) (attempts dp cl key tmp ex abort n offset)"
proof (induction n arbitrary: offset)
  case 0
  show ?case
    unfolding attempts.simps by (intro preserves_rules preserves_attempt attempt_once_env assms)
next
  case (Suc n)
  show ?case
    unfolding attempts.simps by (intro preserves_rules preserves_attempt attempt_once_env assms Suc)
qed

lemma s3_get_env:
  assumes "preserves (on_env P) (env_op abort)"
    and "\<And>off. preserves (on_env P) (send dp cl (GetObject off) key [])"
  shows "preserves (on_env P) (s3_get dp cl key path ex abort)"
  unfolding s3_get_def staged_publish_def publish_def check_sha_def sha256_file_def cleanup_def resumed_offset_def
  by (intro preserves_guard_abort preserves_rules assms attempts_env temp_env)

end
