(* ===== verification/Poll.thy ===== *)
theory Poll
  imports S3Get
begin

text \<open>
  \<open>util/poll.rs\<close>: the one wait loop of the program. The clock is a
  parameter (\<open>clock\<close>; times and durations in milliseconds). The wait loop carries fuel; the
  lemmas show that the fuel \<open>wait_until\<close> gives it is enough on any clock that does not run
  backwards and sleeps at least as long as asked, and that more fuel changes nothing.
\<close>

record 'e clock =
  ck_now :: "'e \<Rightarrow> nat \<times> 'e"
  ck_sleep :: "nat \<Rightarrow> 'e \<Rightarrow> unit \<times> 'e"

subsection \<open>Bounded waiting\<close>

primrec wait_loop :: "nat \<Rightarrow> 'e clock \<Rightarrow> ('e world, 'a option) state \<Rightarrow> nat \<Rightarrow> 'e abort \<Rightarrow> nat \<Rightarrow>
    ('e world, 'a option option) state" where
  "wait_loop 0 ck check deadline abort beat = ret None"
| "wait_loop (Suc n) ck check deadline abort beat = do {
     r \<leftarrow> check;
     case r of Some v \<Rightarrow> ret (Some (Some v))
     | None \<Rightarrow> do {
         stop \<leftarrow> env_op abort;
         if stop then ret (Some None)
         else do {
           now \<leftarrow> env_op (ck_now ck);
           if deadline \<le> now then ret (Some None)
           else do {
             now \<leftarrow> env_op (ck_now ck);
             env_op (ck_sleep ck (min beat (deadline - now)));
             wait_loop n ck check deadline abort beat } } } }"

definition wait_fuel :: "nat \<Rightarrow> nat \<Rightarrow> nat" where
  "wait_fuel timeout beat = timeout div beat + 2"

definition wait_until :: "'e clock \<Rightarrow> ('e world, 'a option) state \<Rightarrow> nat \<Rightarrow> 'e abort \<Rightarrow> nat \<Rightarrow>
    ('e world, 'a option) state" where
  "wait_until ck check timeout abort beat = do {
     now \<leftarrow> env_op (ck_now ck);
     r \<leftarrow> wait_loop (wait_fuel timeout beat) ck check (now + timeout) abort beat;
     ret (case r of Some v \<Rightarrow> v | None \<Rightarrow> None) }"

text \<open>
  A clock over the time \<open>t\<close> of the environment: a reading lies between the times before and
  after it, and a sleep lasts at least as long as asked. \<open>onward t m\<close>: \<open>m\<close> does not turn the
  clock back.
\<close>

definition clock_ok :: "'e clock \<Rightarrow> ('e \<Rightarrow> nat) \<Rightarrow> bool" where
  "clock_ok ck t \<longleftrightarrow> (\<forall>e. t e \<le> fst (ck_now ck e) \<and> fst (ck_now ck e) \<le> t (snd (ck_now ck e))) \<and>
     (\<forall>d e. t e + d \<le> t (snd (ck_sleep ck d e)))"

definition onward :: "('e \<Rightarrow> nat) \<Rightarrow> ('e world, 'a) state \<Rightarrow> bool" where
  "onward t m \<longleftrightarrow> (\<forall>w. t (w_env w) \<le> t (w_env (snd (run_state m w))))"

lemma onwardD: "onward t m \<Longrightarrow> run_state m w = (a, v) \<Longrightarrow> t (w_env w) \<le> t (w_env v)"
  by (metis onward_def snd_conv)

lemma run_env_op: "run_state (env_op f) w = (fst (f (w_env w)), w\<lparr>w_env := snd (f (w_env w))\<rparr>)"
  by (simp add: env_op_def split: prod.split)

lemma clock_now: "clock_ok ck t \<Longrightarrow> run_state (env_op (ck_now ck)) w = (n, v) \<Longrightarrow>
    t (w_env w) \<le> n \<and> n \<le> t (w_env v)"
  by (auto simp: clock_ok_def run_env_op)

lemma clock_sleep: "clock_ok ck t \<Longrightarrow> run_state (env_op (ck_sleep ck d)) w = (u, v) \<Longrightarrow>
    t (w_env w) + d \<le> t (w_env v)"
  by (auto simp: clock_ok_def run_env_op)

text \<open>A round that does not end the wait brings the clock a beat on, or to the deadline.\<close>

lemma wait_loop_ends:
  assumes ck: "clock_ok ck t" and onw: "onward t check" "onward t (env_op abort)"
  shows "deadline \<le> t (w_env w) + n * beat \<Longrightarrow> fst (run_state (wait_loop (Suc n) ck check deadline abort beat) w) \<noteq> None"
proof (induction n arbitrary: w)
  case (0 w)
  obtain r w1 where c: "run_state check w = (r, w1)" by fastforce
  obtain s w2 where a: "run_state (env_op abort) w1 = (s, w2)" by fastforce
  obtain k w3 where k: "run_state (env_op (ck_now ck)) w2 = (k, w3)" by fastforce
  have "deadline \<le> k"
    using 0 onwardD [OF onw(1) c] onwardD [OF onw(2) a] clock_now [OF ck k] by simp
  then show ?case
    by (cases r) (simp_all add: c a k)
next
  case (Suc n w)
  obtain r w1 where c: "run_state check w = (r, w1)" by fastforce
  obtain s w2 where a: "run_state (env_op abort) w1 = (s, w2)" by fastforce
  obtain k w3 where k: "run_state (env_op (ck_now ck)) w2 = (k, w3)" by fastforce
  obtain l w4 where l: "run_state (env_op (ck_now ck)) w3 = (l, w4)" by fastforce
  obtain u w5 where z: "run_state (env_op (ck_sleep ck (min beat (deadline - l)))) w4 = (u, w5)"
    by (cases "run_state (env_op (ck_sleep ck (min beat (deadline - l)))) w4")
  have "t (w_env w) \<le> t (w_env w3)"
    using onwardD [OF onw(1) c] onwardD [OF onw(2) a] clock_now [OF ck k] by simp
  then have "deadline \<le> t (w_env w5) + n * beat"
    using Suc.prems clock_now [OF ck l] clock_sleep [OF ck z] by (auto simp: min_def split: if_splits)
  then have rest: "fst (run_state (wait_loop (Suc n) ck check deadline abort beat) w5) \<noteq> None"
    by (rule Suc.IH)
  have "run_state (wait_loop (Suc (Suc n)) ck check deadline abort beat) w =
    (case r of Some v \<Rightarrow> (Some (Some v), w1) | None \<Rightarrow> if s then (Some None, w2)
     else if deadline \<le> k then (Some None, w3) else run_state (wait_loop (Suc n) ck check deadline abort beat) w5)"
    by (subst wait_loop.simps) (simp add: c a k l z del: wait_loop.simps split: option.split)
  with rest show ?case
    by (auto split: option.split simp del: wait_loop.simps)
qed

lemma wait_loop_more: "run_state (wait_loop n ck check deadline abort beat) w = (Some r, v) \<Longrightarrow>
    n \<le> m \<Longrightarrow> run_state (wait_loop m ck check deadline abort beat) w = (Some r, v)"
proof (induction n arbitrary: m w)
  case (Suc n m w)
  then obtain k where m: "m = Suc k" "n \<le> k" by (cases m) auto
  show ?case
    using Suc.prems(1) Suc.IH m(2) by (auto simp: m(1) split: prod.splits option.splits if_splits)
qed simp

lemma div_reach: "0 < beat \<Longrightarrow> timeout \<le> Suc (timeout div beat) * (beat :: nat)"
  using dividend_less_times_div [of beat timeout] by (simp add: algebra_simps)

lemma wait_enough:
  assumes "clock_ok ck t" "onward t check" "onward t (env_op abort)" "0 < beat"
    and "run_state (env_op (ck_now ck)) w = (now, v)"
  shows "fst (run_state (wait_loop (wait_fuel timeout beat) ck check (now + timeout) abort beat) v) \<noteq> None"
proof -
  have "now + timeout \<le> t (w_env v) + Suc (timeout div beat) * beat"
    using clock_now [OF assms(1,5)] div_reach [OF assms(4), of timeout] by simp
  from wait_loop_ends [OF assms(1-3) this] show ?thesis
    by (simp add: wait_fuel_def numeral_2_eq_2 del: wait_loop.simps)
qed

text \<open>What a wait keeps, and what its success means.\<close>

lemma wait_loop_ok:
  assumes "hoare P check (\<lambda>r. case r of Some v \<Rightarrow> Q v | None \<Rightarrow> P)"
    and "preserves P (env_op abort)" "preserves P (env_op (ck_now ck))" "\<And>d. preserves P (env_op (ck_sleep ck d))"
  shows "hoare P (wait_loop n ck check deadline abort beat) (\<lambda>r. case r of Some (Some v) \<Rightarrow> Q v | _ \<Rightarrow> P)"
proof (induction n)
  case (Suc n)
  have stop: "hoare P (ret (Some None)) (\<lambda>r. case r of Some (Some v) \<Rightarrow> Q v | _ \<Rightarrow> P)"
    by (rule hoare_return) simp
  have go: "hoare P (do { stop \<leftarrow> env_op abort; if stop then ret (Some None) else do {
      now \<leftarrow> env_op (ck_now ck); if deadline \<le> now then ret (Some None) else do {
        now \<leftarrow> env_op (ck_now ck); env_op (ck_sleep ck (min beat (deadline - now)));
        wait_loop n ck check deadline abort beat } } }) (\<lambda>r. case r of Some (Some v) \<Rightarrow> Q v | _ \<Rightarrow> P)"
    by (intro hoare_keep [OF assms(2)] hoare_keep [OF assms(3)] hoare_keep [OF assms(4)] hoare_if stop Suc)
  show ?case
    unfolding wait_loop.simps
  proof (rule hoare_bind [OF assms(1)])
    fix r
    show "hoare (case r of Some v \<Rightarrow> Q v | None \<Rightarrow> P) (case r of Some v \<Rightarrow> ret (Some (Some v)) | None \<Rightarrow>
        do { stop \<leftarrow> env_op abort; if stop then ret (Some None) else do {
          now \<leftarrow> env_op (ck_now ck); if deadline \<le> now then ret (Some None) else do {
          now \<leftarrow> env_op (ck_now ck); env_op (ck_sleep ck (min beat (deadline - now)));
          wait_loop n ck check deadline abort beat } } }) (\<lambda>r. case r of Some (Some v) \<Rightarrow> Q v | _ \<Rightarrow> P)"
      using go by (cases r) (simp_all add: hoare_return)
  qed
qed (simp add: hoare_return)

lemma wait_until_ok:
  assumes "hoare P check (\<lambda>r. case r of Some v \<Rightarrow> Q v | None \<Rightarrow> P)"
    and "preserves P (env_op abort)" "preserves P (env_op (ck_now ck))" "\<And>d. preserves P (env_op (ck_sleep ck d))"
  shows "hoare P (wait_until ck check timeout abort beat) (\<lambda>r. case r of Some v \<Rightarrow> Q v | None \<Rightarrow> P)"
  unfolding wait_until_def
  by (intro hoare_keep [OF assms(3)] hoare_bind [OF wait_loop_ok [OF assms]] hoare_return)
    (simp split: option.splits)

lemma framed_wait_loop: "framed ps check \<Longrightarrow> framed ps (wait_loop n ck check deadline abort beat)"
  by (induction n) (auto intro!: framed_bind framed_if framed_option)

lemma framed_wait_until: "framed ps check \<Longrightarrow> framed ps (wait_until ck check timeout abort beat)"
  unfolding wait_until_def by (intro framed_bind framed_env_op framed_wait_loop framed_return)

end
