(* ===== verification/Reaper.thy ===== *)
theory Reaper
  imports Prelude
begin

text \<open>
  \<open>runtime/process/reaper.rs\<close>: the hub that owns every \<open>waitpid\<close>. The hub, the children and
  the namespace's strays are a step relation whose steps are the regions under the registry lock
  (\<open>spawn\<close> with its registration, a \<open>waitpid\<close> with the removal of the entry, a delivery) and the
  actions of processes. \<open>hb_exit\<close> and \<open>hb_pid\<close> are ghosts: the true exit status and the pid of
  each registered child, by the number of its waiter. The invariant shows that a slot holds its
  child's true status and that no exit is lost.
\<close>

type_synonym pid = int

datatype wait_status = Exited pid int | Signaled pid int bool | OtherStatus

definition ws_pid :: "wait_status \<Rightarrow> pid option" where
  "ws_pid st = (case st of Exited p _ \<Rightarrow> Some p | Signaled p _ _ \<Rightarrow> Some p | OtherStatus \<Rightarrow> None)"

datatype proc = Running "nat option" | Zombie "nat option" wait_status

record handle =
  h_pid :: pid
  h_waiter :: nat

record hub =
  hb_procs :: "pid \<Rightarrow> proc option"
  hb_reg :: "pid \<Rightarrow> nat option"
  hb_slots :: "nat \<Rightarrow> wait_status option"
  hb_live :: "nat \<Rightarrow> bool"  \<comment> \<open>waiters some handle still holds\<close>
  hb_pending :: "(wait_status \<times> nat option) option"  \<comment> \<open>reaped, not yet delivered\<close>
  hb_next :: nat
  hb_exit :: "nat \<Rightarrow> wait_status option"
  hb_pid :: "nat \<Rightarrow> pid"

definition hub_start :: hub where
  "hub_start = \<lparr>hb_procs = (\<lambda>_. None), hb_reg = (\<lambda>_. None), hb_slots = (\<lambda>_. None), hb_live = (\<lambda>_. False),
     hb_pending = None, hb_next = 0, hb_exit = (\<lambda>_. None), hb_pid = (\<lambda>_. 0)\<rparr>"

subsection \<open>The operations of the hub\<close>

text \<open>\<open>insert_locked\<close>, together with the process \<open>spawn\<close> has just started under the same lock.\<close>

definition insert_locked :: "hub \<Rightarrow> pid \<Rightarrow> handle \<times> hub" where
  "insert_locked s p = (\<lparr>h_pid = p, h_waiter = hb_next s\<rparr>, s\<lparr>
     hb_reg := (hb_reg s)(p \<mapsto> hb_next s), hb_live := (hb_live s)(hb_next s := True),
     hb_next := Suc (hb_next s), hb_pid := (hb_pid s)(hb_next s := p)\<rparr>)"

definition proc_start :: "hub \<Rightarrow> pid \<Rightarrow> nat option \<Rightarrow> hub" where
  "proc_start s p c = s\<lparr>hb_procs := (hb_procs s)(p \<mapsto> Running c)\<rparr>"

definition spawned :: "hub \<Rightarrow> pid \<Rightarrow> hub" where
  "spawned s p = snd (insert_locked (proc_start s p (Some (hb_next s))) p)"

definition proc_exit :: "hub \<Rightarrow> pid \<Rightarrow> nat option \<Rightarrow> wait_status \<Rightarrow> hub" where
  "proc_exit s p c st = s\<lparr>hb_procs := (hb_procs s)(p \<mapsto> Zombie c st),
     hb_exit := (case c of None \<Rightarrow> hb_exit s | Some n \<Rightarrow> (hb_exit s)(n \<mapsto> st))\<rparr>"

text \<open>\<open>waitpid(pid, WNOHANG)\<close>: \<open>None\<close> for a running process and for \<open>ECHILD\<close>.\<close>

definition waitpid :: "hub \<Rightarrow> pid \<Rightarrow> (wait_status \<times> hub) option" where
  "waitpid s p = (case hb_procs s p of
     Some (Zombie c st) \<Rightarrow> Some (st, s\<lparr>hb_procs := (hb_procs s)(p := None)\<rparr>)
   | _ \<Rightarrow> None)"

text \<open>The region under the lock: the \<open>waitpid\<close> and the removal of the entry of the status' pid.\<close>

definition reap :: "hub \<Rightarrow> pid \<Rightarrow> hub" where
  "reap s p = (case waitpid s p of None \<Rightarrow> s
     | Some (st, s) \<Rightarrow> (let q = (case ws_pid st of Some q \<Rightarrow> q | None \<Rightarrow> 0) in
         s\<lparr>hb_reg := (hb_reg s)(q := None), hb_pending := Some (st, hb_reg s q)\<rparr>))"

text \<open>\<open>deliver_waiter\<close>: \<open>Weak::upgrade\<close> succeeds while a handle lives.\<close>

definition deliver_waiter :: "hub \<Rightarrow> hub" where
  "deliver_waiter s = (case hb_pending s of None \<Rightarrow> s
     | Some (st, waiter) \<Rightarrow> (case waiter of
         Some n \<Rightarrow> if hb_live s n then s\<lparr>hb_pending := None, hb_slots := (hb_slots s)(n \<mapsto> st)\<rparr>
           else s\<lparr>hb_pending := None\<rparr>
       | None \<Rightarrow> s\<lparr>hb_pending := None\<rparr>))"

text \<open>
  One pass of the reaper when nobody interferes: the ready children, then the sweep, which takes
  the zombies in the order the kernel offers them until it offers none.
\<close>

primrec reap_each :: "pid list \<Rightarrow> hub \<Rightarrow> hub" where
  "reap_each [] s = s"
| "reap_each (p # ps) s = reap_each ps (deliver_waiter (reap s p))"

definition reaper_tick :: "pid list \<Rightarrow> pid list \<Rightarrow> hub \<Rightarrow> hub" where
  "reaper_tick ready order s = reap_each order (reap_each ready s)"

definition handle_status :: "hub \<Rightarrow> handle \<Rightarrow> wait_status option" where
  "handle_status s h = hb_slots s (h_waiter h)"

text \<open>What \<open>signal_child\<close> signals: the process with the handle's pid, if that pid is registered.\<close>

definition signal_target :: "hub \<Rightarrow> handle \<Rightarrow> proc option" where
  "signal_target s h = (if hb_reg s (h_pid h) = None then None else hb_procs s (h_pid h))"

subsection \<open>Steps\<close>

inductive hub_step :: "hub \<Rightarrow> hub \<Rightarrow> bool" where
  Spawn: "hb_procs s p = None \<Longrightarrow> 1 < p \<Longrightarrow> hub_step s (spawned s p)"
| Stray: "hb_procs s p = None \<Longrightarrow> 1 < p \<Longrightarrow> hub_step s (proc_start s p None)"
| Exit: "hb_procs s p = Some (Running c) \<Longrightarrow> ws_pid st = Some p \<Longrightarrow> hub_step s (proc_exit s p c st)"
| Reap: "hb_pending s = None \<Longrightarrow> hub_step s (reap s p)"
| Deliver: "hub_step s (deliver_waiter s)"
| Release: "hub_step s (s\<lparr>hb_live := (hb_live s)(n := False)\<rparr>)"

inductive_cases hub_stepE: "hub_step s t"

subsection \<open>The invariant\<close>

definition child_of_proc :: "proc \<Rightarrow> nat option" where
  "child_of_proc x = (case x of Running c \<Rightarrow> c | Zombie c _ \<Rightarrow> c)"

definition runs_child :: "hub \<Rightarrow> pid \<Rightarrow> nat \<Rightarrow> bool" where
  "runs_child s p n \<longleftrightarrow> (\<exists>x. hb_procs s p = Some x \<and> child_of_proc x = Some n)"

text \<open>Where the status of waiter \<open>n\<close> is: with the process, on its way, in the slot, or nowhere.\<close>

definition with_proc :: "hub \<Rightarrow> nat \<Rightarrow> bool" where
  "with_proc s n \<longleftrightarrow> (\<exists>p. runs_child s p n)"

definition on_its_way :: "hub \<Rightarrow> nat \<Rightarrow> bool" where
  "on_its_way s n \<longleftrightarrow> (\<exists>st. hb_pending s = Some (st, Some n))"

definition hub_procs_ok :: "hub \<Rightarrow> bool" where
  "hub_procs_ok s \<longleftrightarrow>
     (\<forall>p n. hb_reg s p = Some n \<longleftrightarrow> runs_child s p n) \<and>
     (\<forall>p n. runs_child s p n \<longrightarrow> n < hb_next s \<and> hb_pid s n = p \<and> 1 < p) \<and>
     (\<forall>p c st. hb_procs s p = Some (Zombie c st) \<longrightarrow> ws_pid st = Some p) \<and>
     (\<forall>p n st. hb_procs s p = Some (Zombie (Some n) st) \<longrightarrow> hb_exit s n = Some st) \<and>
     (\<forall>p n. hb_procs s p = Some (Running (Some n)) \<longrightarrow> hb_exit s n = None)"

definition hub_slots_ok :: "hub \<Rightarrow> bool" where
  "hub_slots_ok s \<longleftrightarrow>
     (\<forall>n st. hb_pending s = Some (st, Some n) \<longrightarrow>
        n < hb_next s \<and> hb_exit s n = Some st \<and> hb_slots s n = None \<and> \<not> with_proc s n) \<and>
     (\<forall>n st. hb_slots s n = Some st \<longrightarrow> n < hb_next s \<and> hb_exit s n = Some st \<and> \<not> with_proc s n) \<and>
     (\<forall>n. hb_next s \<le> n \<longrightarrow> hb_exit s n = None \<and> \<not> hb_live s n) \<and>
     (\<forall>n. hb_live s n \<longrightarrow> with_proc s n \<or> on_its_way s n \<or> hb_slots s n \<noteq> None)"

definition hub_ok :: "hub \<Rightarrow> bool" where
  "hub_ok s \<longleftrightarrow> hub_procs_ok s \<and> hub_slots_ok s"


subsection \<open>Every step keeps it\<close>

lemma proc_start_simps [simp]:
  "runs_child (proc_start s p c) q n \<longleftrightarrow> (if q = p then c = Some n else runs_child s q n)"
  "hb_reg (proc_start s p c) = hb_reg s" "hb_slots (proc_start s p c) = hb_slots s"
  "hb_live (proc_start s p c) = hb_live s" "hb_pending (proc_start s p c) = hb_pending s"
  "hb_next (proc_start s p c) = hb_next s" "hb_exit (proc_start s p c) = hb_exit s"
  "hb_pid (proc_start s p c) = hb_pid s"
  "hb_procs (proc_start s p c) = (hb_procs s)(p \<mapsto> Running c)"
  by (auto simp: proc_start_def runs_child_def child_of_proc_def)

lemma spawned_simps [simp]:
  "runs_child (spawned s p) q n \<longleftrightarrow> (if q = p then n = hb_next s else runs_child s q n)"
  "hb_reg (spawned s p) = (hb_reg s)(p \<mapsto> hb_next s)" "hb_slots (spawned s p) = hb_slots s"
  "hb_live (spawned s p) = (hb_live s)(hb_next s := True)" "hb_pending (spawned s p) = hb_pending s"
  "hb_next (spawned s p) = Suc (hb_next s)" "hb_exit (spawned s p) = hb_exit s"
  "hb_pid (spawned s p) = (hb_pid s)(hb_next s := p)"
  "hb_procs (spawned s p) = (hb_procs s)(p \<mapsto> Running (Some (hb_next s)))"
  by (auto simp: spawned_def insert_locked_def runs_child_def child_of_proc_def)

lemma proc_exit_simps [simp]:
  "runs_child (proc_exit s p c st) q n \<longleftrightarrow> (if q = p then c = Some n else runs_child s q n)"
  "hb_reg (proc_exit s p c st) = hb_reg s" "hb_slots (proc_exit s p c st) = hb_slots s"
  "hb_live (proc_exit s p c st) = hb_live s" "hb_pending (proc_exit s p c st) = hb_pending s"
  "hb_next (proc_exit s p c st) = hb_next s" "hb_pid (proc_exit s p c st) = hb_pid s"
  "hb_exit (proc_exit s p c st) n = (if c = Some n then Some st else hb_exit s n)"
  "hb_procs (proc_exit s p c st) = (hb_procs s)(p \<mapsto> Zombie c st)"
  by (auto simp: proc_exit_def runs_child_def child_of_proc_def split: option.split)

lemma runs_child_update [simp]:
  "runs_child (s\<lparr>hb_reg := r\<rparr>) p n = runs_child s p n" "runs_child (s\<lparr>hb_live := l\<rparr>) p n = runs_child s p n"
  "runs_child (s\<lparr>hb_pending := x\<rparr>) p n = runs_child s p n" "runs_child (s\<lparr>hb_slots := z\<rparr>) p n = runs_child s p n"
  "runs_child (s\<lparr>hb_procs := (hb_procs s)(q := None)\<rparr>) p n \<longleftrightarrow> p \<noteq> q \<and> runs_child s p n"
  by (auto simp: runs_child_def)

lemma runs_child_at: "hb_procs s p = Some x \<Longrightarrow> runs_child s p n \<longleftrightarrow> child_of_proc x = Some n"
  by (simp add: runs_child_def)

lemma child_of_proc_simps [simp]: "child_of_proc (Running c) = c" "child_of_proc (Zombie c st) = c"
  by (simp_all add: child_of_proc_def)

lemma hub_ok_start: "hub_ok hub_start"
  by (simp add: hub_ok_def hub_procs_ok_def hub_slots_ok_def hub_start_def runs_child_def with_proc_def)

lemma free_pid: "hb_procs s p = None \<Longrightarrow> \<not> runs_child s p n"
  by (simp add: runs_child_def)

lemma hub_okI:
  assumes "\<And>p n. hb_reg s p = Some n \<longleftrightarrow> runs_child s p n"
    and "\<And>p n. runs_child s p n \<Longrightarrow> n < hb_next s \<and> hb_pid s n = p \<and> 1 < p"
    and "\<And>p c st. hb_procs s p = Some (Zombie c st) \<Longrightarrow> ws_pid st = Some p"
    and "\<And>p n st. hb_procs s p = Some (Zombie (Some n) st) \<Longrightarrow> hb_exit s n = Some st"
    and "\<And>p n. hb_procs s p = Some (Running (Some n)) \<Longrightarrow> hb_exit s n = None"
    and "\<And>n st. hb_pending s = Some (st, Some n) \<Longrightarrow>
        n < hb_next s \<and> hb_exit s n = Some st \<and> hb_slots s n = None \<and> (\<forall>p. \<not> runs_child s p n)"
    and "\<And>n st. hb_slots s n = Some st \<Longrightarrow> n < hb_next s \<and> hb_exit s n = Some st \<and> (\<forall>p. \<not> runs_child s p n)"
    and "\<And>n. hb_next s \<le> n \<Longrightarrow> hb_exit s n = None \<and> \<not> hb_live s n"
    and "\<And>n. hb_live s n \<Longrightarrow> (\<exists>p. runs_child s p n) \<or> (\<exists>st. hb_pending s = Some (st, Some n)) \<or> hb_slots s n \<noteq> None"
  shows "hub_ok s"
  using assms unfolding hub_ok_def hub_procs_ok_def hub_slots_ok_def with_proc_def on_its_way_def by auto

lemma hub_okD:
  assumes "hub_ok s"
  shows hub_reg: "hb_reg s p = Some n \<longleftrightarrow> runs_child s p n"
    and hub_child: "runs_child s p n \<Longrightarrow> n < hb_next s \<and> hb_pid s n = p \<and> 1 < p"
    and hub_zombie_pid: "hb_procs s p = Some (Zombie c st) \<Longrightarrow> ws_pid st = Some p"
    and hub_zombie: "hb_procs s p = Some (Zombie (Some n) st) \<Longrightarrow> hb_exit s n = Some st"
    and hub_running: "hb_procs s p = Some (Running (Some n)) \<Longrightarrow> hb_exit s n = None"
    and hub_pending: "hb_pending s = Some (st, Some n) \<Longrightarrow>
        n < hb_next s \<and> hb_exit s n = Some st \<and> hb_slots s n = None \<and> (\<forall>p. \<not> runs_child s p n)"
    and hub_slot: "hb_slots s n = Some st \<Longrightarrow> n < hb_next s \<and> hb_exit s n = Some st \<and> (\<forall>p. \<not> runs_child s p n)"
    and hub_fresh: "hb_next s \<le> n \<Longrightarrow> hb_exit s n = None \<and> \<not> hb_live s n"
    and hub_found: "hb_live s n \<Longrightarrow> (\<exists>p. runs_child s p n) \<or> (\<exists>st. hb_pending s = Some (st, Some n)) \<or> hb_slots s n \<noteq> None"
  using assms unfolding hub_ok_def hub_procs_ok_def hub_slots_ok_def with_proc_def on_its_way_def by blast+

lemma hub_unset: "hub_ok s \<Longrightarrow> runs_child s p n \<Longrightarrow> hb_slots s n = None"
  by (cases "hb_slots s n") (auto dest: hub_slot)

lemma hub_ok_spawn:
  assumes ok: "hub_ok s" and free: "hb_procs s p = None" "1 < p"
  shows "hub_ok (spawned s p)"
proof (rule hub_okI, goal_cases)
    case (1 q n)
    then show ?case using hub_reg [OF ok, of q n] free_pid [OF free(1)] free(2) by (auto split: if_splits)
  next
    case (2 q n)
    then show ?case using hub_child [OF ok, of q n] free_pid [OF free(1)] free(2) by (auto split: if_splits)
  next
    case (3 q d st')
    then show ?case using hub_zombie_pid [OF ok, of q d st'] free_pid [OF free(1)] free(2) by (auto split: if_splits)
  next
    case (4 q n st')
    then show ?case using hub_zombie [OF ok, of q n st'] free_pid [OF free(1)] free(2) hub_child [OF ok, of q n] by (auto split: if_splits)
  next
    case (5 q n)
    then show ?case using hub_running [OF ok, of q n] free_pid [OF free(1)] free(2) hub_child [OF ok, of q n] hub_fresh [OF ok, of n] by (auto split: if_splits)
  next
    case (6 n st')
    then show ?case using hub_pending [OF ok, of st' n] free_pid [OF free(1)] free(2) by (auto split: if_splits)
  next
    case (7 n st')
    then show ?case using hub_slot [OF ok, of n st'] free_pid [OF free(1)] free(2) by (auto split: if_splits)
  next
    case (8 n)
    then show ?case using hub_fresh [OF ok, of n] free_pid [OF free(1)] free(2) by (auto split: if_splits)
  next
    case (9 n)
    then consider p where "runs_child s p n" | st where "hb_pending s = Some (st, Some n)" | "hb_slots s n \<noteq> None" | "n = hb_next s"
      using hub_found [OF ok, of n] by (auto split: if_splits)
    then show ?case using 9 free_pid [OF free(1)] free(2) by cases (auto, (metis+)?)
qed

lemma hub_ok_stray:
  assumes ok: "hub_ok s" and free: "hb_procs s p = None"
  shows "hub_ok (proc_start s p None)"
proof (rule hub_okI, goal_cases)
    case (1 q n)
    then show ?case using hub_reg [OF ok, of q n] free_pid [OF free] by (auto split: if_splits)
  next
    case (2 q n)
    then show ?case using hub_child [OF ok, of q n] free_pid [OF free] by (auto split: if_splits)
  next
    case (3 q d st')
    then show ?case using hub_zombie_pid [OF ok, of q d st'] free_pid [OF free] by (auto split: if_splits)
  next
    case (4 q n st')
    then show ?case using hub_zombie [OF ok, of q n st'] free_pid [OF free] by (auto split: if_splits)
  next
    case (5 q n)
    then show ?case using hub_running [OF ok, of q n] free_pid [OF free] by (auto split: if_splits)
  next
    case (6 n st')
    then show ?case using hub_pending [OF ok, of st' n] free_pid [OF free] by (auto split: if_splits)
  next
    case (7 n st')
    then show ?case using hub_slot [OF ok, of n st'] free_pid [OF free] by (auto split: if_splits)
  next
    case (8 n)
    then show ?case using hub_fresh [OF ok, of n] free_pid [OF free] by (auto split: if_splits)
  next
    case (9 n)
    then consider p where "runs_child s p n" | st where "hb_pending s = Some (st, Some n)" | "hb_slots s n \<noteq> None"
      using hub_found [OF ok, of n] by (auto split: if_splits)
    then show ?case using 9 free_pid [OF free] by cases (auto, (metis+)?)
qed

lemma hub_ok_exit:
  assumes ok: "hub_ok s" and run: "hb_procs s p = Some (Running c)" and st: "ws_pid st = Some p"
  shows "hub_ok (proc_exit s p c st)"
proof -
  have c: "runs_child s p n \<longleftrightarrow> c = Some n" for n
    using run by (simp add: runs_child_at)
  show ?thesis
  proof (rule hub_okI, goal_cases)
    case (1 q n)
    then show ?case using hub_reg [OF ok, of q n] run st c [of n] by (auto split: if_splits)
  next
    case (2 q n)
    then show ?case using hub_child [OF ok, of q n] run st c [of n] by (auto split: if_splits)
  next
    case (3 q d st')
    then show ?case using hub_zombie_pid [OF ok, of q d st'] run st c by (auto split: if_splits)
  next
    case (4 q n st')
    then show ?case using hub_zombie [OF ok, of q n st'] run st c [of n] hub_child [OF ok, of p n] hub_child [OF ok, of q n] runs_child_at [of s q _ n] by (auto split: if_splits)
  next
    case (5 q n)
    then show ?case using hub_running [OF ok, of q n] run st c [of n] hub_child [OF ok, of p n] hub_child [OF ok, of q n] runs_child_at [of s q _ n] by (auto split: if_splits)
  next
    case (6 n st')
    then show ?case using hub_pending [OF ok, of st' n] run st c [of n] by (auto split: if_splits)
  next
    case (7 n st')
    then show ?case using hub_slot [OF ok, of n st'] run st c [of n] by (auto split: if_splits)
  next
    case (8 n)
    then show ?case using hub_fresh [OF ok, of n] run st c [of n] hub_child [OF ok, of p n] by (auto split: if_splits)
  next
    case (9 n)
    then consider p where "runs_child s p n" | st where "hb_pending s = Some (st, Some n)" | "hb_slots s n \<noteq> None"
      using hub_found [OF ok, of n] by (auto split: if_splits)
    then show ?case using 9 run st c [of n] by cases (auto, (metis+)?)
  qed
qed

lemma hub_ok_release:
  assumes ok: "hub_ok s"
  shows "hub_ok (s\<lparr>hb_live := (hb_live s)(m := False)\<rparr>)"
proof (rule hub_okI, goal_cases)
    case (1 q n)
    then show ?case using hub_reg [OF ok, of q n] ok by (auto split: if_splits)
  next
    case (2 q n)
    then show ?case using hub_child [OF ok, of q n] ok by (auto split: if_splits)
  next
    case (3 q d st')
    then show ?case using hub_zombie_pid [OF ok, of q d st'] ok by (auto split: if_splits)
  next
    case (4 q n st')
    then show ?case using hub_zombie [OF ok, of q n st'] ok by (auto split: if_splits)
  next
    case (5 q n)
    then show ?case using hub_running [OF ok, of q n] ok by (auto split: if_splits)
  next
    case (6 n st')
    then show ?case using hub_pending [OF ok, of st' n] ok by (auto split: if_splits)
  next
    case (7 n st')
    then show ?case using hub_slot [OF ok, of n st'] ok by (auto split: if_splits)
  next
    case (8 n)
    then show ?case using hub_fresh [OF ok, of n] ok by (auto split: if_splits)
  next
    case (9 n)
    then consider p where "runs_child s p n" | st where "hb_pending s = Some (st, Some n)" | "hb_slots s n \<noteq> None"
      using hub_found [OF ok, of n] by (auto split: if_splits)
    then show ?case using 9 ok by cases (auto, (metis+)?)
qed

lemma hub_ok_deliver:
  assumes ok: "hub_ok s"
  shows "hub_ok (deliver_waiter s)"
proof -
  consider "deliver_waiter s = s" | st n where "hb_pending s = Some (st, Some n)" "hb_live s n"
      "deliver_waiter s = s\<lparr>hb_pending := None, hb_slots := (hb_slots s)(n \<mapsto> st)\<rparr>"
    | st c where "hb_pending s = Some (st, c)" "\<And>n. c = Some n \<Longrightarrow> \<not> hb_live s n" "deliver_waiter s = s\<lparr>hb_pending := None\<rparr>"
  proof (cases "hb_pending s")
    case None
    then show ?thesis using that(1) by (simp add: deliver_waiter_def)
  next
    case (Some x)
    obtain st c where x: "x = (st, c)" by (cases x)
    show ?thesis
    proof (cases "\<exists>n. c = Some n \<and> hb_live s n")
      case True
      then show ?thesis using Some x that(2) by (auto simp: deliver_waiter_def)
    next
      case False
      then show ?thesis using Some x that(3) by (auto simp: deliver_waiter_def split: option.split)
    qed
  qed
  then show ?thesis
  proof cases
    case 1
    then show ?thesis using ok by simp
  next
    case (2 st m)
    note pend = hub_pending [OF ok 2(1)] 2
    show ?thesis
      unfolding 2(3)
      proof (rule hub_okI, goal_cases)
        case (1 q n)
        then show ?case using hub_reg [OF ok, of q n] pend by (auto split: if_splits)
      next
        case (2 q n)
        then show ?case using hub_child [OF ok, of q n] pend by (auto split: if_splits)
      next
        case (3 q d st')
        then show ?case using hub_zombie_pid [OF ok, of q d st'] pend by (auto split: if_splits)
      next
        case (4 q n st')
        then show ?case using hub_zombie [OF ok, of q n st'] pend by (auto split: if_splits)
      next
        case (5 q n)
        then show ?case using hub_running [OF ok, of q n] pend by (auto split: if_splits)
      next
        case (6 n st')
        then show ?case using hub_pending [OF ok, of st' n] pend by (auto split: if_splits)
      next
        case (7 n st')
        then show ?case using hub_slot [OF ok, of n st'] pend by (auto split: if_splits)
      next
        case (8 n)
        then show ?case using hub_fresh [OF ok, of n] pend by (auto split: if_splits)
      next
        case (9 n)
        then consider p where "runs_child s p n" | st where "hb_pending s = Some (st, Some n)" | "hb_slots s n \<noteq> None"
      using hub_found [OF ok, of n] by (auto split: if_splits)
        then show ?case using 9 pend by cases (auto, (metis+)?)
      qed
  next
    case (3 st c)
    note gone = 3
    show ?thesis
      unfolding 3(3)
      proof (rule hub_okI, goal_cases)
        case (1 q n)
        then show ?case using hub_reg [OF ok, of q n] gone(1,2) by (auto split: if_splits)
      next
        case (2 q n)
        then show ?case using hub_child [OF ok, of q n] gone(1,2) by (auto split: if_splits)
      next
        case (3 q d st')
        then show ?case using hub_zombie_pid [OF ok, of q d st'] gone(1,2) by (auto split: if_splits)
      next
        case (4 q n st')
        then show ?case using hub_zombie [OF ok, of q n st'] gone(1,2) by (auto split: if_splits)
      next
        case (5 q n)
        then show ?case using hub_running [OF ok, of q n] gone(1,2) by (auto split: if_splits)
      next
        case (6 n st')
        then show ?case using hub_pending [OF ok, of st' n] gone(1,2) by (auto split: if_splits)
      next
        case (7 n st')
        then show ?case using hub_slot [OF ok, of n st'] gone(1,2) by (auto split: if_splits)
      next
        case (8 n)
        then show ?case using hub_fresh [OF ok, of n] gone(1,2) by (auto split: if_splits)
      next
        case (9 n)
        then consider p where "runs_child s p n" | st where "hb_pending s = Some (st, Some n)" | "hb_slots s n \<noteq> None"
      using hub_found [OF ok, of n] by (auto split: if_splits)
        then show ?case using 9 gone(1,2) by cases (auto, (metis+)?)
      qed
  qed
qed

text \<open>What a \<open>waitpid\<close> that finds a zombie does: its entry leaves, its status is on its way.\<close>

lemma reap_zombie:
  assumes "hub_ok s" "hb_procs s p = Some (Zombie c st)"
  shows "reap s p = s\<lparr>hb_procs := (hb_procs s)(p := None), hb_reg := (hb_reg s)(p := None), hb_pending := Some (st, c)\<rparr>"
proof -
  have "hb_reg s p = c"
    using hub_reg [OF assms(1), of p] assms(2) by (cases c; cases "hb_reg s p") (auto simp: runs_child_at)
  then show ?thesis
    using hub_zombie_pid [OF assms] assms(2) by (simp add: reap_def waitpid_def)
qed

lemma reap_other: "(\<And>c st. hb_procs s p \<noteq> Some (Zombie c st)) \<Longrightarrow> reap s p = s"
  by (simp add: reap_def waitpid_def split: option.split proc.split)

lemma hub_ok_reap:
  assumes ok: "hub_ok s" and idle: "hb_pending s = None"
  shows "hub_ok (reap s p)"
proof (cases "\<exists>c st. hb_procs s p = Some (Zombie c st)")
  case False
  then show ?thesis using ok reap_other by metis
next
  case True
  then obtain c st where z: "hb_procs s p = Some (Zombie c st)" by blast
  have c: "runs_child s p n \<longleftrightarrow> c = Some n" for n
    using z by (simp add: runs_child_at)
  show ?thesis
    unfolding reap_zombie [OF ok z]
  proof (rule hub_okI, goal_cases)
    case (1 q n)
    then show ?case using hub_reg [OF ok, of q n] z idle c [of n] by (auto split: if_splits)
  next
    case (2 q n)
    then show ?case using hub_child [OF ok, of q n] z idle c [of n] by (auto split: if_splits)
  next
    case (3 q d st')
    then show ?case using hub_zombie_pid [OF ok, of q d st'] z idle c by (auto split: if_splits)
  next
    case (4 q n st')
    then show ?case using hub_zombie [OF ok, of q n st'] z idle c [of n] hub_child [OF ok, of q n] runs_child_at [of s q _ n] by (auto split: if_splits)
  next
    case (5 q n)
    then show ?case using hub_running [OF ok, of q n] z idle c [of n] by (auto split: if_splits)
  next
    case (6 n st')
    then show ?case using hub_pending [OF ok, of st' n] z idle c [of n] hub_child [OF ok, of p n] hub_zombie [OF ok, of p n st] hub_unset [OF ok, of p n] hub_child [OF ok, of _ n]  by (auto split: if_splits)
  next
    case (7 n st')
    then show ?case using hub_slot [OF ok, of n st'] z idle c [of n] by (auto split: if_splits)
  next
    case (8 n)
    then show ?case using hub_fresh [OF ok, of n] z idle c [of n] by (auto split: if_splits)
  next
    case (9 n)
    then consider p where "runs_child s p n" | st where "hb_pending s = Some (st, Some n)" | "hb_slots s n \<noteq> None"
      using hub_found [OF ok, of n] by (auto split: if_splits)
    then show ?case using 9 z idle c [of n] by cases (auto, (metis+)?)
  qed
qed

interpretation hub: machine "\<lambda>s. s = hub_start" hub_step hub_ok
proof (unfold_locales, goal_cases)
  case (1 s)
  then show ?case by (simp add: hub_ok_start)
next
  case (2 s t)
  then show ?case
    by (auto elim!: hub_stepE simp: hub_ok_spawn hub_ok_stray hub_ok_exit hub_ok_reap hub_ok_deliver hub_ok_release)
qed


subsection \<open>Delivered once, truly, and never lost\<close>

lemma hub_ok_reach: "hub_step\<^sup>*\<^sup>* hub_start s \<Longrightarrow> hub_ok s"
  by (rule hub.reachable_inv) simp_all

lemma reap_slots [simp]: "hb_slots (reap s p) = hb_slots s" "hb_exit (reap s p) = hb_exit s"
  "hb_live (reap s p) = hb_live s" "hb_next (reap s p) = hb_next s" "hb_pid (reap s p) = hb_pid s"
  by (auto simp: reap_def waitpid_def Let_def split: option.split proc.split)

lemma deliver_simps [simp]: "hb_pending (deliver_waiter s) = None" "hb_exit (deliver_waiter s) = hb_exit s"
  "hb_live (deliver_waiter s) = hb_live s" "hb_procs (deliver_waiter s) = hb_procs s"
  "hb_next (deliver_waiter s) = hb_next s" "hb_pid (deliver_waiter s) = hb_pid s" "hb_reg (deliver_waiter s) = hb_reg s"
  by (auto simp: deliver_waiter_def split: option.split)

lemma slot_stays: "hub_step s t \<Longrightarrow> hub_ok s \<Longrightarrow> hb_slots s n = Some st \<Longrightarrow> hb_slots t n = Some st"
  by (auto elim!: hub_stepE simp: deliver_waiter_def split: option.split) (drule hub_pending, assumption, simp)

lemma exit_stays: "hub_step s t \<Longrightarrow> hub_ok s \<Longrightarrow> hb_exit s n = Some st \<Longrightarrow> hb_exit t n = Some st"
  by (auto elim!: hub_stepE) (drule hub_running, assumption, simp)

lemma slots_stay: "hub_step\<^sup>*\<^sup>* s t \<Longrightarrow> hub_ok s \<Longrightarrow> hb_slots s n = Some st \<Longrightarrow> hb_slots t n = Some st"
  by (erule hub.stays) (auto intro: slot_stays)

lemma exits_stay: "hub_step\<^sup>*\<^sup>* s t \<Longrightarrow> hub_ok s \<Longrightarrow> hb_exit s n = Some st \<Longrightarrow> hb_exit t n = Some st"
  by (erule hub.stays) (auto intro: exit_stays)

lemma status_true: "hub_ok s \<Longrightarrow> handle_status s h = Some st \<Longrightarrow> hb_exit s (h_waiter h) = Some st"
  by (auto simp: handle_status_def dest: hub_slot)

subsection \<open>A whole pass\<close>

lemma reap_each_steps: "hb_pending s = None \<Longrightarrow>
    hub_step\<^sup>*\<^sup>* s (reap_each ps s) \<and> hb_pending (reap_each ps s) = None"
proof (induction ps arbitrary: s)
  case (Cons p ps)
  have "hub_step s (reap s p)" "hub_step (reap s p) (deliver_waiter (reap s p))"
    using Cons.prems by (auto intro: hub_step.intros)
  then show ?case
    using Cons.IH [of "deliver_waiter (reap s p)"] by (auto intro: converse_rtranclp_into_rtranclp)
qed simp

lemma tick_steps: "hb_pending s = None \<Longrightarrow>
    hub_step\<^sup>*\<^sup>* s (reaper_tick ready order s) \<and> hb_pending (reaper_tick ready order s) = None"
  unfolding reaper_tick_def using reap_each_steps [of s ready] reap_each_steps [of "reap_each ready s" order]
  by (auto intro: rtranclp_trans)

lemma reap_each_keeps: "hb_exit (reap_each ps s) = hb_exit s" "hb_live (reap_each ps s) = hb_live s"
  by (induction ps arbitrary: s) simp_all

definition is_zombie :: "hub \<Rightarrow> pid \<Rightarrow> bool" where
  "is_zombie s p \<longleftrightarrow> (\<exists>c st. hb_procs s p = Some (Zombie c st))"

lemma reap_zombies: "is_zombie (reap s p) q \<longleftrightarrow> is_zombie s q \<and> q \<noteq> p"
  by (auto simp: is_zombie_def reap_def waitpid_def Let_def split: option.split proc.split)

lemma reap_each_zombies: "is_zombie (reap_each ps s) q \<longleftrightarrow> is_zombie s q \<and> q \<notin> set ps"
  by (induction ps arbitrary: s) (auto simp: reap_zombies is_zombie_def [of "deliver_waiter _"] simp flip: is_zombie_def)

lemma tick_delivers:
  assumes ok: "hub_ok s" and idle: "hb_pending s = None" and order: "\<And>p. is_zombie s p \<Longrightarrow> p \<in> set order"
    and live: "hb_live s n" and dead: "hb_exit s n = Some st"
  shows "hb_slots (reaper_tick ready order s) n = Some st"
proof -
  let ?t = "reaper_tick ready order s"
  have t: "hub_ok ?t" "hb_pending ?t = None"
    using tick_steps [OF idle] hub.steps_inv [OF _ ok] by blast+
  have kept: "hb_exit ?t = hb_exit s" "hb_live ?t = hb_live s"
    by (simp_all add: reaper_tick_def reap_each_keeps)
  have "\<not> runs_child ?t p n" for p
  proof
    assume r: "runs_child ?t p n"
    then obtain x where x: "hb_procs ?t p = Some x" "child_of_proc x = Some n"
      by (auto simp: runs_child_def)
    have "\<not> is_zombie ?t p"
      using order by (auto simp: reaper_tick_def reap_each_zombies)
    with x have "hb_procs ?t p = Some (Running (Some n))"
      by (cases x) (auto simp: is_zombie_def)
    then show False
      using hub_running [OF t(1)] dead kept by simp
  qed
  with hub_found [OF t(1), of n] live kept t(2) obtain st' where "hb_slots ?t n = Some st'"
    by auto
  with hub_slot [OF t(1)] kept dead show ?thesis
    by auto
qed

subsection \<open>Signals\<close>

text \<open>\<open>h\<close> is the handle \<open>spawn\<close> returned for its waiter.\<close>

definition handle_ok :: "hub \<Rightarrow> handle \<Rightarrow> bool" where
  "handle_ok s h \<longleftrightarrow> h_waiter h < hb_next s \<and> hb_pid s (h_waiter h) = h_pid h"

lemma signal_registered: "hub_ok s \<Longrightarrow> signal_target s h = Some x \<Longrightarrow> \<exists>n. child_of_proc x = Some n"
  by (auto simp: signal_target_def hub_reg runs_child_def split: if_splits)

lemma signal_own:
  assumes "hub_ok s" "handle_ok s h" "with_proc s (h_waiter h)"
  shows "signal_target s h = hb_procs s (h_pid h) \<and> runs_child s (h_pid h) (h_waiter h)"
proof -
  obtain p where p: "runs_child s p (h_waiter h)"
    using assms(3) by (auto simp: with_proc_def)
  then have "p = h_pid h"
    using hub_child [OF assms(1)] assms(2) by (auto simp: handle_ok_def)
  with p have "hb_reg s (h_pid h) = Some (h_waiter h)"
    using hub_reg [OF assms(1)] by simp
  with p \<open>p = h_pid h\<close> show ?thesis
    by (simp add: signal_target_def)
qed

text \<open>A handle whose child is reaped signals whichever registered child has its pid now.\<close>

definition stale_hub :: hub where
  "stale_hub = spawned (deliver_waiter (reap (proc_exit (spawned hub_start 5) 5 (Some 0) (Exited 5 0)) 5)) 5"

lemma stale_reach: "hub_step\<^sup>*\<^sup>* hub_start stale_hub"
proof -
  let ?a = "spawned hub_start 5"
  let ?b = "proc_exit ?a 5 (Some 0) (Exited 5 0)"
  have a: "hub_step hub_start ?a"
    by (rule hub_step.Spawn) (simp_all add: hub_start_def)
  have b: "hub_step ?a ?b"
    by (rule hub_step.Exit) (simp_all add: hub_start_def ws_pid_def)
  have c: "hub_step ?b (reap ?b 5)"
    by (rule hub_step.Reap) (simp add: hub_start_def)
  have d: "hub_step (reap ?b 5) (deliver_waiter (reap ?b 5))"
    by (rule hub_step.Deliver)
  have e: "hub_step (deliver_waiter (reap ?b 5)) stale_hub"
    unfolding stale_hub_def
    by (rule hub_step.Spawn) (simp_all add: reap_def waitpid_def ws_pid_def Let_def)
  show ?thesis
    by (rule converse_rtranclp_into_rtranclp [OF a converse_rtranclp_into_rtranclp [OF b converse_rtranclp_into_rtranclp
      [OF c converse_rtranclp_into_rtranclp [OF d r_into_rtranclp [of hub_step, OF e]]]]])
qed

lemma stale_hub_facts: "hb_slots stale_hub 0 = Some (Exited 5 0)" "handle_ok stale_hub \<lparr>h_pid = 5, h_waiter = 0\<rparr>"
  "signal_target stale_hub \<lparr>h_pid = 5, h_waiter = 0\<rparr> = Some (Running (Some 1))"
  by (simp_all add: stale_hub_def reap_def waitpid_def ws_pid_def Let_def deliver_waiter_def hub_start_def
      handle_ok_def signal_target_def)

end
