(* ===== verification/Dotenv.thy ===== *)
theory Dotenv
  imports Schema World
begin

text \<open>
  \<open>config/dotenv.rs\<close>: the strict dotenv file. The \<open>dotenvy\<close> parser is a third-party
  crate: the parameter \<open>dotenvy\<close> gives, for the file's text, the items its iterator yields.
\<close>

datatype dot_error = LineParse | OtherDot

type_synonym dot_item = "dot_error + string \<times> string"

record file_config =
  fc_knobs :: "(string, string) btree"
  fc_child :: "(string, string) btree"
  fc_invalid :: "string list"
  fc_fatal :: "io_error option"

definition fc_default :: file_config where
  "fc_default = \<lparr>fc_knobs = [], fc_child = [], fc_invalid = [], fc_fatal = None\<rparr>"

definition ENV_NAME :: string where
  "ENV_NAME = ''SUPERVISOR_ENV_FILE''"

text \<open>One parsed entry: exactly one of the three destinations.\<close>

definition route_entry :: "file_config \<Rightarrow> string \<Rightarrow> string \<Rightarrow> file_config" where
  "route_entry cfg k v =
     (if is_supervisor_consumed k then
        (case file_policy k of
           Some File \<Rightarrow> cfg\<lparr>fc_knobs := bt_insert k v (fc_knobs cfg)\<rparr>
         | Some Legacy \<Rightarrow> cfg\<lparr>fc_knobs := bt_insert k v (fc_knobs cfg)\<rparr>
         | Some ProcessOnly \<Rightarrow> cfg\<lparr>fc_invalid := fc_invalid cfg @ [k]\<rparr>
         | None \<Rightarrow> cfg\<lparr>fc_invalid := fc_invalid cfg @ [k]\<rparr>)
      else case vaultwarden_key k of
        Some stripped \<Rightarrow>
          if is_supervisor_key stripped then cfg\<lparr>fc_invalid := fc_invalid cfg @ [k]\<rparr>
          else cfg\<lparr>fc_child := bt_insert stripped v (fc_child cfg)\<rparr>
      | None \<Rightarrow> cfg\<lparr>fc_invalid := fc_invalid cfg @ [k]\<rparr>)"

fun load_items :: "file_config \<Rightarrow> dot_item list \<Rightarrow> file_config" where
  "load_items cfg [] = cfg"
| "load_items cfg (Inr (k, v) # items) = load_items (route_entry cfg k v) items"
| "load_items cfg (Inl _ # items) = load_items cfg items"

definition BOM :: string where
  "BOM = [CHR 0xEF, CHR 0xBB, CHR 0xBF]"

definition load_from :: "(string \<Rightarrow> dot_item list) \<Rightarrow> string option \<Rightarrow> ('e world, file_config) state" where
  "load_from dotenvy path = (case path of
     None \<Rightarrow> ret fc_default
   | Some p \<Rightarrow> do {
       r \<leftarrow> fs_read_to_string p;
       ret (case r of
         Inl e \<Rightarrow> fc_default\<lparr>fc_fatal := Some e\<rparr>
       | Inr raw \<Rightarrow>
           let raw = (case strip_prefix BOM raw of Some r \<Rightarrow> r | None \<Rightarrow> raw)
           in load_items fc_default (dotenvy raw)) })"

definition load :: "(string \<Rightarrow> dot_item list) \<Rightarrow> (string \<Rightarrow> string option) \<Rightarrow>
    ('e world, file_config) state" where
  "load dotenvy var = (case var ENV_NAME of
     Some p \<Rightarrow> if p \<noteq> [] then load_from dotenvy (Some p) else ret fc_default
   | None \<Rightarrow> ret fc_default)"

subsection \<open>Where an entry may land\<close>

text \<open>The keys the three parts of a file configuration may hold.\<close>

definition fc_ok :: "file_config \<Rightarrow> bool" where
  "fc_ok cfg \<longleftrightarrow>
     (\<forall>k. bt_get (fc_knobs cfg) k \<noteq> None \<longrightarrow>
        is_supervisor_consumed k \<and> file_policy k \<in> {Some File, Some Legacy}) \<and>
     (\<forall>k. bt_get (fc_child cfg) k \<noteq> None \<longrightarrow>
        k \<noteq> [] \<and> \<not> is_supervisor_key k \<and> \<not> is_supervisor_consumed (''VAULTWARDEN_'' @ k)) \<and>
     bt_ok (fc_knobs cfg) \<and> bt_ok (fc_child cfg)"

lemma fc_ok_default: "fc_ok fc_default"
  by (simp add: fc_ok_def fc_default_def bt_ok_def)

lemma fc_ok_knob: "fc_ok cfg \<Longrightarrow> is_supervisor_consumed k \<Longrightarrow> file_policy k \<in> {Some File, Some Legacy} \<Longrightarrow>
    fc_ok (cfg\<lparr>fc_knobs := bt_insert k v (fc_knobs cfg)\<rparr>)"
  by (simp add: fc_ok_def bt_ok_insert)

lemma fc_ok_invalid: "fc_ok cfg \<Longrightarrow> fc_ok (cfg\<lparr>fc_invalid := ks\<rparr>)"
  by (simp add: fc_ok_def)

lemma fc_ok_child: "fc_ok cfg \<Longrightarrow> vaultwarden_key k = Some s \<Longrightarrow> \<not> is_supervisor_key s \<Longrightarrow>
    \<not> is_supervisor_consumed k \<Longrightarrow> fc_ok (cfg\<lparr>fc_child := bt_insert s v (fc_child cfg)\<rparr>)"
  by (simp add: fc_ok_def bt_ok_insert vaultwarden_key_Some del: append_Cons append_Nil)

lemma route_entry_ok: "fc_ok cfg \<Longrightarrow> fc_ok (route_entry cfg k v)"
  unfolding route_entry_def
  by (auto intro!: fc_ok_knob fc_ok_invalid intro: fc_ok_child split: option.split knob_policy.split)

lemma load_items_ok: "fc_ok cfg \<Longrightarrow> fc_ok (load_items cfg items)"
  by (induction cfg items rule: load_items.induct) (simp_all add: route_entry_ok)

lemma route_entry_fatal [simp]: "fc_fatal (route_entry cfg k v) = fc_fatal cfg"
  by (auto simp: route_entry_def split: option.splits knob_policy.splits)

lemma load_items_fatal [simp]: "fc_fatal (load_items cfg items) = fc_fatal cfg"
  by (induction cfg items rule: load_items.induct) simp_all

text \<open>A key no namespace accepts is never dropped: it is named in \<open>fc_invalid\<close>.\<close>

definition accepted :: "string \<Rightarrow> bool" where
  "accepted k \<longleftrightarrow>
     (if is_supervisor_consumed k then file_policy k \<in> {Some File, Some Legacy}
      else case vaultwarden_key k of Some s \<Rightarrow> \<not> is_supervisor_key s | None \<Rightarrow> False)"

lemma route_entry_invalid:
  "fc_invalid (route_entry cfg k v) = fc_invalid cfg @ (if accepted k then [] else [k])"
  by (auto simp: route_entry_def accepted_def split: option.splits knob_policy.splits)

lemma load_items_invalid: "fc_invalid (load_items cfg items) =
    fc_invalid cfg @ filter (\<lambda>k. \<not> accepted k) (List.map_filter (\<lambda>x. case x of Inr (k, v) \<Rightarrow> Some k | Inl _ \<Rightarrow> None) items)"
  by (induction cfg items rule: load_items.induct) (simp_all add: route_entry_invalid)

lemma load_from_cases:
  assumes "run_state (load_from dotenvy path) w = (cfg, v)"
  shows "(\<exists>e. cfg = fc_default\<lparr>fc_fatal := Some e\<rparr>) \<or> (\<exists>items. cfg = load_items fc_default items)"
proof (cases path)
  case None
  with assms have "cfg = load_items fc_default []" by (simp add: load_from_def)
  then show ?thesis by blast
next
  case (Some p)
  with assms show ?thesis
    by (auto simp: load_from_def Let_def split: sum.splits prod.splits)
qed

end
