(* ===== verification/DbUrl.thy ===== *)
theory DbUrl
  imports RustStr
begin

text \<open>
  \<open>config/dburl.rs\<close>: the SQLite file a database URL names. A scheme-less value is the path; a
  \<open>sqlite://\<close> value is cut at the first \<open>?\<close> or \<open>#\<close>, percent-decoded once and truncated
  at a NUL, as SQLite does with diesel's \<open>file:\<close> URI.
\<close>

definition hex_value :: "char \<Rightarrow> nat option" where
  "hex_value b =
     (if CHR ''0'' \<le> b \<and> b \<le> CHR ''9'' then Some (of_char b - of_char (CHR ''0''))
      else if CHR ''a'' \<le> b \<and> b \<le> CHR ''f'' then Some (of_char b - of_char (CHR ''a'') + 10)
      else if CHR ''A'' \<le> b \<and> b \<le> CHR ''F'' then Some (of_char b - of_char (CHR ''A'') + 10)
      else None)"

text \<open>The two hex digits after a \<open>%\<close>, if both are ones.\<close>

definition escape_at :: "char \<Rightarrow> char \<Rightarrow> nat option" where
  "escape_at h l = (case (hex_value h, hex_value l) of
     (Some hi, Some lo) \<Rightarrow> Some (hi * 16 + lo) | _ \<Rightarrow> None)"

text \<open>The decoding loop: the two arms are the \<open>%HH\<close> case and the literal byte.\<close>

fun uri_decode :: "string \<Rightarrow> string" where
  "uri_decode (b # h # l # s) =
     (case (if b = CHR ''%'' then escape_at h l else None) of
        Some decoded \<Rightarrow> if decoded = 0 then [] else char_of decoded # uri_decode s
      | None \<Rightarrow> if b = CHR 0x00 then [] else b # uri_decode (h # l # s))"
| "uri_decode (b # s) = (if b = CHR 0x00 then [] else b # uri_decode s)"
| "uri_decode [] = []"

definition sqlite_uri_path :: "string \<Rightarrow> string" where
  "sqlite_uri_path rest =
     (let out = uri_decode (takeWhile (\<lambda>c. c \<noteq> CHR ''?'' \<and> c \<noteq> CHR ''#'') rest)
      in if utf8_ok out then out else [])"

definition sqlite_path :: "string \<Rightarrow> string option" where
  "sqlite_path raw0 = (let raw = trim raw0 in
     if raw = [] then None
     else case (case split_once ''://'' raw of
         Some (s, rest) \<Rightarrow> if s = ''sqlite'' then Some (sqlite_uri_path rest) else None
       | None \<Rightarrow> Some raw) of
       None \<Rightarrow> None
     | Some path \<Rightarrow> if path \<noteq> [] then Some path else None)"

subsection \<open>Decoding\<close>

lemma of_char_nul: "of_char c = (0::nat) \<longleftrightarrow> c = CHR 0x00"
  using of_char_eq_iff [of c "CHR 0x00", where 'a = nat] by simp

lemma hex_value_bound: "hex_value b = Some n \<Longrightarrow> n < 16"
  by (auto simp: hex_value_def less_eq_char_def split: if_splits)

lemma escape_at_bound: "escape_at h l = Some d \<Longrightarrow> d < 256"
  using hex_value_bound [of h] hex_value_bound [of l]
  by (fastforce simp: escape_at_def split: option.splits)

lemma decoded_not_nul:
  assumes "escape_at h l = Some d" and "d \<noteq> 0"
  shows "char_of d \<noteq> CHR 0x00"
proof -
  have "of_char (char_of d :: char) = d"
    using escape_at_bound [OF assms(1)] by simp
  with assms(2) show ?thesis
    by (metis of_char_nul)
qed

lemma uri_decode_no_nul: "CHR 0x00 \<notin> set (uri_decode s)"
  by (induction s rule: uri_decode.induct)
    (auto dest: decoded_not_nul [symmetric] split: option.splits if_splits)

lemma uri_decode_plain:
  "CHR ''%'' \<notin> set s \<Longrightarrow> CHR 0x00 \<notin> set s \<Longrightarrow> uri_decode s = s"
  by (induction s rule: uri_decode.induct) auto

text \<open>An encoder that escapes every byte, to state that decoding inverts it.\<close>

definition hex_digit :: "nat \<Rightarrow> char" where
  "hex_digit n = (if n < 10 then char_of (48 + n) else char_of (87 + n))"

definition uri_escape :: "string \<Rightarrow> string" where
  "uri_escape s = concat (map (\<lambda>c. [CHR ''%'', hex_digit (of_char c div 16), hex_digit (of_char c mod 16)]) s)"

lemma hex_value_digit: "n < 16 \<Longrightarrow> hex_value (hex_digit n) = Some n"
  by (auto simp: hex_value_def hex_digit_def less_eq_char_def)

lemma uri_decode_escape: "CHR 0x00 \<notin> set s \<Longrightarrow> uri_decode (uri_escape s) = s"
proof (induction s)
  case Nil
  then show ?case by (simp add: uri_escape_def)
next
  case (Cons c s)
  have "(of_char c :: nat) < 16 * 16"
    using nat_of_char_less_256 [of c] by simp
  then have "(of_char c :: nat) div 16 < 16"
    by (rule less_mult_imp_div_less)
  moreover have "of_char c \<noteq> (0::nat)"
    using Cons.prems by (auto simp: of_char_nul)
  ultimately show ?case
    using Cons by (simp add: uri_escape_def escape_at_def hex_value_digit)
qed

lemma hex_digit_plain: "n < 16 \<Longrightarrow> hex_digit n \<noteq> CHR ''?'' \<and> hex_digit n \<noteq> CHR ''#''"
  using hex_value_digit [of n] by (auto simp: hex_value_def less_eq_char_def)

lemma uri_escape_plain: "CHR ''?'' \<notin> set (uri_escape s) \<and> CHR ''#'' \<notin> set (uri_escape s)"
proof (induction s)
  case (Cons c s)
  have "(of_char c :: nat) < 16 * 16"
    using nat_of_char_less_256 [of c] by simp
  then have "(of_char c :: nat) div 16 < 16"
    by (rule less_mult_imp_div_less)
  from hex_digit_plain [OF this] hex_digit_plain [of "of_char c mod 16"] Cons show ?case
    by (auto simp: uri_escape_def eq_commute [of "CHR ''?''"] eq_commute [of "CHR ''#''"])
qed (simp add: uri_escape_def)

end
