(* ===== verification/BackupConfig.thy ===== *)
theory BackupConfig
  imports SyncConfig DbUrl
begin

text \<open>
  \<open>config/backup\<close> (spec and resolve): the database backup settings, over the sync settings
  and the vault's database URL.
\<close>

record backup_config =
  bc_sync :: sync_config
  bc_db_path :: string
  bc_periodic :: bool
  bc_interval :: u64
  bc_keep :: nat
  bc_restore :: bool
  bc_staging :: string

definition backup_prefix :: "backup_config \<Rightarrow> string" where
  "backup_prefix c = sync_prefix (bc_sync c) @ ''db/''"

definition db_label :: string where "db_label = ''sqlite''"
definition db_ext :: string where "db_ext = ''sqlite3''"

text \<open>\<open>None\<close>: the URL names no SQLite file, so there is nothing to back up.\<close>

definition resolve_db_path :: "string option \<Rightarrow> string option" where
  "resolve_db_path db_url =
     (case non_empty (map_option trim db_url) of
        Some url \<Rightarrow> sqlite_path url
      | None \<Rightarrow> Some ''/data/db.sqlite3'')"

definition resolve_interval :: "string \<Rightarrow> u64" where
  "resolve_interval raw =
     (let s = parse_count raw BACKUP_INTERVAL_DEFAULT
      in if s = 0 then BACKUP_INTERVAL_DEFAULT
         else if s > MAX_INTERVAL_SECS then BACKUP_INTERVAL_DEFAULT
         else s)"

definition resolve_keep :: "string \<Rightarrow> u64" where
  "resolve_keep raw =
     (let k = parse_count raw BACKUP_KEEP_DEFAULT
      in if k = 0 then BACKUP_KEEP_DEFAULT
         else if k > MAX_BACKUP_KEEP then BACKUP_KEEP_DEFAULT
         else k)"

definition resolve_backup ::
    "knob_source \<Rightarrow> sync_config option \<Rightarrow> string option \<Rightarrow> backup_config option" where
  "resolve_backup knob sync db_url =
     (let periodic = parse_flag (knob ''SUPERVISOR_DB_BACKUP'' []) False;
          restore = parse_flag (knob ''SUPERVISOR_DB_BACKUP_RESTORE'' []) False
      in if \<not> periodic \<and> \<not> restore then None
         else case sync of
           None \<Rightarrow> None
         | Some sync \<Rightarrow>
             (case resolve_db_path db_url of
                None \<Rightarrow> None
              | Some db_path \<Rightarrow>
                  Some \<lparr>bc_sync = sync, bc_db_path = db_path, bc_periodic = periodic,
                    bc_interval = resolve_interval (knob ''SUPERVISOR_DB_BACKUP_INTERVAL'' []),
                    bc_keep = unat (resolve_keep (knob ''SUPERVISOR_DB_BACKUP_KEEP'' [])),
                    bc_restore = restore, bc_staging = BACKUP_STAGING\<rparr>))"

definition backup_config_ok :: "backup_config \<Rightarrow> bool" where
  "backup_config_ok c \<longleftrightarrow>
     0 < bc_interval c \<and> bc_interval c \<le> MAX_INTERVAL_SECS \<and>
     1 \<le> bc_keep c \<and> bc_keep c \<le> 1000 \<and> (bc_periodic c \<or> bc_restore c) \<and> bc_db_path c \<noteq> []"

lemma resolve_interval_bounds: "0 < resolve_interval raw \<and> resolve_interval raw \<le> MAX_INTERVAL_SECS"
  by (auto simp: resolve_interval_def Let_def config_consts word_gt_0 not_less)

lemma resolve_keep_bounds: "1 \<le> unat (resolve_keep raw) \<and> unat (resolve_keep raw) \<le> 1000"
proof -
  have "0 < k \<Longrightarrow> k \<le> 1000 \<Longrightarrow> 1 \<le> unat k \<and> unat k \<le> 1000" for k :: u64
    by (simp add: word_less_nat_alt word_le_nat_alt)
  then show ?thesis
    by (simp add: resolve_keep_def Let_def config_consts word_gt_0 not_less)
qed

lemma resolve_db_path_nonempty: "resolve_db_path u = Some p \<Longrightarrow> p \<noteq> []"
  by (auto simp: resolve_db_path_def sqlite_path_def Let_def split: option.splits if_splits)

lemma resolve_backup_ok: "resolve_backup knob sync url = Some c \<Longrightarrow>
    backup_config_ok c \<and> sync = Some (bc_sync c)"
  using resolve_interval_bounds resolve_keep_bounds resolve_db_path_nonempty [of url "bc_db_path c"]
  by (auto simp: resolve_backup_def backup_config_ok_def Let_def split: if_splits option.splits)

end
