(* ===== verification/ConfigMerge.thy ===== *)
theory ConfigMerge
  imports Dotenv BackupConfig
begin

text \<open>
  \<open>config/env/merge.rs\<close>: process environment, dotenv file and defaults merged into the
  configuration the supervisor runs with, or a refusal (\<open>None\<close>). The environment is the
  parameter \<open>lookup\<close>, as \<open>Config::build\<close> receives it.
\<close>

record config =
  cf_state :: string
  cf_socket :: string
  cf_port :: string
  cf_vault_port :: "string option"
  cf_hostname :: string
  cf_authkey :: "string option"
  cf_serve :: bool
  cf_service :: "string option"
  cf_userspace :: bool
  cf_sync :: "sync_config option"
  cf_backup :: "backup_config option"
  cf_vw_env :: "(string \<times> string) list"

type_synonym env_lookup = "string \<Rightarrow> string option"

text \<open>Environment before file: the first non-empty value.\<close>

definition env_or_file :: "file_config \<Rightarrow> env_lookup \<Rightarrow> string \<Rightarrow> string option" where
  "env_or_file file lookup key = (case non_empty (lookup key) of
     Some v \<Rightarrow> Some v | None \<Rightarrow> non_empty (bt_get (fc_knobs file) key))"

definition knob_value :: "file_config \<Rightarrow> env_lookup \<Rightarrow> knob_source" where
  "knob_value file lookup key dflt = (case env_or_file file lookup key of
     Some v \<Rightarrow> v | None \<Rightarrow> dflt)"

text \<open>\<open>schema::string_default\<close> panics on a key without one; the keys used here have one.\<close>

definition schema_value :: "file_config \<Rightarrow> env_lookup \<Rightarrow> string \<Rightarrow> string" where
  "schema_value file lookup key = knob_value file lookup key (the (string_default key))"

definition resolve_port :: "file_config \<Rightarrow> env_lookup \<Rightarrow> string" where
  "resolve_port file lookup = (case valid_port (lookup ''VAULTWARDEN_PORT'') of
     Some p \<Rightarrow> p
   | None \<Rightarrow> (case valid_port (bt_get (fc_knobs file) ''VAULTWARDEN_PORT'') of
       Some p \<Rightarrow> p | None \<Rightarrow> the (string_default ''VAULTWARDEN_PORT'')))"

definition resolve_vault_port :: "string \<Rightarrow> string option" where
  "resolve_vault_port port =
     map_option show_word (Option.bind (parse_u16 port) checked_inc)"

text \<open>The refusals that precede any resolution.\<close>

definition refused :: "file_config \<Rightarrow> env_lookup \<Rightarrow> bool" where
  "refused file lookup \<longleftrightarrow>
     fc_fatal file \<noteq> None
     \<or> non_empty (lookup ''VAULTWARDEN_ROCKET_PORT'') \<noteq> None
     \<or> non_empty (bt_get (fc_knobs file) ''VAULTWARDEN_ROCKET_PORT'') \<noteq> None
     \<or> ''ROCKET_PORT'' \<in> set (fc_invalid file)
     \<or> fc_invalid file \<noteq> []"

definition flag_value :: "file_config \<Rightarrow> env_lookup \<Rightarrow> string \<Rightarrow> bool" where
  "flag_value file lookup key = parse_flag (knob_value file lookup key []) (the (bool_default key))"

definition build :: "file_config \<Rightarrow> env_lookup \<Rightarrow> config option" where
  "build file lookup =
     (if refused file lookup then None
      else
        let port = resolve_port file lookup;
            knob = knob_value file lookup;
            sync = resolve_sync knob;
            db_url = (case non_empty (lookup ''VAULTWARDEN_DATABASE_URL'') of
                Some u \<Rightarrow> Some u | None \<Rightarrow> non_empty (bt_get (fc_child file) ''DATABASE_URL''));
            backup = resolve_backup knob sync db_url;
            authkey = non_empty (Some (knob ''TAILSCALE_AUTHKEY'' []));
            state = schema_value file lookup ''TAILSCALE_STATE_FILE''
        in if authkey = None \<and> sync = None then None
           else if state \<noteq> ''mem:'' \<and> \<not> prefix ''/'' state then None
           else Some \<lparr>
             cf_state = state,
             cf_socket = schema_value file lookup ''TAILSCALE_SOCKET'',
             cf_port = port,
             cf_vault_port = resolve_vault_port port,
             cf_hostname = schema_value file lookup ''TAILSCALE_HOSTNAME'',
             cf_authkey = authkey,
             cf_serve = flag_value file lookup ''TAILSCALE_SERVE'',
             cf_service = resolve_service (env_or_file file lookup ''TAILSCALE_SERVICE''),
             cf_userspace = flag_value file lookup ''TAILSCALE_USERSPACE'',
             cf_sync = map_option (set_state_file state) sync,
             cf_backup = backup,
             cf_vw_env = fc_child file\<rparr>)"

definition from_env :: "(string \<Rightarrow> dot_item list) \<Rightarrow> env_lookup \<Rightarrow> ('e world, config option) state" where
  "from_env dotenvy var = do { file \<leftarrow> load dotenvy var; ret (build file var) }"

subsection \<open>Lemmas\<close>

lemma resolve_port_valid:
  "\<exists>p. parse_u16 (resolve_port file lookup) = Some p \<and> p \<noteq> 0"
proof -
  have "parse_u16 ''8080'' = Some 8080"
    by (simp add: parse_u16_def parse_uint_def is_digit_def digits_val_def digit_val_def less_eq_char_def)
  then show ?thesis
    by (auto simp: resolve_port_def string_defaults valid_port_Some split: option.splits)
qed

lemma build_not_refused: "build file lookup = Some c \<Longrightarrow> \<not> refused file lookup"
  by (auto simp: build_def split: if_splits)

lemma env_or_file_env: "lookup key = Some v \<Longrightarrow> v \<noteq> [] \<Longrightarrow> env_or_file file lookup key = Some v"
  by (simp add: env_or_file_def non_empty_def)

lemma env_or_file_file:
  "non_empty (lookup key) = None \<Longrightarrow> env_or_file file lookup key = non_empty (bt_get (fc_knobs file) key)"
  by (simp add: env_or_file_def)

lemma knob_value_default:
  "env_or_file file lookup key = None \<Longrightarrow> knob_value file lookup key d = d"
  by (simp add: knob_value_def)

lemma build_cases:
  assumes "build file lookup = Some c"
  shows "cf_authkey c \<noteq> None \<or> cf_sync c \<noteq> None"
    and "cf_state c = ''mem:'' \<or> prefix ''/'' (cf_state c)"
    and "cf_port c = resolve_port file lookup"
    and "cf_vault_port c = resolve_vault_port (resolve_port file lookup)"
    and "cf_vw_env c = fc_child file"
    and "cf_sync c = map_option (set_state_file (cf_state c)) (resolve_sync (knob_value file lookup))"
    and "\<exists>u. cf_backup c = resolve_backup (knob_value file lookup) (resolve_sync (knob_value file lookup)) u"
  using assms by (auto simp: build_def Let_def split: if_splits)

lemma build_fields:
  assumes "build file lookup = Some c"
  shows "cf_socket c = schema_value file lookup ''TAILSCALE_SOCKET''"
    and "cf_hostname c = schema_value file lookup ''TAILSCALE_HOSTNAME''"
    and "cf_authkey c = non_empty (Some (knob_value file lookup ''TAILSCALE_AUTHKEY'' []))"
  using assms by (auto simp: build_def Let_def split: if_splits)

lemma knob_value_cases: "knob_value file lookup key d = (case non_empty (lookup key) of Some v \<Rightarrow> v
    | None \<Rightarrow> (case non_empty (bt_get (fc_knobs file) key) of Some v \<Rightarrow> v | None \<Rightarrow> d))"
  by (simp add: knob_value_def env_or_file_def split: option.split)

lemma non_empty_knob: "non_empty (Some (knob_value file lookup key [])) = (case non_empty (lookup key) of Some v \<Rightarrow> Some v
    | None \<Rightarrow> non_empty (bt_get (fc_knobs file) key))"
  using non_empty_Some by (fastforce simp: knob_value_cases non_empty_def split: option.split)

lemma load_ok: "run_state (load dotenvy var) w = (file, v) \<Longrightarrow> fc_ok file"
proof -
  have d: "fc_ok (fc_default\<lparr>fc_fatal := e\<rparr>)" for e
    using fc_ok_default by (simp add: fc_ok_def)
  show "fc_ok file" if "run_state (load dotenvy var) w = (file, v)"
    using that fc_ok_default
    by (auto simp: load_def d load_items_ok dest!: load_from_cases split: option.splits if_splits)
qed

lemma from_env_child: "run_state (from_env dotenvy var) w = (Some c, v) \<Longrightarrow> bt_get (cf_vw_env c) k \<noteq> None \<Longrightarrow>
    \<not> is_supervisor_key k"
  by (auto simp: from_env_def build_cases(5) fc_ok_def dest!: load_ok split: prod.splits)

end
