(* ===== verification/ChildEnv.thy ===== *)
theory ChildEnv
  imports ConfigMerge
begin

text \<open>
  \<open>runtime/process/env.rs\<close>, the environment policy of \<open>runtime/process/run.rs\<close> and the
  grant of \<open>runtime/services/vaultwarden.rs\<close>: what environment a child gets. The process
  environment (\<open>env::vars_os\<close>) is the parameter \<open>ambient\<close>, a list of byte strings. The
  lemmas compute the value of every key of the vault's environment.
\<close>

subsection \<open>Grants\<close>

type_synonym env_grant = "(string, string) btree"

definition grant_layer :: "env_grant \<Rightarrow> (string \<times> string) list \<Rightarrow> env_grant" where
  "grant_layer g vars = foldl (\<lambda>m (k, v). bt_insert k v m) g vars"

definition grant_pin :: "env_grant \<Rightarrow> string \<Rightarrow> string \<Rightarrow> env_grant" where
  "grant_pin g k v = bt_insert k v g"

text \<open>\<open>env_clear\<close>, then one \<open>env\<close> call per granted key: nothing inherited stays.\<close>

definition apply_grant :: "env_grant \<Rightarrow> env_grant \<Rightarrow> env_grant" where
  "apply_grant g inherited = foldl (\<lambda>m (k, v). bt_insert k v m) [] g"

lemma grant_layer_get: "bt_get (grant_layer g vars) k =
    (case map_of (rev vars) k of Some v \<Rightarrow> Some v | None \<Rightarrow> bt_get g k)"
  by (simp add: grant_layer_def bt.look_fold)

lemma grant_pin_get [simp]: "bt_get (grant_pin g k v) k' = (if k' = k then Some v else bt_get g k')"
  by (simp add: grant_pin_def)

lemma grant_ok: "bt_ok g \<Longrightarrow> bt_ok (grant_layer g vars)" "bt_ok g \<Longrightarrow> bt_ok (grant_pin g k v)"
  by (simp_all add: grant_layer_def grant_pin_def bt.ok_fold bt_ok_insert)

lemma apply_grant_exact: "bt_ok g \<Longrightarrow> apply_grant g inherited = g"
  by (simp add: apply_grant_def bt_rebuild)

subsection \<open>Helper children: an allow list\<close>

definition BASELINE_ENV :: "string list" where
  "BASELINE_ENV = [''HTTP_PROXY'', ''HTTPS_PROXY'', ''ALL_PROXY'', ''NO_PROXY'', ''http_proxy'',
     ''https_proxy'', ''all_proxy'', ''no_proxy'', ''SSL_CERT_FILE'', ''SSL_CERT_DIR'', ''TZ'']"

definition allowlisted :: "(string \<times> string) list \<Rightarrow> (string \<times> string) list" where
  "allowlisted vars = filter (\<lambda>(k, v). k \<in> set BASELINE_ENV) vars"

definition apply_env :: "(string \<times> string) list \<Rightarrow> env_grant \<Rightarrow> (string \<times> string) list \<Rightarrow> env_grant" where
  "apply_env ambient inherited extra = apply_grant
     (grant_layer (grant_layer [] (allowlisted
        (map (\<lambda>(k, v). (k, utf8_lossy v)) (filter (\<lambda>(k, v). utf8_ok k) ambient)))) extra) inherited"

subsection \<open>The vault: default deny\<close>

definition WEB_VAULT_INDEX :: string where
  "WEB_VAULT_INDEX = ''/web-vault/index.html''"

definition web_vault_flag :: "string \<Rightarrow> ('e world, (string \<times> string) option) state" where
  "web_vault_flag index = do {
     there \<leftarrow> fs_exists index;
     ret (if there then None else Some (''WEB_VAULT_ENABLED'', ''false'')) }"

definition IMAGE_DEFAULTS :: "(string \<times> string) list" where
  "IMAGE_DEFAULTS = [(''ORG_ATTACHMENT_LIMIT'', ''0''), (''USER_ATTACHMENT_LIMIT'', ''0''),
     (''ORG_CREATION_USERS'', ''all''), (''SIGNUPS_ALLOWED'', ''true''), (''TZ'', ''UTC''),
     (''ENABLE_DB_WAL'', ''true'')]"

definition ambient_key :: "string \<Rightarrow> string option" where
  "ambient_key key =
     (if \<not> utf8_ok key then None
      else if is_supervisor_consumed key then None
      else case vaultwarden_key key of None \<Rightarrow> None
      | Some stripped \<Rightarrow> if is_supervisor_key stripped then None else Some stripped)"

definition file_layer :: "(string \<times> string) list \<Rightarrow> (string \<times> string) list" where
  "file_layer vars = filter (\<lambda>(k, v). v \<noteq> []) vars"

definition ambient_layer :: "(string \<times> string) list \<Rightarrow> (string \<times> string) list" where
  "ambient_layer vars = List.map_filter (\<lambda>(k, v). case ambient_key k of None \<Rightarrow> None
     | Some key \<Rightarrow> if v \<noteq> [] then Some (key, v) else None) vars"

definition granted_env :: "(string \<times> string) list \<Rightarrow> (string \<times> string) list \<Rightarrow> string \<Rightarrow>
    ('e world, env_grant) state" where
  "granted_env ambient vars vault_port = do {
     let grant = grant_layer (grant_layer (grant_layer [] IMAGE_DEFAULTS) (file_layer vars)) (ambient_layer ambient);
     flag \<leftarrow> web_vault_flag WEB_VAULT_INDEX;
     let grant = (case flag of Some (key, v) \<Rightarrow> grant_pin grant key v | None \<Rightarrow> grant);
     ret (grant_pin (grant_pin (grant_pin (grant_pin grant ''ROCKET_PORT'' vault_port)
       ''ROCKET_ADDRESS'' ''127.0.0.1'') ''DATA_FOLDER'' ''/data'') ''WEB_VAULT_FOLDER'' ''/web-vault'') }"

subsection \<open>The value of every key\<close>

definition vault_pins :: "string \<Rightarrow> string \<Rightarrow> string option" where
  "vault_pins vault_port k =
     (if k = ''ROCKET_PORT'' then Some vault_port
      else if k = ''ROCKET_ADDRESS'' then Some ''127.0.0.1''
      else if k = ''DATA_FOLDER'' then Some ''/data''
      else if k = ''WEB_VAULT_FOLDER'' then Some ''/web-vault'' else None)"

text \<open>The last usable value a list of variables gives the stripped key \<open>k\<close>.\<close>

definition vault_setting :: "(string \<times> string) list \<Rightarrow> string \<Rightarrow> string option" where
  "vault_setting ambient k = (if k = [] \<or> is_supervisor_key k \<or> is_supervisor_consumed (''VAULTWARDEN_'' @ k) then None
     else map_of (rev (filter (\<lambda>(q, v). utf8_ok q \<and> v \<noteq> []) ambient)) (''VAULTWARDEN_'' @ k))"

lemma ambient_key_Some: "ambient_key q = Some k \<longleftrightarrow> q = ''VAULTWARDEN_'' @ k \<and> k \<noteq> [] \<and> utf8_ok q \<and>
    \<not> is_supervisor_key k \<and> \<not> is_supervisor_consumed q"
  using vaultwarden_key_Some [of q k] unfolding ambient_key_def
  by (auto split: if_splits option.splits simp del: append_Cons append_Nil)

lemma ambient_layer_Nil [simp]: "ambient_layer [] = []"
  by (simp add: ambient_layer_def)

lemma ambient_layer_Cons [simp]: "ambient_layer ((q, v) # vars) =
    (case ambient_key q of None \<Rightarrow> [] | Some k \<Rightarrow> if v \<noteq> [] then [(k, v)] else []) @ ambient_layer vars"
  by (simp add: ambient_layer_def split: option.split)

lemma ambient_layer_get: "map_of (rev (ambient_layer ambient)) k = vault_setting ambient k"
proof (induction ambient)
  case Nil
  then show ?case by (simp add: vault_setting_def)
next
  case (Cons e vars)
  obtain q v where e: "e = (q, v)" by (cases e)
  show ?case
  proof (cases "ambient_key q = Some k \<and> v \<noteq> []")
    case True
    then have q: "q = ''VAULTWARDEN_'' @ k" "k \<noteq> []" "utf8_ok q" "\<not> is_supervisor_key k" "\<not> is_supervisor_consumed q"
      by (auto simp: ambient_key_Some simp del: append_Cons append_Nil)
    have "vault_setting ((q, v) # vars) k = (case vault_setting vars k of None \<Rightarrow> Some v | Some u \<Rightarrow> Some u)"
      using True q(2-5) unfolding vault_setting_def q(1) [symmetric]
      by (simp add: map_add_def split: option.split)
    with True show ?thesis
      by (simp add: e Cons map_add_def split: option.split)
  next
    case False
    then have "vault_setting ((q, v) # vars) k = vault_setting vars k"
      by (auto simp: vault_setting_def ambient_key_Some map_add_def split: option.split simp del: append_Cons append_Nil)
    moreover have "map_of (rev (ambient_layer ((q, v) # vars))) k = map_of (rev (ambient_layer vars)) k"
      using False by (auto simp: map_add_def split: option.splits)
    ultimately show ?thesis
      by (simp add: e Cons)
  qed
qed

lemma granted_env_get:
  assumes "run_state (granted_env ambient vars vault_port) w = (g, v)"
  shows "bt_get g k = (case vault_pins vault_port k of Some x \<Rightarrow> Some x | None \<Rightarrow>
     if k = ''WEB_VAULT_ENABLED'' \<and> \<not> fst (run_state (fs_exists WEB_VAULT_INDEX) w) then Some ''false''
     else case vault_setting ambient k of Some x \<Rightarrow> Some x
     | None \<Rightarrow> (case map_of (rev (file_layer vars)) k of Some x \<Rightarrow> Some x
       | None \<Rightarrow> map_of (rev IMAGE_DEFAULTS) k))"
proof -
  let ?base = "grant_layer (grant_layer (grant_layer [] IMAGE_DEFAULTS) (file_layer vars)) (ambient_layer ambient)"
  let ?there = "fst (run_state (fs_exists WEB_VAULT_INDEX) w)"
  have "g = grant_pin (grant_pin (grant_pin (grant_pin (if ?there then ?base else grant_pin ?base ''WEB_VAULT_ENABLED'' ''false'')
      ''ROCKET_PORT'' vault_port) ''ROCKET_ADDRESS'' ''127.0.0.1'') ''DATA_FOLDER'' ''/data'') ''WEB_VAULT_FOLDER'' ''/web-vault''"
    using assms by (simp add: granted_env_def web_vault_flag_def Let_def split: prod.splits if_splits)
  moreover have "bt_get ?base k = (case vault_setting ambient k of Some x \<Rightarrow> Some x
     | None \<Rightarrow> (case map_of (rev (file_layer vars)) k of Some x \<Rightarrow> Some x | None \<Rightarrow> map_of (rev IMAGE_DEFAULTS) k))"
    by (simp add: grant_layer_get ambient_layer_get split: option.split)
  ultimately show ?thesis
    by (simp add: vault_pins_def)
qed

lemma granted_env_ok: "run_state (granted_env ambient vars vault_port) w = (g, v) \<Longrightarrow> bt_ok g"
  by (auto simp: granted_env_def Let_def bt.ok_empty intro!: grant_ok split: prod.splits option.splits)

lemma framed_granted_env: "framed ps (granted_env ambient vars vault_port)"
  unfolding granted_env_def web_vault_flag_def Let_def
  by (intro framed_rules local_op_framed [OF local_op_exists])

text \<open>No key of a list of \<open>(key, value)\<close> pairs is a supervisor key.\<close>

lemma defaults_plain: "map_of (rev IMAGE_DEFAULTS) k \<noteq> None \<Longrightarrow> \<not> is_supervisor_key k"
  by (auto simp: IMAGE_DEFAULTS_def is_supervisor_key_def split: if_splits)

lemma pins_plain: "vault_pins p k \<noteq> None \<Longrightarrow> \<not> is_supervisor_key k"
  by (auto simp: vault_pins_def is_supervisor_key_def split: if_splits)

lemma file_layer_get: "map_of (rev (file_layer vars)) k \<noteq> None \<Longrightarrow> map_of vars k \<noteq> None"
  by (auto simp: file_layer_def map_of_eq_None_iff dest!: map_of_SomeD)

lemma granted_env_plain:
  assumes "run_state (granted_env ambient vars vault_port) w = (g, v)" "bt_get g k \<noteq> None"
    and "\<And>q. map_of vars q \<noteq> None \<Longrightarrow> \<not> is_supervisor_key q"
  shows "\<not> is_supervisor_key k"
proof
  assume key: "is_supervisor_key k"
  then have "vault_pins vault_port k = None" "map_of (rev IMAGE_DEFAULTS) k = None"
    using pins_plain defaults_plain by blast+
  moreover have "map_of (rev (file_layer vars)) k = None"
    using key file_layer_get assms(3) by blast
  moreover have "k \<noteq> ''WEB_VAULT_ENABLED''" "vault_setting ambient k = None"
    using key by (auto simp: is_supervisor_key_def vault_setting_def)
  ultimately show False
    using assms(2) unfolding granted_env_get [OF assms(1)] by simp
qed

lemma apply_env_get:
  assumes "bt_get (apply_env ambient inherited extra) k \<noteq> None"
  shows "k \<in> set BASELINE_ENV \<or> k \<in> fst ` set extra"
proof -
  have "bt_get (apply_env ambient inherited extra) k = bt_get (grant_layer (grant_layer [] (allowlisted
        (map (\<lambda>(k, v). (k, utf8_lossy v)) (filter (\<lambda>(k, v). utf8_ok k) ambient)))) extra) k"
    unfolding apply_env_def by (subst apply_grant_exact) (simp_all add: grant_ok bt.ok_empty)
  with assms consider v where "map_of (rev extra) k = Some v"
    | v where "map_of (rev (allowlisted (map (\<lambda>(k, v). (k, utf8_lossy v)) (filter (\<lambda>(k, v). utf8_ok k) ambient)))) k = Some v"
    by (auto simp: grant_layer_get split: option.splits)
  then show ?thesis
  proof cases
    case 1
    then have "(k, v) \<in> set extra"
      by (auto dest: map_of_SomeD)
    then show ?thesis by force
  next
    case 2
    then show ?thesis
      by (auto simp: allowlisted_def dest!: map_of_SomeD)
  qed
qed

end
