(* ===== verification/Process.thy ===== *)
theory Process
  imports Poll Reaper ChildEnv
begin

text \<open>
  \<open>util/staged.rs\<close>, \<open>runtime/process/child.rs\<close>, \<open>reap.rs\<close> and \<open>run.rs\<close>: staged files,
  spawning and signalling children, the escalation wait and the bounded run of a helper. The
  calls that leave the process are the fields of the record \<open>os\<close>. \<open>over_hub os hub\<close> is what
  the code relies on: behind every such call the hub of \<open>Reaper\<close> makes some steps, and the
  registry and the slots are read from it. Under it the lemmas carry the hub's invariant to the
  callers: what they take for an exit status is the child's true one.
\<close>

subsection \<open>Staged files\<close>

record 'e tmp_names =
  tn_pid :: nat
  tn_seq :: "'e \<Rightarrow> u64 \<times> 'e"

text \<open>\<open>create_new\<close> with mode 0600.\<close>

definition fs_create_new :: "string \<Rightarrow> ('e world, io_error + unit) state" where
  "fs_create_new p = do {
     f \<leftarrow> next_fault;
     if f \<noteq> Fine then ret (Inl OtherIo) else do {
       there \<leftarrow> gets (\<lambda>w. file_at w p \<noteq> None \<or> is_dir w p);
       if there then ret (Inl AlreadyExists)
       else do { modify (opened p False); ret (Inr ()) } } }"

definition open_staged :: "string \<Rightarrow> ('e world, io_error + unit) state" where
  "open_staged p = do {
     r \<leftarrow> fs_create_new p;
     if r = Inl AlreadyExists then do {
       x \<leftarrow> fs_remove p;
       case x of Inl e \<Rightarrow> ret (Inl e) | Inr _ \<Rightarrow> fs_create_new p }
     else ret r }"

text \<open>A staged file is its path; its handle appends, as the only writer of a fresh file.\<close>

definition staged_create :: "'e tmp_names \<Rightarrow> string \<Rightarrow> ('e world, io_error + string) state" where
  "staged_create tn name = do {
     n \<leftarrow> env_op (tn_seq tn);
     let p = ''/tmp/'' @ name @ ''-'' @ show_nat (tn_pid tn) @ ''-'' @ show_word n;
     r \<leftarrow> open_staged p;
     ret (case r of Inl e \<Rightarrow> Inl e | Inr _ \<Rightarrow> Inr p) }"

text \<open>\<open>sync_all\<close> can only fail.\<close>

definition fs_sync :: "('e world, io_error + unit) state" where
  "fs_sync = fs_dir_op"

definition staged_write :: "string \<Rightarrow> string \<Rightarrow> ('e world, io_error + unit) state" where
  "staged_write p d = do {
     r \<leftarrow> write_all p d;
     s \<leftarrow> (case r of Inl e \<Rightarrow> ret (Inl e) | Inr _ \<Rightarrow> fs_sync);
     case s of Inl e \<Rightarrow> do { fs_remove p; ret (Inl e) } | Inr _ \<Rightarrow> ret (Inr ()) }"

definition staged_drop :: "string \<Rightarrow> ('e world, unit) state" where
  "staged_drop p = do { fs_remove p; ret () }"

subsection \<open>The operating system\<close>

datatype signal = SIGTERM | SIGKILL

record command =
  cm_prog :: string
  cm_args :: "string list"
  cm_env :: env_grant
  cm_stdout :: "string option"

record 'e os =
  os_clock :: "'e clock"
  os_names :: "'e tmp_names"
  os_environ :: "(string \<times> string) list"
  os_fork :: "command \<Rightarrow> 'e \<Rightarrow> pid option \<times> 'e"
  os_pidfd :: "pid \<Rightarrow> 'e \<Rightarrow> bool \<times> 'e"
  os_insert :: "pid \<Rightarrow> 'e \<Rightarrow> handle \<times> 'e"
  os_status :: "handle \<Rightarrow> 'e \<Rightarrow> wait_status option \<times> 'e"
  os_cv_wait :: "handle \<Rightarrow> nat \<Rightarrow> 'e \<Rightarrow> unit \<times> 'e"
  os_registered :: "pid \<Rightarrow> 'e \<Rightarrow> bool \<times> 'e"
  os_killpg :: "pid \<Rightarrow> signal \<Rightarrow> 'e \<Rightarrow> bool \<times> 'e"
  os_kill :: "pid \<Rightarrow> signal \<Rightarrow> 'e \<Rightarrow> bool \<times> 'e"
  os_dup :: "string \<Rightarrow> 'e \<Rightarrow> bool \<times> 'e"
  os_captured :: "string \<Rightarrow> 'e \<Rightarrow> string option \<times> 'e"  \<comment> \<open>what the child wrote to its stdout\<close>
  os_stopping :: "'e abort"
  os_take_stop :: "'e \<Rightarrow> bool \<times> 'e"
  os_rounds :: nat  \<comment> \<open>fuel of the loops that a condition variable paces\<close>

definition POLL :: nat where "POLL = 100"
definition TERM_GRACE :: nat where "TERM_GRACE = 10000"
definition KILL_GRACE :: nat where "KILL_GRACE = 5000"

subsection \<open>Spawning and signalling\<close>

text \<open>The registry lock is held from \<open>os_fork\<close> to \<open>os_insert\<close>.\<close>

definition spawn :: "'e os \<Rightarrow> command \<Rightarrow> ('e world, handle option) state" where
  "spawn os cmd = do {
     child \<leftarrow> env_op (os_fork os cmd);
     case child of None \<Rightarrow> ret None
     | Some pid \<Rightarrow> do {
         fd \<leftarrow> env_op (os_pidfd os pid);
         if \<not> fd then do { env_op (os_kill os pid SIGKILL); ret None }
         else do { h \<leftarrow> env_op (os_insert os pid); ret (Some h) } } }"

definition signal_group :: "'e os \<Rightarrow> pid \<Rightarrow> signal \<Rightarrow> ('e world, bool) state" where
  "signal_group os pid sig = (if pid \<le> 1 then ret False else do {
     a \<leftarrow> env_op (os_killpg os pid sig);
     if a then ret True else env_op (os_kill os pid sig) })"

definition signal_child :: "'e os \<Rightarrow> handle \<Rightarrow> signal \<Rightarrow> ('e world, bool) state" where
  "signal_child os child sig = do {
     r \<leftarrow> env_op (os_registered os (h_pid child));
     if \<not> r then ret False else signal_group os (h_pid child) sig }"

text \<open>\<open>Handle::wait\<close>. A condition variable may wake early, so the rounds are fuel.\<close>

primrec handle_wait_from :: "nat \<Rightarrow> 'e os \<Rightarrow> handle \<Rightarrow> nat \<Rightarrow> ('e world, wait_status option) state" where
  "handle_wait_from 0 os child deadline = ret None"
| "handle_wait_from (Suc n) os child deadline = do {
     s \<leftarrow> env_op (os_status os child);
     case s of Some st \<Rightarrow> ret (Some st)
     | None \<Rightarrow> do {
         now \<leftarrow> env_op (ck_now (os_clock os));
         if deadline \<le> now then ret None
         else do {
           env_op (os_cv_wait os child (min POLL (deadline - now)));
           handle_wait_from n os child deadline } } }"

definition handle_wait :: "'e os \<Rightarrow> handle \<Rightarrow> nat \<Rightarrow> ('e world, wait_status option) state" where
  "handle_wait os child timeout = do {
     now \<leftarrow> env_op (ck_now (os_clock os));
     handle_wait_from (os_rounds os) os child (now + timeout) }"

subsection \<open>Exit codes and the escalation wait\<close>

definition exit_code :: "wait_status \<Rightarrow> int" where
  "exit_code st = (case st of Exited _ c \<Rightarrow> c | Signaled _ s _ \<Rightarrow> 128 + s | OtherStatus \<Rightarrow> 1)"

datatype gone = Reaped wait_status | Stuck

definition never :: "'e abort" where
  "never e = (False, e)"

definition reap_until_gone :: "'e os \<Rightarrow> handle \<Rightarrow> nat \<Rightarrow> ('e world, gone) state" where
  "reap_until_gone os child grace = do {
     r \<leftarrow> wait_until (os_clock os) (env_op (os_status os child)) grace never POLL;
     case r of Some st \<Rightarrow> ret (Reaped st)
     | None \<Rightarrow> do {
         signal_child os child SIGKILL;
         r \<leftarrow> wait_until (os_clock os) (env_op (os_status os child)) KILL_GRACE never POLL;
         ret (case r of Some st \<Rightarrow> Reaped st | None \<Rightarrow> Stuck) } }"

subsection \<open>Bounded runs\<close>

definition CAPTURE_MAX :: nat where
  "CAPTURE_MAX = 16 * 1024 * 1024"

definition capture_over :: "'e os \<Rightarrow> string option \<Rightarrow> ('e world, bool) state" where
  "capture_over os cap = (case cap of None \<Rightarrow> ret False
     | Some p \<Rightarrow> do {
         d \<leftarrow> env_op (os_captured os p);
         ret (case d of None \<Rightarrow> False | Some d \<Rightarrow> CAPTURE_MAX < length d) })"

primrec run_poll :: "nat \<Rightarrow> 'e os \<Rightarrow> handle \<Rightarrow> nat \<Rightarrow> nat \<Rightarrow> 'e abort \<Rightarrow> string option \<Rightarrow> ('e world, bool) state" where
  "run_poll 0 os child start timeout abort cap = ret False"
| "run_poll (Suc n) os child start timeout abort cap = do {
     s \<leftarrow> handle_wait os child POLL;
     case s of Some st \<Rightarrow> ret (exit_code st = 0)
     | None \<Rightarrow> do {
         stop \<leftarrow> env_op abort;
         if stop then ret False
         else do {
           now \<leftarrow> env_op (ck_now (os_clock os));
           if timeout < now - start then ret False
           else do {
             over \<leftarrow> capture_over os cap;
             if over then ret False else run_poll n os child start timeout abort cap } } } }"

text \<open>The helper's command: the allow-listed environment is all it gets.\<close>

definition helper_command :: "'e os \<Rightarrow> string \<Rightarrow> string list \<Rightarrow> (string \<times> string) list \<Rightarrow> string option \<Rightarrow> command" where
  "helper_command os prog args extra cap = \<lparr>cm_prog = prog, cm_args = args,
     cm_env = apply_env (os_environ os) (grant_layer [] (os_environ os)) extra, cm_stdout = cap\<rparr>"

definition run_child :: "'e os \<Rightarrow> nat \<Rightarrow> command \<Rightarrow> 'e abort \<Rightarrow> ('e world, bool option) state" where
  "run_child os timeout cmd abort = do {
     c \<leftarrow> spawn os cmd;
     case c of None \<Rightarrow> ret None
     | Some child \<Rightarrow> do {
         start \<leftarrow> env_op (ck_now (os_clock os));
         success \<leftarrow> run_poll (os_rounds os) os child start timeout abort (cm_stdout cmd);
         (if success then ret False else signal_child os child SIGKILL);
         handle_wait os child KILL_GRACE;
         ret (Some success) } }"

text \<open>
  \<open>run_bounded_core\<close>: the success of the run and the staged stdout, which the caller drops. An
  early return drops it here.
\<close>

definition run_bounded_core :: "'e os \<Rightarrow> nat \<Rightarrow> string \<Rightarrow> string list \<Rightarrow> (string \<times> string) list \<Rightarrow> 'e abort \<Rightarrow> bool \<Rightarrow>
    ('e world, bool \<times> string option) state" where
  "run_bounded_core os timeout prog args extra abort capture =
     (if \<not> capture then do {
        r \<leftarrow> run_child os timeout (helper_command os prog args extra None) abort;
        ret (r = Some True, None) }
      else do {
        c \<leftarrow> staged_create (os_names os) ''vw-cap'';
        case c of Inl _ \<Rightarrow> ret (False, None)
        | Inr p \<Rightarrow> do {
            d \<leftarrow> env_op (os_dup os p);
            if \<not> d then do { staged_drop p; ret (False, None) }
            else do {
              r \<leftarrow> run_child os timeout (helper_command os prog args extra (Some p)) abort;
              case r of None \<Rightarrow> do { staged_drop p; ret (False, None) }
              | Some success \<Rightarrow> ret (success, Some p) } } })"

definition run_bounded_env :: "'e os \<Rightarrow> nat \<Rightarrow> string \<Rightarrow> string list \<Rightarrow> (string \<times> string) list \<Rightarrow> 'e abort \<Rightarrow>
    ('e world, bool) state" where
  "run_bounded_env os timeout prog args extra abort = do {
     r \<leftarrow> run_bounded_core os timeout prog args extra abort False;
     ret (fst r) }"

definition run_bounded :: "'e os \<Rightarrow> nat \<Rightarrow> string \<Rightarrow> string list \<Rightarrow> 'e abort \<Rightarrow> ('e world, bool) state" where
  "run_bounded os timeout prog args abort = run_bounded_env os timeout prog args [] abort"

text \<open>A seek or a read that fails is a capture that is not there.\<close>

definition read_capture :: "'e os \<Rightarrow> string \<Rightarrow> ('e world, string option) state" where
  "read_capture os p = do {
     d \<leftarrow> env_op (os_captured os p);
     ret (case d of None \<Rightarrow> None
       | Some d \<Rightarrow> let out = take (CAPTURE_MAX + 1) d in
           if CAPTURE_MAX < length out then None else Some (utf8_lossy out)) }"

definition run_bounded_capture :: "'e os \<Rightarrow> nat \<Rightarrow> string \<Rightarrow> string list \<Rightarrow> (string \<times> string) list \<Rightarrow> 'e abort \<Rightarrow>
    ('e world, string option) state" where
  "run_bounded_capture os timeout prog args extra abort = do {
     r \<leftarrow> run_bounded_core os timeout prog args extra abort True;
     case snd r of None \<Rightarrow> ret None
     | Some p \<Rightarrow> do {
         out \<leftarrow> (if fst r then read_capture os p else ret None);
         staged_drop p;
         ret out } }"

subsection \<open>Over the hub\<close>

definition advances :: "('e \<Rightarrow> hub) \<Rightarrow> ('e \<Rightarrow> 'a \<times> 'e) \<Rightarrow> bool" where
  "advances hb f \<longleftrightarrow> (\<forall>e. hub_step\<^sup>*\<^sup>* (hb e) (hb (snd (f e))))"

definition over_hub :: "'e os \<Rightarrow> ('e \<Rightarrow> hub) \<Rightarrow> bool" where
  "over_hub os hb \<longleftrightarrow>
     advances hb (ck_now (os_clock os)) \<and> (\<forall>d. advances hb (ck_sleep (os_clock os) d)) \<and>
     advances hb (tn_seq (os_names os)) \<and>
     (\<forall>c. advances hb (os_fork os c)) \<and> (\<forall>p. advances hb (os_pidfd os p)) \<and> (\<forall>p. advances hb (os_insert os p)) \<and>
     (\<forall>h. advances hb (os_status os h)) \<and> (\<forall>h d. advances hb (os_cv_wait os h d)) \<and>
     (\<forall>p. advances hb (os_registered os p)) \<and>
     (\<forall>p s. advances hb (os_killpg os p s)) \<and> (\<forall>p s. advances hb (os_kill os p s)) \<and>
     (\<forall>p. advances hb (os_dup os p)) \<and> (\<forall>p. advances hb (os_captured os p)) \<and>
     advances hb (os_stopping os) \<and> advances hb (os_take_stop os) \<and>
     (\<forall>h e st. fst (os_status os h e) = Some st \<longrightarrow> handle_status (hb (snd (os_status os h e))) h = Some st) \<and>
     (\<forall>p e. hb_next (hb e) \<le> h_waiter (fst (os_insert os p e)) \<and>
        h_pid (fst (os_insert os p e)) = p) \<and>
     (\<forall>p e. 1 < p \<and> hb_procs (hb e) p = None \<longrightarrow> handle_ok (hb (snd (os_insert os p e))) (fst (os_insert os p e)))"

text \<open>A predicate on the hub that its steps keep is kept by whatever advances it.\<close>

definition closed :: "(hub \<Rightarrow> bool) \<Rightarrow> bool" where
  "closed P \<longleftrightarrow> (\<forall>s t. hub_step s t \<longrightarrow> P s \<longrightarrow> P t)"

abbreviation on_hub :: "('e \<Rightarrow> hub) \<Rightarrow> (hub \<Rightarrow> bool) \<Rightarrow> 'e world \<Rightarrow> bool" where
  "on_hub hb P w \<equiv> P (hb (w_env w))"

definition exited :: "nat \<Rightarrow> wait_status \<Rightarrow> hub \<Rightarrow> bool" where
  "exited n st s \<longleftrightarrow> hub_ok s \<and> hb_exit s n = Some st"

lemma closed_steps: "closed P \<Longrightarrow> hub_step\<^sup>*\<^sup>* s t \<Longrightarrow> P s \<Longrightarrow> P t"
  by (rotate_tac) (induction rule: rtranclp_induct, auto simp: closed_def)

lemma closed_hub_ok: "closed hub_ok"
  by (simp add: closed_def hub.step_inv)

lemma closed_exited: "closed (exited n st)"
  by (auto simp: closed_def exited_def intro: hub.step_inv exit_stays)

lemma advances_env: "advances hb f \<Longrightarrow> closed P \<Longrightarrow> preserves (on_hub hb P) (env_op f)"
  by (rule env_op_preserves_env) (auto simp: advances_def elim: closed_steps)

lemma local_on_hub: "local_op ps m \<Longrightarrow> preserves (on_hub hb P) m"
  by (rule local_preserves_env)

lemma advances_never [simp]: "advances hb never"
  by (simp add: advances_def never_def)

text \<open>Every operation of the operating system keeps a closed predicate.\<close>

lemma hub_keeps:
  assumes "over_hub os hb" "closed P"
  shows "preserves (on_hub hb P) (env_op (ck_now (os_clock os)))"
    and "preserves (on_hub hb P) (env_op (ck_sleep (os_clock os) d))"
    and "preserves (on_hub hb P) (env_op (tn_seq (os_names os)))"
    and "preserves (on_hub hb P) (env_op (os_fork os c))"
    and "preserves (on_hub hb P) (env_op (os_pidfd os p))"
    and "preserves (on_hub hb P) (env_op (os_insert os p))"
    and "preserves (on_hub hb P) (env_op (os_status os h))"
    and "preserves (on_hub hb P) (env_op (os_cv_wait os h d))"
    and "preserves (on_hub hb P) (env_op (os_registered os p))"
    and "preserves (on_hub hb P) (env_op (os_killpg os p s))"
    and "preserves (on_hub hb P) (env_op (os_kill os p s))"
    and "preserves (on_hub hb P) (env_op (os_dup os a))"
    and "preserves (on_hub hb P) (env_op (os_captured os a))"
    and "preserves (on_hub hb P) (env_op (os_stopping os))"
    and "preserves (on_hub hb P) (env_op (os_take_stop os))"
  using assms unfolding over_hub_def by (auto intro: advances_env)

text \<open>A status that was read is the true one.\<close>

definition told :: "('e \<Rightarrow> hub) \<Rightarrow> handle \<Rightarrow> wait_status option \<Rightarrow> 'e world \<Rightarrow> bool" where
  "told hb h r w \<longleftrightarrow> (case r of Some st \<Rightarrow> on_hub hb (exited (h_waiter h) st) w | None \<Rightarrow> on_hub hb hub_ok w)"

lemma told_simps [simp]: "told hb h (Some st) = on_hub hb (exited (h_waiter h) st)" "told hb h None = on_hub hb hub_ok"
  by (simp_all add: told_def fun_eq_iff)

lemma told_cases: "told hb h = (\<lambda>r. case r of Some st \<Rightarrow> on_hub hb (exited (h_waiter h) st) | None \<Rightarrow> on_hub hb hub_ok)"
  by (auto simp: fun_eq_iff split: option.split)

lemma status_told:
  assumes "over_hub os hb"
  shows "hoare (on_hub hb hub_ok) (env_op (os_status os h)) (told hb h)"
proof (rule hoareI)
  fix w r v
  assume w: "on_hub hb hub_ok w" and run: "run_state (env_op (os_status os h)) w = (r, v)"
  have v: "on_hub hb hub_ok v"
    by (rule preservesD [OF hub_keeps(7) [OF assms closed_hub_ok] w run])
  show "told hb h r v"
  proof (cases r)
    case (Some st)
    with run assms have "handle_status (hb (w_env v)) h = Some st"
      by (auto simp: run_env_op over_hub_def)
    with v Some show ?thesis
      by (simp add: exited_def status_true)
  qed (simp add: v)
qed

lemma handle_wait_from_told:
  assumes "over_hub os hb"
  shows "hoare (on_hub hb hub_ok) (handle_wait_from n os h deadline) (told hb h)"
proof (induction n)
  case (Suc n)
  have "hoare (told hb h s) (case s of Some st \<Rightarrow> ret (Some st) | None \<Rightarrow> do {
         now \<leftarrow> env_op (ck_now (os_clock os));
         if deadline \<le> now then ret None
         else do { env_op (os_cv_wait os h (min POLL (deadline - now))); handle_wait_from n os h deadline } }) (told hb h)" for s
  proof (cases s)
    case None
    have "hoare (on_hub hb hub_ok) (ret None) (told hb h)"
      by (rule hoare_return) simp
    then show ?thesis
      unfolding None
      by (simp, intro hoare_keep [OF hub_keeps(1) [OF assms closed_hub_ok]] hoare_if
          hoare_keep [OF hub_keeps(8) [OF assms closed_hub_ok]] Suc)
  qed (simp add: hoare_return)
  then show ?case
    unfolding handle_wait_from.simps by (rule hoare_bind [OF status_told [OF assms]])
qed (simp add: hoare_return)

lemma handle_wait_told: "over_hub os hb \<Longrightarrow> hoare (on_hub hb hub_ok) (handle_wait os h timeout) (told hb h)"
  unfolding handle_wait_def by (intro hoare_keep [OF hub_keeps(1) [OF _ closed_hub_ok]] handle_wait_from_told)

lemma wait_told:
  assumes "over_hub os hb"
  shows "hoare (on_hub hb hub_ok) (wait_until (os_clock os) (env_op (os_status os h)) timeout never beat) (told hb h)"
  unfolding told_cases
  by (rule wait_until_ok [OF _ advances_env [OF advances_never closed_hub_ok] hub_keeps(1,2) [OF assms closed_hub_ok]])
    (rule status_told [OF assms, unfolded told_cases])

lemma kept_signal: "over_hub os hb \<Longrightarrow> closed P \<Longrightarrow> preserves (on_hub hb P) (signal_child os h s)"
  unfolding signal_child_def signal_group_def by (intro preserves_rules hub_keeps)

definition gone_status :: "gone \<Rightarrow> wait_status option" where
  "gone_status g = (case g of Reaped st \<Rightarrow> Some st | Stuck \<Rightarrow> None)"

lemma reap_until_gone_told:
  assumes "over_hub os hb"
  shows "hoare (on_hub hb hub_ok) (reap_until_gone os h grace) (\<lambda>g. told hb h (gone_status g))"
proof -
  have again: "hoare (on_hub hb hub_ok) (do {
      r \<leftarrow> wait_until (os_clock os) (env_op (os_status os h)) KILL_GRACE never POLL;
      ret (case r of Some st \<Rightarrow> Reaped st | None \<Rightarrow> Stuck) }) (\<lambda>g. told hb h (gone_status g))"
    by (rule hoare_bind [OF wait_told [OF assms]], rule hoare_return) (simp add: gone_status_def told_def split: option.splits)
  have "hoare (told hb h r) (case r of Some st \<Rightarrow> ret (Reaped st) | None \<Rightarrow> do { signal_child os h SIGKILL;
      r \<leftarrow> wait_until (os_clock os) (env_op (os_status os h)) KILL_GRACE never POLL;
      ret (case r of Some st \<Rightarrow> Reaped st | None \<Rightarrow> Stuck) }) (\<lambda>g. told hb h (gone_status g))" for r
  proof (cases r)
    case None
    then show ?thesis
      by (simp, intro hoare_keep [OF kept_signal [OF assms closed_hub_ok]] again)
  next
    case (Some st)
    then show ?thesis
      by (simp add: hoare_return gone_status_def)
  qed
  then show ?thesis
    unfolding reap_until_gone_def by (rule hoare_bind [OF wait_told [OF assms]])
qed

subsection \<open>Everything keeps what the hub's steps keep\<close>

lemma local_open_staged: "p \<in> ps \<Longrightarrow> local_op ps (open_staged p)"
proof -
  have o: "q \<notin> ps \<Longrightarrow> file_at (opened p b w) q = file_at w q" if "p \<in> ps" for q b and w :: "'a world"
    using that by (auto simp: opened_def split: option.split)
  have e: "w_env (opened p b w) = w_env w" "w_stat (opened p b w) = w_stat w" for b and w :: "'a world"
    by (simp_all add: opened_def)
  show ?thesis if "p \<in> ps"
    using that unfolding open_staged_def fs_create_new_def
    by (auto intro!: local_op_bind local_op_if local_op_sum local_op_remove local_op_modify simp: e o)
qed

lemma local_staged_write: "p \<in> ps \<Longrightarrow> local_op ps (staged_write p d)"
  unfolding staged_write_def fs_sync_def
  by (auto intro!: local_op_bind local_op_sum local_op_remove local_op_write_all)

lemma local_staged_drop: "p \<in> ps \<Longrightarrow> local_op ps (staged_drop p)"
  unfolding staged_drop_def by (auto intro!: local_op_bind local_op_remove)

lemmas local_staged = local_open_staged [OF singletonI] local_staged_write [OF singletonI] local_staged_drop [OF singletonI]

lemma kept_staged:
  assumes "over_hub os hb" "closed P"
  shows "preserves (on_hub hb P) (staged_create (os_names os) name)"
  unfolding staged_create_def Let_def
  by (intro preserves_rules hub_keeps [OF assms] local_on_hub [OF local_staged(1)])

lemma kept_handle_wait: "over_hub os hb \<Longrightarrow> closed P \<Longrightarrow> preserves (on_hub hb P) (handle_wait os h timeout)"
proof -
  assume assms: "over_hub os hb" "closed P"
  have "preserves (on_hub hb P) (handle_wait_from n os h deadline)" for n deadline
    by (induction n) (auto intro!: preserves_rules hub_keeps [OF assms])
  then show ?thesis
    unfolding handle_wait_def by (intro preserves_rules hub_keeps [OF assms])
qed

lemma kept_wait_until:
  assumes "over_hub os hb" "closed P" "preserves (on_hub hb P) check" "advances hb abort"
  shows "preserves (on_hub hb P) (wait_until (os_clock os) check timeout abort beat)"
proof -
  have "preserves (on_hub hb P) (wait_loop n (os_clock os) check deadline abort beat)" for n deadline
    by (induction n) (auto intro!: preserves_rules hub_keeps [OF assms(1,2)] assms(3) advances_env [OF assms(4,2)])
  then show ?thesis
    unfolding wait_until_def by (intro preserves_rules hub_keeps [OF assms(1,2)])
qed

lemma kept_reap_until_gone: "over_hub os hb \<Longrightarrow> closed P \<Longrightarrow> preserves (on_hub hb P) (reap_until_gone os h grace)"
  unfolding reap_until_gone_def
  by (intro preserves_rules kept_wait_until hub_keeps kept_signal advances_never)

lemma kept_spawn: "over_hub os hb \<Longrightarrow> closed P \<Longrightarrow> preserves (on_hub hb P) (spawn os cmd)"
  unfolding spawn_def by (intro preserves_rules hub_keeps)

lemma kept_run_child:
  assumes "over_hub os hb" "closed P" "advances hb abort"
  shows "preserves (on_hub hb P) (run_child os timeout cmd abort)"
proof -
  have "preserves (on_hub hb P) (run_poll n os h start timeout abort cap)" for n h start cap
  proof (induction n)
    case (Suc n)
    then show ?case
      unfolding run_poll.simps capture_over_def
      by (intro preserves_rules hub_keeps [OF assms(1,2)] kept_handle_wait [OF assms(1,2)] advances_env [OF assms(3,2)])
  qed auto
  then show ?thesis
    unfolding run_child_def
    by (intro preserves_rules hub_keeps [OF assms(1,2)] kept_handle_wait [OF assms(1,2)] kept_signal [OF assms(1,2)]
      kept_spawn [OF assms(1,2)])
qed

lemma kept_run_bounded_core:
  assumes "over_hub os hb" "closed P" "advances hb abort"
  shows "preserves (on_hub hb P) (run_bounded_core os timeout prog args extra abort capture)"
  unfolding run_bounded_core_def
  by (intro preserves_rules kept_run_child [OF assms] kept_staged [OF assms(1,2)] hub_keeps [OF assms(1,2)]
    local_on_hub [OF local_staged(3)])

lemma kept_run_bounded:
  assumes "over_hub os hb" "closed P" "advances hb abort"
  shows "preserves (on_hub hb P) (run_bounded os timeout prog args abort)"
    and "preserves (on_hub hb P) (run_bounded_capture os timeout prog args extra abort)"
  unfolding run_bounded_def run_bounded_env_def run_bounded_capture_def read_capture_def
  by (intro preserves_rules kept_run_bounded_core [OF assms] hub_keeps [OF assms(1,2)] local_on_hub [OF local_staged(3)])+

subsection \<open>A run that succeeds\<close>

text \<open>A child registered since waiter \<open>m\<close> exited with code 0.\<close>

definition ran_ok :: "nat \<Rightarrow> hub \<Rightarrow> bool" where
  "ran_ok m s \<longleftrightarrow> (\<exists>n st. m \<le> n \<and> exited n st s \<and> exit_code st = 0)"

definition since :: "nat \<Rightarrow> hub \<Rightarrow> bool" where
  "since m s \<longleftrightarrow> hub_ok s \<and> m \<le> hb_next s"

lemma closed_ran_ok: "closed (ran_ok m)"
  using closed_exited unfolding closed_def ran_ok_def by blast

lemma next_grows: "hub_step s t \<Longrightarrow> hb_next s \<le> hb_next t"
  by (auto elim!: hub_stepE)

lemma closed_since: "closed (since m)"
  unfolding closed_def since_def using hub.step_inv next_grows order_trans by blast

lemma spawn_since:
  assumes "over_hub os hb"
  shows "hoare (on_hub hb (since m)) (spawn os cmd)
     (\<lambda>c w. on_hub hb (since m) w \<and> (\<forall>h. c = Some h \<longrightarrow> m \<le> h_waiter h))"
proof -
  have ins: "hoare (on_hub hb (since m)) (env_op (os_insert os p)) (\<lambda>h w. on_hub hb (since m) w \<and> m \<le> h_waiter h)" for p
  proof (rule hoareI)
    fix w h v
    assume w: "on_hub hb (since m) w" and run: "run_state (env_op (os_insert os p)) w = (h, v)"
    have "hb_next (hb (w_env w)) \<le> h_waiter h"
      using run assms by (auto simp: run_env_op over_hub_def)
    with w preservesD [OF hub_keeps(6) [OF assms closed_since] w run]
    show "on_hub hb (since m) v \<and> m \<le> h_waiter h"
      by (simp add: since_def)
  qed
  have none: "hoare (on_hub hb (since m)) (ret None) (\<lambda>c w. on_hub hb (since m) w \<and> (\<forall>h. c = Some h \<longrightarrow> m \<le> h_waiter h))"
    by (rule hoare_return) simp
  note keep = hub_keeps [OF assms closed_since]
  have go: "hoare (on_hub hb (since m)) (do { fd \<leftarrow> env_op (os_pidfd os p);
      if \<not> fd then do { env_op (os_kill os p SIGKILL); ret None }
      else do { h \<leftarrow> env_op (os_insert os p); ret (Some h) } })
      (\<lambda>c w. on_hub hb (since m) w \<and> (\<forall>h. c = Some h \<longrightarrow> m \<le> h_waiter h))" for p
    by (intro hoare_keep [OF keep(5)] hoare_if hoare_keep [OF keep(11)] none hoare_bind [OF ins] hoare_return) simp
  show ?thesis
    unfolding spawn_def
    by (rule hoare_keep [OF keep(4)]) (simp add: go none split: option.split)
qed

lemma run_poll_ok:
  assumes "over_hub os hb" "advances hb abort" "m \<le> h_waiter h"
  shows "hoare (on_hub hb hub_ok) (run_poll n os h start timeout abort cap)
     (\<lambda>b w. on_hub hb hub_ok w \<and> (b \<longrightarrow> on_hub hb (ran_ok m) w))"
proof (induction n)
  case (Suc n)
  have no: "hoare (on_hub hb hub_ok) (ret False) (\<lambda>b w. on_hub hb hub_ok w \<and> (b \<longrightarrow> on_hub hb (ran_ok m) w))"
    by (rule hoare_return) simp
  have yes: "hoare (told hb h (Some st)) (ret (exit_code st = 0))
      (\<lambda>b w. on_hub hb hub_ok w \<and> (b \<longrightarrow> on_hub hb (ran_ok m) w))" for st
    using assms(3) by (intro hoare_return) (auto simp: ran_ok_def exited_def)
  have cap: "preserves (on_hub hb hub_ok) (capture_over os cap)"
    unfolding capture_over_def by (intro preserves_rules hub_keeps [OF assms(1) closed_hub_ok])
  have go: "hoare (on_hub hb hub_ok) (do { stop \<leftarrow> env_op abort; if stop then ret False else do {
      now \<leftarrow> env_op (ck_now (os_clock os)); if timeout < now - start then ret False else do {
      over \<leftarrow> capture_over os cap; if over then ret False else run_poll n os h start timeout abort cap } } })
      (\<lambda>b w. on_hub hb hub_ok w \<and> (b \<longrightarrow> on_hub hb (ran_ok m) w))"
    by (intro hoare_keep [OF advances_env [OF assms(2) closed_hub_ok]] hoare_if no Suc hoare_keep [OF cap]
      hoare_keep [OF hub_keeps(1) [OF assms(1) closed_hub_ok]])
  show ?case
    unfolding run_poll.simps
  proof (rule hoare_bind [OF handle_wait_told [OF assms(1)]])
    fix s
    show "hoare (told hb h s) (case s of Some st \<Rightarrow> ret (exit_code st = 0) | None \<Rightarrow> do { stop \<leftarrow> env_op abort;
      if stop then ret False else do {
      now \<leftarrow> env_op (ck_now (os_clock os)); if timeout < now - start then ret False else do {
      over \<leftarrow> capture_over os cap; if over then ret False else run_poll n os h start timeout abort cap } } })
      (\<lambda>b w. on_hub hb hub_ok w \<and> (b \<longrightarrow> on_hub hb (ran_ok m) w))"
      using go yes by (cases s) simp_all
  qed
qed (simp add: hoare_return)

lemma run_child_ok:
  assumes "over_hub os hb" "advances hb abort"
  shows "hoare (on_hub hb (since m)) (run_child os timeout cmd abort)
     (\<lambda>r w. on_hub hb hub_ok w \<and> (r = Some True \<longrightarrow> on_hub hb (ran_ok m) w))"
proof -
  note H = assms(1)
  let ?Q = "\<lambda>r w. on_hub hb hub_ok w \<and> (r = Some True \<longrightarrow> on_hub hb (ran_ok m) w)"
  have none: "hoare (on_hub hb (since m)) (ret None) ?Q"
    by (rule hoare_return) (simp add: since_def)
  have after: "hoare (\<lambda>w. on_hub hb hub_ok w \<and> (b \<longrightarrow> on_hub hb (ran_ok m) w))
      (do { (if b then ret False else signal_child os h SIGKILL); handle_wait os h KILL_GRACE; ret (Some b) }) ?Q" for b h
  proof -
    have k: "preserves (\<lambda>w. on_hub hb hub_ok w \<and> (b \<longrightarrow> on_hub hb (ran_ok m) w)) x"
      if "\<And>P. closed P \<Longrightarrow> preserves (on_hub hb P) x" for x :: "('a world, 'b) state"
      using that [OF closed_hub_ok] that [OF closed_ran_ok, of m] by (cases b) (simp_all add: preserves_conj)
    show ?thesis
      by (intro hoare_keep [OF k] preserves_if preserves_return kept_signal [OF H] kept_handle_wait [OF H] hoare_return) simp_all
  qed
  have go: "hoare (on_hub hb hub_ok) (do {
      start \<leftarrow> env_op (ck_now (os_clock os));
      success \<leftarrow> run_poll (os_rounds os) os h start timeout abort (cm_stdout cmd);
      (if success then ret False else signal_child os h SIGKILL);
      handle_wait os h KILL_GRACE;
      ret (Some success) }) ?Q" if "m \<le> h_waiter h" for h
    by (intro hoare_keep [OF hub_keeps(1) [OF H closed_hub_ok]] hoare_bind [OF run_poll_ok [OF assms that]] after)
  show ?thesis
    unfolding run_child_def
  proof (rule hoare_bind [OF spawn_since [OF H]])
    fix c
    show "hoare (\<lambda>w. on_hub hb (since m) w \<and> (\<forall>h. c = Some h \<longrightarrow> m \<le> h_waiter h)) (case c of None \<Rightarrow> ret None
      | Some h \<Rightarrow> do {
         start \<leftarrow> env_op (ck_now (os_clock os));
         success \<leftarrow> run_poll (os_rounds os) os h start timeout abort (cm_stdout cmd);
         (if success then ret False else signal_child os h SIGKILL);
         handle_wait os h KILL_GRACE;
         ret (Some success) }) ?Q"
    proof (cases c)
      case None
      then show ?thesis using none by simp
    next
      case (Some h)
      then show ?thesis
        using go [of h] by (cases "m \<le> h_waiter h") (auto simp: since_def hoare_def)
    qed
  qed
qed

lemma run_bounded_ok:
  assumes "over_hub os hb" "advances hb abort"
  shows "hoare (on_hub hb (since m)) (run_bounded os timeout prog args abort)
     (\<lambda>b w. on_hub hb hub_ok w \<and> (b \<longrightarrow> on_hub hb (ran_ok m) w))"
proof -
  have "hoare (on_hub hb (since m)) (run_bounded_core os timeout prog args [] abort False)
     (\<lambda>r w. on_hub hb hub_ok w \<and> (fst r \<longrightarrow> on_hub hb (ran_ok m) w))"
    unfolding run_bounded_core_def if_not_P if_P not_False_eq_True
    by (simp, rule hoare_bind [OF run_child_ok [OF assms]], rule hoare_return) simp
  then show ?thesis
    unfolding run_bounded_def run_bounded_env_def
    by (rule hoare_bind) (rule hoare_return, simp)
qed

text \<open>Captured output is that of a child that exited with 0, and no longer than the cap.\<close>

lemma run_capture_ok:
  assumes "over_hub os hb" "advances hb abort"
  shows "hoare (on_hub hb (since m)) (run_bounded_capture os timeout prog args extra abort)
     (\<lambda>r w. r = None \<or> on_hub hb (ran_ok m) w)"
proof -
  note H = assms(1)
  let ?R = "\<lambda>r w. fst r \<longrightarrow> on_hub hb (ran_ok m) w"
  have stop: "hoare P (ret (False, c)) ?R" for P :: "'a world \<Rightarrow> bool" and c :: "string option"
    by (rule hoare_return) simp
  have run: "hoare (on_hub hb (since m)) (do {
      r \<leftarrow> run_child os timeout (helper_command os prog args extra (Some p)) abort;
      case r of None \<Rightarrow> do { staged_drop p; ret (False, None) } | Some success \<Rightarrow> ret (success, Some p) }) ?R" for p
  proof (rule hoare_bind [OF run_child_ok [OF assms]])
    fix r
    show "hoare (\<lambda>w. on_hub hb hub_ok w \<and> (r = Some True \<longrightarrow> on_hub hb (ran_ok m) w))
       (case r of None \<Rightarrow> do { staged_drop p; ret (False, None) } | Some success \<Rightarrow> ret (success, Some p)) ?R"
      by (cases r) (auto simp: hoare_def split: prod.split)
  qed
  have core: "hoare (on_hub hb (since m)) (run_bounded_core os timeout prog args extra abort True) ?R"
    unfolding run_bounded_core_def not_True_eq_False if_False
    by (intro hoare_keep [OF kept_staged [OF H closed_since]] hoare_sum stop
      hoare_keep [OF hub_keeps(12) [OF H closed_since]] hoare_if hoare_keep [OF local_on_hub [OF local_staged(3)]] run)
  show ?thesis
    unfolding run_bounded_capture_def
  proof (rule hoare_bind [OF core])
    fix r :: "bool \<times> string option"
    have rest: "preserves (on_hub hb (ran_ok m)) (do { out \<leftarrow> (if fst r then read_capture os p else ret None); staged_drop p; ret out })" for p
      unfolding read_capture_def by (intro preserves_rules hub_keeps [OF H closed_ran_ok] local_on_hub [OF local_staged(3)])
    show "hoare (?R r) (case snd r of None \<Rightarrow> ret None | Some p \<Rightarrow> do {
        out \<leftarrow> (if fst r then read_capture os p else ret None); staged_drop p; ret out }) (\<lambda>r w. r = None \<or> on_hub hb (ran_ok m) w)"
    proof (cases "snd r")
      case (Some p)
      then show ?thesis
        using rest [of p] by (cases "fst r") (auto simp: preserves_def hoare_def split: prod.splits)
    qed (simp add: hoare_return)
  qed
qed

subsection \<open>A staged secret\<close>

text \<open>What a staged path can hold: nothing, what was there before, or an owner-only file.\<close>

definition staged_safe :: "inode option \<Rightarrow> inode option \<Rightarrow> bool" where
  "staged_safe b x \<longleftrightarrow> x = b \<or> (case x of None \<Rightarrow> True | Some i \<Rightarrow> f_private i)"

definition staged_private :: "inode option \<Rightarrow> bool" where
  "staged_private x \<longleftrightarrow> (case x of None \<Rightarrow> True | Some i \<Rightarrow> f_private i)"

lemma staged_private_safe: "staged_private x \<Longrightarrow> staged_safe b x"
  by (simp add: staged_private_def staged_safe_def)

lemma open_staged_private: "hoare (on_file p (staged_safe b)) (open_staged p)
    (\<lambda>r w. case r of Inl _ \<Rightarrow> on_file p (staged_safe b) w | Inr _ \<Rightarrow> on_file p staged_private w)"
  by (rule hoareI)
    (auto simp: open_staged_def fs_create_new_def fs_remove_def opened_def staged_private_def staged_safe_def
      dest!: run_next_fault split: prod.splits if_splits option.splits sum.splits)

lemma staged_write_private: "preserves (on_file p staged_private) (staged_write p d)"
proof -
  have w: "preserves (on_file p staged_private) (write_all p d)"
    by (rule preservesI) (auto simp: write_all_def appended_def staged_private_def dest!: run_next_fault
        split: prod.splits fault.splits option.splits)
  have r: "preserves (on_file p staged_private) (fs_remove p)"
    by (rule preservesI) (auto simp: fs_remove_def staged_private_def dest!: run_next_fault split: prod.splits if_splits option.splits)
  show ?thesis
    unfolding staged_write_def fs_sync_def
    by (intro preserves_rules w r local_preserves_file [OF local_op_dir_op, of _ "{}"]) simp_all
qed

lemma staged_drop_removes: "w_faults w = [] \<Longrightarrow> file_at (snd (run_state (staged_drop p) w)) p = None"
  by (simp add: staged_drop_def fs_remove_def next_fault_def)

end
