(* ===== verification/Services.thy ===== *)
theory Services
  imports Process
begin

text \<open>
  \<open>runtime/services/tailscale.rs\<close> and the spawn of \<open>runtime/services/vaultwarden.rs\<close>: the
  supervised programs and the calls of the \<open>tailscale\<close> tool. The lemmas show that a staged
  auth key is never readable by others and does not stay, and that a step that reports success
  ran a child that exited with 0.
\<close>

definition TAILSCALED :: string where "TAILSCALED = ''/usr/local/bin/tailscaled''"
definition TAILSCALE :: string where "TAILSCALE = ''/usr/local/bin/tailscale''"
definition VAULTWARDEN :: string where "VAULTWARDEN = ''/vaultwarden''"

subsection \<open>Paths\<close>

text \<open>\<open>Path::parent\<close>: without the last component; trailing \<open>/\<close> and \<open>/.\<close> are no components.\<close>

fun trim_back :: "string \<Rightarrow> string" where
  "trim_back (CHR ''/'' # c # r) = trim_back (c # r)"
| "trim_back (CHR ''.'' # CHR ''/'' # r) = trim_back (CHR ''/'' # r)"
| "trim_back r = r"

definition path_parent :: "string \<Rightarrow> string option" where
  "path_parent p = (let r = trim_back (rev p) in
     if r = [] \<or> r = ''/'' then None
     else Some (rev (trim_back (dropWhile (\<lambda>c. c \<noteq> CHR ''/'') r))))"

subsection \<open>The daemons\<close>

definition tailscaled_args :: "string \<Rightarrow> string \<Rightarrow> bool \<Rightarrow> string list" where
  "tailscaled_args state_file socket userspace =
     [''--state'', state_file, ''--socket'', socket]
     @ (case path_parent state_file of None \<Rightarrow> []
        | Some dir \<Rightarrow> if dir \<noteq> [] then [''--statedir'', dir] else [])
     @ (if userspace then [''--tun=userspace-networking''] else [])"

definition spawn_tailscaled :: "'e os \<Rightarrow> string \<Rightarrow> string \<Rightarrow> bool \<Rightarrow> ('e world, handle option) state" where
  "spawn_tailscaled os state_file socket userspace =
     spawn os (helper_command os TAILSCALED (tailscaled_args state_file socket userspace) [] None)"

definition run_vaultwarden :: "'e os \<Rightarrow> string \<Rightarrow> (string \<times> string) list \<Rightarrow> ('e world, handle option) state" where
  "run_vaultwarden os vault_port extra_env = do {
     g \<leftarrow> granted_env (os_environ os) extra_env vault_port;
     spawn os \<lparr>cm_prog = VAULTWARDEN, cm_args = [],
       cm_env = apply_grant g (grant_layer [] (os_environ os)), cm_stdout = None\<rparr> }"

subsection \<open>\<open>tailscale up\<close>\<close>

definition stage_key :: "'e os \<Rightarrow> string option \<Rightarrow> ('e world, unit + string option) state" where
  "stage_key os authkey = (case authkey of None \<Rightarrow> ret (Inr None)
     | Some key \<Rightarrow> do {
         f \<leftarrow> staged_create (os_names os) ''ts-authkey'';
         case f of Inl _ \<Rightarrow> ret (Inl ())
         | Inr p \<Rightarrow> do {
             r \<leftarrow> staged_write p key;
             case r of Inl _ \<Rightarrow> do { staged_drop p; ret (Inl ()) }
             | Inr _ \<Rightarrow> ret (Inr (Some p)) } })"

definition up_args :: "string \<Rightarrow> string option \<Rightarrow> string \<Rightarrow> string list" where
  "up_args socket key_file hostname =
     [''--socket'', socket, ''up'']
     @ (case key_file of None \<Rightarrow> [] | Some p \<Rightarrow> [''--auth-key=file:'' @ p])
     @ [''--hostname'', hostname, ''--accept-dns=false'']"

definition drop_key :: "string option \<Rightarrow> ('e world, unit) state" where
  "drop_key f = (case f of None \<Rightarrow> ret () | Some p \<Rightarrow> staged_drop p)"

definition tailscale_up :: "'e os \<Rightarrow> string option \<Rightarrow> string \<Rightarrow> string \<Rightarrow> nat \<Rightarrow> 'e abort \<Rightarrow> ('e world, bool) state" where
  "tailscale_up os authkey hostname socket timeout abort = do {
     k \<leftarrow> stage_key os authkey;
     case k of Inl _ \<Rightarrow> ret False
     | Inr key_file \<Rightarrow> do {
         ok \<leftarrow> run_bounded os timeout TAILSCALE (up_args socket key_file hostname) abort;
         drop_key key_file;
         ret ok } }"

subsection \<open>\<open>tailscale serve\<close>\<close>

definition serve_status_has :: "string \<Rightarrow> string \<Rightarrow> bool" where
  "serve_status_has status target = contains_str target status"

definition serve_target :: "string \<Rightarrow> string" where
  "serve_target port = ''http://127.0.0.1:'' @ port"

definition serve_args :: "string \<Rightarrow> string option \<Rightarrow> string \<Rightarrow> string list" where
  "serve_args socket service target =
     [''--socket'', socket, ''serve'']
     @ (case service of Some svc \<Rightarrow> [''--service='' @ svc] | None \<Rightarrow> [''--bg''])
     @ [''--https=443'', target]"

definition time_left :: "'e os \<Rightarrow> nat \<Rightarrow> ('e world, nat) state" where
  "time_left os deadline = do { now \<leftarrow> env_op (ck_now (os_clock os)); ret (deadline - now) }"

definition clear_service :: "'e os \<Rightarrow> string option \<Rightarrow> string \<Rightarrow> nat \<Rightarrow> 'e abort \<Rightarrow> ('e world, unit) state" where
  "clear_service os service socket deadline abort = (case service of None \<Rightarrow> ret ()
     | Some svc \<Rightarrow> do {
         d \<leftarrow> time_left os deadline;
         if d = 0 then ret ()
         else do {
           d \<leftarrow> time_left os deadline;
           run_bounded os d TAILSCALE [''--socket'', socket, ''serve'', ''clear'', svc] abort;
           ret () } })"

primrec serve_ready :: "nat \<Rightarrow> 'e os \<Rightarrow> string \<Rightarrow> string \<Rightarrow> nat \<Rightarrow> 'e abort \<Rightarrow> ('e world, bool) state" where
  "serve_ready 0 os socket target deadline abort = ret False"
| "serve_ready (Suc n) os socket target deadline abort = do {
     stop \<leftarrow> env_op abort;
     if stop then ret False
     else do {
       d \<leftarrow> time_left os deadline;
       if d = 0 then ret False
       else do {
         d \<leftarrow> time_left os deadline;
         status \<leftarrow> run_bounded_capture os d TAILSCALE [''--socket'', socket, ''serve'', ''status'', ''--json''] [] abort;
         if status \<noteq> None \<and> serve_status_has (the status) target then ret True
         else do {
           d \<leftarrow> time_left os deadline;
           env_op (ck_sleep (os_clock os) (min 500 d));
           serve_ready n os socket target deadline abort } } } }"

definition tailscale_serve :: "'e os \<Rightarrow> string \<Rightarrow> string option \<Rightarrow> string \<Rightarrow> nat \<Rightarrow> 'e abort \<Rightarrow> ('e world, bool) state" where
  "tailscale_serve os port service socket timeout abort = do {
     now \<leftarrow> env_op (ck_now (os_clock os));
     let deadline = now + timeout;
     clear_service os service socket deadline abort;
     d \<leftarrow> time_left os deadline;
     if d = 0 then ret False
     else do {
       d \<leftarrow> time_left os deadline;
       ok \<leftarrow> run_bounded os d TAILSCALE (serve_args socket service (serve_target port)) abort;
       if \<not> ok then ret False
       else serve_ready 3 os socket (serve_target port) deadline abort } }"

subsection \<open>Success means a child that exited with 0\<close>

lemma kept_time_left: "over_hub os hb \<Longrightarrow> closed P \<Longrightarrow> preserves (on_hub hb P) (time_left os deadline)"
  unfolding time_left_def by (intro preserves_rules hub_keeps)

lemma kept_stage_key: "over_hub os hb \<Longrightarrow> closed P \<Longrightarrow> preserves (on_hub hb P) (stage_key os authkey)"
  unfolding stage_key_def
  by (intro preserves_rules kept_staged local_on_hub [OF local_staged(2)] local_on_hub [OF local_staged(3)])

lemma kept_drop_key: "preserves (on_hub hb P) (drop_key f)"
  unfolding drop_key_def by (intro preserves_rules local_on_hub [OF local_staged(3)])

lemma tailscale_up_ok:
  assumes "over_hub os hb" "advances hb abort"
  shows "hoare (on_hub hb (since m)) (tailscale_up os authkey hostname socket timeout abort)
     (\<lambda>b w. on_hub hb hub_ok w \<and> (b \<longrightarrow> on_hub hb (ran_ok m) w))"
proof -
  let ?Q = "\<lambda>b w. on_hub hb hub_ok w \<and> (b \<longrightarrow> on_hub hb (ran_ok m) w)"
  have fin: "hoare (?Q b) (do { drop_key f; ret b }) ?Q" for b f
  proof (rule hoare_keep)
    show "preserves (?Q b) (drop_key f)"
      by (cases b) (simp_all add: kept_drop_key preserves_conj)
  qed (rule hoare_return, simp)
  have no: "hoare (on_hub hb (since m)) (ret False) ?Q"
    by (rule hoare_return) (simp add: since_def)
  show ?thesis
    unfolding tailscale_up_def
    by (intro hoare_keep [OF kept_stage_key [OF assms(1) closed_since]] hoare_sum no hoare_bind [OF run_bounded_ok [OF assms]] fin)
qed

lemma serve_ready_ok:
  assumes "over_hub os hb" "advances hb abort"
  shows "hoare (on_hub hb (since m)) (serve_ready n os socket target deadline abort)
     (\<lambda>b w. b \<longrightarrow> on_hub hb (ran_ok m) w)"
proof (induction n)
  case (Suc n)
  let ?Q = "\<lambda>b w. b \<longrightarrow> on_hub hb (ran_ok m) w"
  let ?I = "on_hub hb (since m)"
  note I = kept_time_left [OF assms(1) closed_since]
  have no: "hoare P (ret False) ?Q" for P :: "'a world \<Rightarrow> bool"
    by (rule hoare_return) simp
  have yes: "hoare (on_hub hb (ran_ok m)) (ret True) ?Q"
    by (rule hoare_return) simp
  have cap: "hoare ?I (run_bounded_capture os d prog args [] abort) (\<lambda>r w. ?I w \<and> (r = None \<or> on_hub hb (ran_ok m) w))" for d prog args
    by (rule hoare_both [OF kept_run_bounded(2) [OF assms(1) closed_since assms(2)] run_capture_ok [OF assms]]) simp_all
  have more: "hoare ?I (do { d \<leftarrow> time_left os deadline; env_op (ck_sleep (os_clock os) (min 500 d));
      serve_ready n os socket target deadline abort }) ?Q"
    by (intro hoare_keep [OF I] hoare_keep [OF hub_keeps(2) [OF assms(1) closed_since]] Suc)
  have next_: "hoare (\<lambda>w. ?I w \<and> (r = None \<or> on_hub hb (ran_ok m) w)) (if r \<noteq> None \<and> serve_status_has (the r) target then ret True
      else do { d \<leftarrow> time_left os deadline; env_op (ck_sleep (os_clock os) (min 500 d));
      serve_ready n os socket target deadline abort }) ?Q" for r
    using more by (auto simp: hoare_def)
  show ?case
    unfolding serve_ready.simps
    by (intro hoare_keep [OF advances_env [OF assms(2) closed_since]] hoare_if no hoare_keep [OF I] hoare_bind [OF cap] next_)
qed (simp add: hoare_return)

lemma tailscale_serve_ok:
  assumes "over_hub os hb" "advances hb abort"
  shows "hoare (on_hub hb (since m)) (tailscale_serve os port service socket timeout abort)
     (\<lambda>b w. b \<longrightarrow> on_hub hb (ran_ok m) w)"
proof -
  note I = kept_time_left [OF assms(1) closed_since] and R = kept_run_bounded(1) [OF assms(1) closed_since assms(2)]
  have c: "preserves (on_hub hb (since m)) (clear_service os service socket deadline abort)" for deadline
    unfolding clear_service_def by (intro preserves_rules I R)
  have no: "hoare P (ret False) (\<lambda>b w. b \<longrightarrow> on_hub hb (ran_ok m) w)" for P :: "'a world \<Rightarrow> bool"
    by (rule hoare_return) simp
  show ?thesis
    unfolding tailscale_serve_def Let_def
    by (intro hoare_keep [OF hub_keeps(1) [OF assms(1) closed_since]] hoare_keep [OF c] hoare_keep [OF I] hoare_if no
      hoare_keep [OF R] serve_ready_ok [OF assms])
qed

lemma kept_services:
  assumes "over_hub os hb" "closed P" "advances hb abort"
  shows "preserves (on_hub hb P) (tailscale_up os authkey hostname socket timeout abort)"
    and "preserves (on_hub hb P) (tailscale_serve os port service socket timeout abort)"
    and "preserves (on_hub hb P) (spawn_tailscaled os state_file socket userspace)"
    and "preserves (on_hub hb P) (run_vaultwarden os vault_port extra)"
proof -
  note I = kept_time_left [OF assms(1,2)] and R = kept_run_bounded [OF assms]
  have s: "preserves (on_hub hb P) (serve_ready n os socket target deadline abort)" for n target deadline
    by (induction n) (auto intro!: preserves_rules I R hub_keeps [OF assms(1,2)] advances_env [OF assms(3,2)])
  show "preserves (on_hub hb P) (tailscale_up os authkey hostname socket timeout abort)"
    unfolding tailscale_up_def by (intro preserves_rules kept_stage_key [OF assms(1,2)] R kept_drop_key)
  show "preserves (on_hub hb P) (tailscale_serve os port service socket timeout abort)"
    unfolding tailscale_serve_def clear_service_def Let_def
    by (intro preserves_rules I R s hub_keeps [OF assms(1,2)])
  show "preserves (on_hub hb P) (spawn_tailscaled os state_file socket userspace)"
    unfolding spawn_tailscaled_def by (rule kept_spawn [OF assms(1,2)])
  show "preserves (on_hub hb P) (run_vaultwarden os vault_port extra)"
    unfolding run_vaultwarden_def granted_env_def web_vault_flag_def Let_def
    by (intro preserves_rules kept_spawn [OF assms(1,2)] local_on_hub [OF local_op_exists [of "{}"]])
qed

subsection \<open>The auth key on disk\<close>

text \<open>A bounded run changes nothing but the environment.\<close>

definition env_only :: "('e world, 'a) state \<Rightarrow> bool" where
  "env_only m \<longleftrightarrow> (\<forall>w. \<exists>e. snd (run_state m w) = w\<lparr>w_env := e\<rparr>)"

lemma env_onlyD: "env_only m \<Longrightarrow> run_state m w = (a, v) \<Longrightarrow> \<exists>e. v = w\<lparr>w_env := e\<rparr>"
  by (metis env_only_def snd_conv)

lemma env_onlyI: "(\<And>w a v. run_state m w = (a, v) \<Longrightarrow> \<exists>e. v = w\<lparr>w_env := e\<rparr>) \<Longrightarrow> env_only m"
  by (metis env_only_def prod.collapse)

lemma env_only_return: "env_only (ret a)"
proof (rule env_onlyI)
  fix w :: "'a world" and b v
  assume "run_state (ret a) w = (b, v)"
  then have "v = w\<lparr>w_env := w_env w\<rparr>" by simp
  then show "\<exists>e. v = w\<lparr>w_env := e\<rparr>" ..
qed

lemma env_only_env_op: "env_only (env_op f)"
  by (rule env_onlyI) (auto simp: run_env_op)

lemma env_only_bind:
  assumes "env_only m" "\<And>a. env_only (f a)"
  shows "env_only (State_Monad.bind m f)"
proof (rule env_onlyI)
  fix w b v
  assume run: "run_state (State_Monad.bind m f) w = (b, v)"
  obtain a u where u: "run_state m w = (a, u)"
    by (cases "run_state m w")
  then show "\<exists>e. v = w\<lparr>w_env := e\<rparr>"
    using env_onlyD [OF assms(1) u] env_onlyD [OF assms(2), of a u b v] run by auto
qed

lemma env_only_if: "env_only m \<Longrightarrow> env_only n \<Longrightarrow> env_only (if b then m else n)"
  by simp

lemma env_only_option: "env_only m \<Longrightarrow> (\<And>a. env_only (f a)) \<Longrightarrow> env_only (case x of None \<Rightarrow> m | Some a \<Rightarrow> f a)"
  by (cases x) simp_all

lemmas env_only_rules = env_only_return env_only_env_op env_only_bind env_only_if env_only_option

lemma env_only_run_child: "env_only (run_child os timeout cmd abort)"
proof -
  have w: "env_only (handle_wait_from n os h deadline)" for n h deadline
    by (induction n) (auto intro!: env_only_rules)
  have p: "env_only (run_poll n os h start timeout abort cap)" for n h start cap
    by (induction n) (auto simp: handle_wait_def capture_over_def intro!: env_only_rules w)
  show ?thesis
    unfolding run_child_def spawn_def signal_child_def signal_group_def handle_wait_def
    by (intro env_only_rules w p)
qed

lemma env_only_run_bounded: "env_only (run_bounded os timeout prog args abort)"
  unfolding run_bounded_def run_bounded_env_def run_bounded_core_def not_False_eq_True if_True
  by (intro env_only_rules env_only_run_child)

lemma env_only_preserves: "env_only m \<Longrightarrow> (\<And>w e. P w \<Longrightarrow> P (w\<lparr>w_env := e\<rparr>)) \<Longrightarrow> preserves P m"
  by (rule preservesI) (auto dest: env_onlyD)

lemma open_staged_other: "q \<noteq> p \<Longrightarrow> preserves (on_file q P) (open_staged p)"
  by (rule local_preserves_file [OF local_staged(1)]) simp

lemma stage_key_private: "hoare (on_file p (staged_safe b)) (stage_key os authkey)
    (\<lambda>k w. on_file p (if k = Inr (Some p) then staged_private else staged_safe b) w)"
proof (cases authkey)
  case (Some key)
  let ?S = "on_file p (staged_safe b)"
  let ?Q = "\<lambda>k w. on_file p (if k = Inr (Some p) then staged_private else staged_safe b) w"
  have stop: "hoare ?S (ret (Inl ())) ?Q"
    by (rule hoare_return) simp
  have other: "preserves ?S (staged_write q key)" "preserves ?S (staged_drop q)" if "q \<noteq> p" for q
    using that by (auto intro!: local_preserves_file [OF local_staged(2)] local_preserves_file [OF local_staged(3)])
  have drop: "preserves (on_file p staged_private) (staged_drop p)"
    by (rule preservesI) (auto simp: staged_drop_def fs_remove_def staged_private_def dest!: run_next_fault
        split: prod.splits if_splits option.splits)
  have use: "hoare (if q = p then on_file p staged_private else ?S) (do {
      r \<leftarrow> staged_write q key;
      case r of Inl _ \<Rightarrow> do { staged_drop q; ret (Inl ()) } | Inr _ \<Rightarrow> ret (Inr (Some q)) }) ?Q" for q
  proof (cases "q = p")
    case True
    have "hoare (on_file p staged_private) (ret (Inl ())) ?Q" "hoare (on_file p staged_private) (ret (Inr (Some p))) ?Q"
      by (rule hoare_return, simp add: staged_private_safe)+
    then show ?thesis
      unfolding True if_P [OF refl] by (intro hoare_keep [OF staged_write_private] hoare_sum hoare_keep [OF drop])
  next
    case False
    have "hoare ?S (ret (Inr (Some q))) ?Q"
      by (rule hoare_return) (simp add: False)
    with False show ?thesis
      by (simp, intro hoare_keep [OF other(1) [OF False]] hoare_sum hoare_keep [OF other(2) [OF False]] stop)
  qed
  have create: "hoare ?S (open_staged q) (\<lambda>r. case r of Inl _ \<Rightarrow> ?S | Inr _ \<Rightarrow> if q = p then on_file p staged_private else ?S)" for q
  proof (cases "q = p")
    case True
    show ?thesis
      unfolding True by (rule hoare_post [OF open_staged_private [of b p]]) (auto split: sum.splits)
  next
    case False
    show ?thesis
      by (rule hoare_post [OF hoare_lift [OF open_staged_other [OF False [symmetric], where P = "staged_safe b"]]])
        (use False in \<open>auto split: sum.splits\<close>)
  qed
  have seq: "preserves ?S (env_op f)" for f :: "'a \<Rightarrow> u64 \<times> 'a"
    by (rule framed_preserves [OF framed_env_op, of _ "{}"]) simp
  have "hoare ?S (staged_create (os_names os) ''ts-authkey'')
      (\<lambda>r. case r of Inl _ \<Rightarrow> ?S | Inr q \<Rightarrow> if q = p then on_file p staged_private else ?S)"
    unfolding staged_create_def Let_def
    by (intro hoare_keep [OF seq] hoare_bind [OF create] hoare_return) (auto split: sum.splits)
  then show ?thesis
    unfolding Some stage_key_def option.case
  proof (rule hoare_bind)
    fix r :: "io_error + string"
    show "hoare (case r of Inl _ \<Rightarrow> ?S | Inr q \<Rightarrow> if q = p then on_file p staged_private else ?S) (case r of Inl _ \<Rightarrow> ret (Inl ())
      | Inr q \<Rightarrow> do { r \<leftarrow> staged_write q key;
          case r of Inl _ \<Rightarrow> do { staged_drop q; ret (Inl ()) } | Inr _ \<Rightarrow> ret (Inr (Some q)) }) ?Q"
    proof (cases r)
      case (Inr q)
      show ?thesis
        unfolding Inr sum.case by (rule use)
    qed (simp add: stop)
  qed
qed (simp add: stage_key_def hoare_return)

lemma tailscale_up_private:
  "preserves (on_file p (staged_safe b)) (tailscale_up os authkey hostname socket timeout abort)"
proof -
  have fin: "hoare (on_file p (if Inr kf = Inr (Some p) then staged_private else staged_safe b)) (do {
      ok \<leftarrow> run_bounded os timeout TAILSCALE (up_args socket kf hostname) abort; drop_key kf; ret ok })
      (\<lambda>_. on_file p (staged_safe b))" for kf :: "string option"
  proof (cases "kf = Some p")
    case True
    have "preserves (on_file p staged_private) (staged_drop p)"
      by (rule preservesI) (auto simp: staged_drop_def fs_remove_def staged_private_def dest!: run_next_fault
          split: prod.splits if_splits option.splits)
    then show ?thesis
      unfolding True drop_key_def
      by (simp, intro hoare_keep [OF env_only_preserves [OF env_only_run_bounded]] hoare_keep hoare_return)
        (simp_all add: staged_private_safe)
  next
    case False
    have "preserves (on_file p (staged_safe b)) (drop_key kf)"
      using False unfolding drop_key_def
      by (intro preserves_rules local_preserves_file [OF local_staged(3)]) simp
    with False show ?thesis
      by (simp, intro hoare_keep [OF env_only_preserves [OF env_only_run_bounded]] hoare_keep hoare_return) simp_all
  qed
  show ?thesis
    unfolding preserves_def tailscale_up_def
  proof (rule hoare_bind [OF stage_key_private])
    fix k :: "unit + string option"
    show "hoare (on_file p (if k = Inr (Some p) then staged_private else staged_safe b)) (case k of Inl _ \<Rightarrow> ret False
      | Inr kf \<Rightarrow> do { ok \<leftarrow> run_bounded os timeout TAILSCALE (up_args socket kf hostname) abort; drop_key kf; ret ok })
      (\<lambda>_. on_file p (staged_safe b))"
      using fin by (cases k) (simp_all add: hoare_return)
  qed
qed

text \<open>When nothing fails, no staged key stays.\<close>

definition no_key :: "inode option \<Rightarrow> string \<Rightarrow> 'e world \<Rightarrow> bool" where
  "no_key b p w \<longleftrightarrow> w_faults w = [] \<and> as_before b (file_at w p)"

lemma stage_key_calm: "hoare (no_key b p) (stage_key os authkey)
    (\<lambda>k w. w_faults w = [] \<and> (k \<noteq> Inr (Some p) \<longrightarrow> no_key b p w))"
  by (rule hoareI)
    (auto simp: no_key_def as_before_def stage_key_def staged_create_def open_staged_def fs_create_new_def staged_write_def write_all_def
      fs_sync_def fs_dir_op_def staged_drop_def fs_remove_def next_fault_def run_env_op opened_def appended_def Let_def
      split: option.splits if_splits sum.splits prod.splits)

lemma tailscale_up_calm: "preserves (no_key b p) (tailscale_up os authkey hostname socket timeout abort)"
proof -
  let ?K = "\<lambda>kf w. w_faults w = [] \<and> (kf \<noteq> Some p \<longrightarrow> no_key b p w)"
  have run: "preserves (?K kf) (run_bounded os timeout TAILSCALE args abort)" for kf args
    by (rule env_only_preserves [OF env_only_run_bounded]) (simp add: no_key_def)
  have drop: "hoare (?K kf) (drop_key kf) (\<lambda>_. no_key b p)" for kf
    by (rule hoareI) (auto simp: no_key_def as_before_def drop_key_def staged_drop_def fs_remove_def next_fault_def
        split: option.splits if_splits)
  show ?thesis
    unfolding preserves_def tailscale_up_def
  proof (rule hoare_bind [OF stage_key_calm])
    fix k :: "unit + string option"
    show "hoare (\<lambda>w. w_faults w = [] \<and> (k \<noteq> Inr (Some p) \<longrightarrow> no_key b p w)) (case k of Inl _ \<Rightarrow> ret False
      | Inr kf \<Rightarrow> do { ok \<leftarrow> run_bounded os timeout TAILSCALE (up_args socket kf hostname) abort; drop_key kf; ret ok })
      (\<lambda>_. no_key b p)"
    proof (cases k)
      case (Inr kf)
      have "hoare (?K kf) (do { ok \<leftarrow> run_bounded os timeout TAILSCALE (up_args socket kf hostname) abort; drop_key kf; ret ok })
          (\<lambda>_. no_key b p)"
        by (intro hoare_keep [OF run] hoare_bind [OF drop] hoare_return)
      then show ?thesis by (simp add: Inr)
    next
      case (Inl e)
      show ?thesis
        unfolding Inl sum.case by (rule hoare_return) simp
    qed
  qed
qed

subsection \<open>The check of the serve status\<close>

lemma contains_str_prefix: "prefix pat s \<Longrightarrow> contains_str pat s"
  by (cases s) auto

lemma contains_str_append: "contains_str pat s \<Longrightarrow> contains_str pat (a @ s)"
  by (induction a) auto

lemma serve_status_prefix: "serve_status_has (a @ serve_target (port @ digits) @ b) (serve_target port)"
  unfolding serve_status_has_def serve_target_def
  by (intro contains_str_append contains_str_prefix) (simp add: prefix_def)

end
