(* ===== verification/Gate.thy ===== *)
theory Gate
  imports Process
begin

text \<open>
  \<open>runtime/gate\<close>: the listener on the exposed port. It answers a request with one of three
  canned responses; only \<open>GET /alive\<close> reaches the vault, through a probe whose verdict is cached.
  Sockets are the parameters of \<open>net\<close>. The admission limit is a step relation of the accept
  loop and the handler threads.
\<close>

subsection \<open>Sockets\<close>

datatype net_read = Bytes string | ReadTimedOut | ReadBroken

record 'e net =
  nt_clock :: "'e clock"
  nt_connect :: "u16 \<Rightarrow> nat \<Rightarrow> 'e \<Rightarrow> bool \<times> 'e"  \<comment> \<open>to \<open>127.0.0.1\<close>\<close>
  nt_read_timeout :: "nat \<Rightarrow> 'e \<Rightarrow> bool \<times> 'e"
  nt_write_timeout :: "nat \<Rightarrow> 'e \<Rightarrow> bool \<times> 'e"
  nt_write :: "string \<Rightarrow> 'e \<Rightarrow> bool \<times> 'e"
  nt_read :: "nat \<Rightarrow> 'e \<Rightarrow> net_read \<times> 'e"
  nt_bind6 :: "u16 \<Rightarrow> 'e \<Rightarrow> bool \<times> 'e"
  nt_bind4 :: "u16 \<Rightarrow> 'e \<Rightarrow> bool \<times> 'e"

text \<open>
  The read loop that the probe and the server share: up to a newline, the end of the stream, a
  full buffer or the deadline. A read fills at most the room it was given.
\<close>

datatype head = HeadLine string | HeadEof string | HeadFull | HeadLate | HeadNoTimeout | HeadTimedOut | HeadBroken

function (sequential) read_head :: "'e net \<Rightarrow> nat \<Rightarrow> nat \<Rightarrow> string \<Rightarrow> ('e world, head) state" where
  "read_head nt cap deadline buf =
     (if NL \<in> set buf then ret (HeadLine (takeWhile (\<lambda>c. c \<noteq> NL) buf))
      else if cap \<le> length buf then ret HeadFull
      else do {
        now \<leftarrow> env_op (ck_now (nt_clock nt));
        if deadline - now = 0 then ret HeadLate
        else do {
          ok \<leftarrow> env_op (nt_read_timeout nt (deadline - now));
          if \<not> ok then ret HeadNoTimeout
          else do {
            r \<leftarrow> env_op (nt_read nt (cap - length buf));
            case r of
              Bytes d \<Rightarrow> if d = [] then ret (HeadEof buf)
                else read_head nt cap deadline (buf @ take (cap - length buf) d)
            | ReadTimedOut \<Rightarrow> ret HeadTimedOut
            | ReadBroken \<Rightarrow> ret HeadBroken } } })"
  by pat_completeness auto
termination
  by (relation "measure (\<lambda>(nt, cap, deadline, buf). cap - length buf)") (auto simp: min_def neq_Nil_conv)

declare read_head.simps [simp del]

subsection \<open>The probe\<close>

definition PROBE_TIMEOUT :: nat where "PROBE_TIMEOUT = 2000"

definition PROBE_REQUEST :: string where
  "PROBE_REQUEST = ''GET /alive HTTP/1.1'' @ [CR, NL] @ ''Host: vault'' @ [CR, NL] @ ''Connection: close'' @ [CR, NL, CR, NL]"

definition status_2xx :: "string \<Rightarrow> bool" where
  "status_2xx line \<longleftrightarrow> utf8_ok line \<and> (case split_ws line of
     _ # c # _ \<Rightarrow> (case parse_u16 c of Some v \<Rightarrow> 200 \<le> unat v \<and> unat v < 300 | None \<Rightarrow> False)
   | _ \<Rightarrow> False)"

definition probe_verdict :: "head \<Rightarrow> bool" where
  "probe_verdict h = (case h of HeadLine l \<Rightarrow> status_2xx l | HeadEof l \<Rightarrow> status_2xx l | _ \<Rightarrow> False)"

definition get_alive :: "'e net \<Rightarrow> u16 \<Rightarrow> nat \<Rightarrow> ('e world, bool) state" where
  "get_alive nt port timeout = do {
     now \<leftarrow> env_op (ck_now (nt_clock nt));
     let deadline = now + timeout;
     c \<leftarrow> env_op (nt_connect nt port timeout);
     if \<not> c then ret False
     else do {
       now \<leftarrow> env_op (ck_now (nt_clock nt));
       if deadline - now = 0 then ret False
       else do {
         ok \<leftarrow> env_op (nt_read_timeout nt (deadline - now));
         if \<not> ok then ret False
         else do {
           env_op (nt_write_timeout nt (deadline - now));
           sent \<leftarrow> env_op (nt_write nt PROBE_REQUEST);
           if \<not> sent then ret False
           else do { h \<leftarrow> read_head nt 1024 deadline []; ret (probe_verdict h) } } } } }"

subsection \<open>The cached verdict\<close>

record liveness =
  lv_vault :: "u16 option"
  lv_ttl :: nat
  lv_verdict :: "(nat \<times> bool) option"

definition PROBE_TTL :: nat where "PROBE_TTL = PROBE_TIMEOUT"

definition liveness_new :: "u16 option \<Rightarrow> liveness" where
  "liveness_new vault = \<lparr>lv_vault = vault, lv_ttl = PROBE_TTL, lv_verdict = None\<rparr>"

definition probe_now :: "'e net \<Rightarrow> liveness \<Rightarrow> ('e world, bool \<times> liveness) state" where
  "probe_now nt lv = do {
     ok \<leftarrow> (case lv_vault lv of None \<Rightarrow> ret False | Some port \<Rightarrow> get_alive nt port PROBE_TIMEOUT);
     now \<leftarrow> env_op (ck_now (nt_clock nt));
     ret (ok, lv\<lparr>lv_verdict := Some (now, ok)\<rparr>) }"

definition alive :: "'e net \<Rightarrow> liveness \<Rightarrow> ('e world, bool \<times> liveness) state" where
  "alive nt lv = (case lv_verdict lv of None \<Rightarrow> probe_now nt lv
     | Some (at, ok) \<Rightarrow> do {
         now \<leftarrow> env_op (ck_now (nt_clock nt));
         if now - at < lv_ttl lv then ret (ok, lv) else probe_now nt lv })"

subsection \<open>The server\<close>

definition REQ_CAP :: nat where "REQ_CAP = 2048"
definition READ_TIMEOUT :: nat where "READ_TIMEOUT = 5000"
definition MAX_CONNS :: nat where "MAX_CONNS = 32"

definition line_of :: "string \<Rightarrow> string" where
  "line_of bytes = (if \<not> utf8_ok bytes then []
     else case str_lines bytes of [] \<Rightarrow> [] | l # _ \<Rightarrow> trim l)"

definition target_path :: "string \<Rightarrow> string" where
  "target_path target = (case split_once ''://'' target of None \<Rightarrow> target
     | Some (_, r) \<Rightarrow> dropWhile (\<lambda>c. c \<noteq> CHR ''/'') r)"

definition alive_target :: "string \<Rightarrow> bool" where
  "alive_target target \<longleftrightarrow> takeWhile (\<lambda>c. c \<noteq> CHR ''?'') (target_path target) = ''/alive''"

definition is_alive_request :: "string \<Rightarrow> bool" where
  "is_alive_request line = (case split_ws line of
     m # target # _ \<Rightarrow> m = ''GET'' \<and> alive_target target | _ \<Rightarrow> False)"

definition respond :: "string \<Rightarrow> string \<Rightarrow> string" where
  "respond code text = ''HTTP/1.1 '' @ code @ '' '' @ text @ [CR, NL] @ ''Content-Length: 0'' @ [CR, NL]
     @ ''Connection: close'' @ [CR, NL, CR, NL]"

definition FORBIDDEN :: string where "FORBIDDEN = respond ''403'' ''Forbidden''"
definition VAULT_UP :: string where "VAULT_UP = respond ''200'' ''OK''"
definition VAULT_DOWN :: string where "VAULT_DOWN = respond ''503'' ''Service Unavailable''"

text \<open>The request line; \<open>None\<close> is a dead socket, which gets no answer.\<close>

definition request_line :: "'e net \<Rightarrow> nat \<Rightarrow> ('e world, string option) state" where
  "request_line nt budget = do {
     now \<leftarrow> env_op (ck_now (nt_clock nt));
     h \<leftarrow> read_head nt REQ_CAP (now + budget) [];
     ret (case h of HeadLine l \<Rightarrow> Some (line_of l) | HeadEof l \<Rightarrow> Some (line_of l)
       | HeadFull \<Rightarrow> Some [] | HeadLate \<Rightarrow> Some [] | HeadTimedOut \<Rightarrow> Some []
       | HeadNoTimeout \<Rightarrow> None | HeadBroken \<Rightarrow> None) }"

text \<open>The bytes handed to the socket, and the cache afterwards.\<close>

definition handle_with :: "'e net \<Rightarrow> liveness \<Rightarrow> nat \<Rightarrow> ('e world, string option \<times> liveness) state" where
  "handle_with nt lv budget = do {
     l \<leftarrow> request_line nt budget;
     case l of None \<Rightarrow> ret (None, lv)
     | Some line \<Rightarrow>
         if \<not> is_alive_request line then do { env_op (nt_write nt FORBIDDEN); ret (Some FORBIDDEN, lv) }
         else do {
           (ok, lv) \<leftarrow> alive nt lv;
           env_op (nt_write nt (if ok then VAULT_UP else VAULT_DOWN));
           ret (Some (if ok then VAULT_UP else VAULT_DOWN), lv) } }"

definition handle_conn :: "'e net \<Rightarrow> liveness \<Rightarrow> ('e world, string option \<times> liveness) state" where
  "handle_conn nt lv = handle_with nt lv READ_TIMEOUT"

text \<open>Over the limit: the response of a vault that is down, without a thread.\<close>

definition reject_conn :: "'e net \<Rightarrow> ('e world, string) state" where
  "reject_conn nt = do { env_op (nt_write nt VAULT_DOWN); ret VAULT_DOWN }"

definition is_per_connection :: "nat option \<Rightarrow> bool" where
  "is_per_connection errno \<longleftrightarrow> errno = Some 103 \<or> errno = Some 4"  \<comment> \<open>\<open>ECONNABORTED\<close>, \<open>EINTR\<close>\<close>

definition dual_stack_wildcard :: "('e world, bool) state" where
  "dual_stack_wildcard = do {
     r \<leftarrow> fs_read_to_string ''/proc/sys/net/ipv6/bindv6only'';
     ret (case r of Inl _ \<Rightarrow> False | Inr v \<Rightarrow> trim v = ''0'') }"

definition gate_bind :: "'e net \<Rightarrow> string \<Rightarrow> ('e world, bool) state" where
  "gate_bind nt port = (case parse_u16 port of None \<Rightarrow> ret False
     | Some p \<Rightarrow> do {
         dual \<leftarrow> dual_stack_wildcard;
         six \<leftarrow> (if dual then env_op (nt_bind6 nt p) else ret False);
         if six then ret True else env_op (nt_bind4 nt p) })"

subsection \<open>The one-shot health check\<close>

definition HEALTHCHECK_TIMEOUT :: nat where "HEALTHCHECK_TIMEOUT = 6000"

definition healthcheck_until :: "'e net \<Rightarrow> u16 \<Rightarrow> nat \<Rightarrow> ('e world, bool) state" where
  "healthcheck_until nt port budget = do {
     r \<leftarrow> wait_until (nt_clock nt)
       (do { ok \<leftarrow> get_alive nt port PROBE_TIMEOUT; ret (if ok then Some () else None) }) budget never POLL;
     ret (r \<noteq> None) }"

definition healthcheck :: "'e net \<Rightarrow> string \<Rightarrow> ('e world, bool) state" where
  "healthcheck nt exposed = (case parse_u16 exposed of None \<Rightarrow> ret False
     | Some p \<Rightarrow> if p = 0 then ret False else healthcheck_until nt p HEALTHCHECK_TIMEOUT)"

subsection \<open>Admission\<close>

record gate =
  gt_max :: nat
  gt_active :: nat  \<comment> \<open>the atomic counter\<close>
  gt_admitting :: bool  \<comment> \<open>the accept loop holds a permit\<close>
  gt_handlers :: nat  \<comment> \<open>handler threads, each with its permit\<close>

definition gate_start :: "nat \<Rightarrow> gate" where
  "gate_start m = \<lparr>gt_max = m, gt_active = 0, gt_admitting = False, gt_handlers = 0\<rparr>"

definition try_acquire :: "gate \<Rightarrow> gate option" where
  "try_acquire s = (if gt_active s < gt_max s then Some (s\<lparr>gt_active := gt_active s + 1\<rparr>) else None)"

definition release :: "gate \<Rightarrow> gate" where
  "release s = s\<lparr>gt_active := gt_active s - 1\<rparr>"

inductive gate_step :: "gate \<Rightarrow> gate \<Rightarrow> bool" where
  Admit: "\<not> gt_admitting s \<Longrightarrow> try_acquire s = Some t \<Longrightarrow> gate_step s (t\<lparr>gt_admitting := True\<rparr>)"
| Reject: "\<not> gt_admitting s \<Longrightarrow> try_acquire s = None \<Longrightarrow> gate_step s s"
| Started: "gt_admitting s \<Longrightarrow> gate_step s (s\<lparr>gt_admitting := False, gt_handlers := gt_handlers s + 1\<rparr>)"
| NotStarted: "gt_admitting s \<Longrightarrow> gate_step s (release (s\<lparr>gt_admitting := False\<rparr>))"
| Finished: "0 < gt_handlers s \<Longrightarrow> gate_step s (release (s\<lparr>gt_handlers := gt_handlers s - 1\<rparr>))"

inductive_cases gate_stepE: "gate_step s t"

definition gate_ok :: "gate \<Rightarrow> bool" where
  "gate_ok s \<longleftrightarrow> gt_active s = gt_handlers s + (if gt_admitting s then 1 else 0) \<and> gt_active s \<le> gt_max s"

interpretation gate: machine "\<lambda>s. \<exists>m. s = gate_start m" gate_step gate_ok
  by unfold_locales
    (auto simp: gate_ok_def gate_start_def try_acquire_def release_def elim!: gate_stepE split: if_splits)

lemma gate_max_kept: "gate_step\<^sup>*\<^sup>* s t \<Longrightarrow> gt_max t = gt_max s"
  by (induction rule: rtranclp_induct)
    (auto simp: try_acquire_def release_def elim!: gate_stepE split: if_splits)

subsection \<open>What the listener discloses\<close>

lemma handle_cases:
  assumes "run_state (request_line nt budget) w = (l, u)" "run_state (handle_with nt lv budget) w = ((r, lv'), v)"
  shows "if l = None then r = None \<and> lv' = lv
    else if \<not> is_alive_request (the l) then r = Some FORBIDDEN \<and> lv' = lv
    else r = Some (if fst (fst (run_state (alive nt lv) u)) then VAULT_UP else VAULT_DOWN)"
  using assms by (auto simp: handle_with_def run_env_op split: option.splits if_splits prod.splits)

lemma split_once_None: "split_once pat s = None \<Longrightarrow> pat \<noteq> [] \<Longrightarrow> s \<noteq> a @ pat @ b"
proof (induction s arbitrary: a)
  case (Cons c s)
  then show ?case
    by (cases a) (auto simp: prefix_def split: if_splits)
qed auto

text \<open>A target without \<open>://\<close> matches exactly as \<open>/alive\<close>, with or without a query.\<close>

lemma alive_target_origin:
  assumes "split_once ''://'' target = None"
  shows "alive_target target \<longleftrightarrow> target = ''/alive'' \<or> (\<exists>q. target = ''/alive?'' @ q)"
proof -
  have "takeWhile (\<lambda>c. c \<noteq> CHR ''?'') t = a \<longleftrightarrow> t = a \<or> (\<exists>q. t = a @ CHR ''?'' # q)" if "CHR ''?'' \<notin> set a" for a t
  proof
    assume tw: "takeWhile (\<lambda>c. c \<noteq> CHR ''?'') t = a"
    show "t = a \<or> (\<exists>q. t = a @ CHR ''?'' # q)"
    proof (cases "dropWhile (\<lambda>c. c \<noteq> CHR ''?'') t")
      case Nil
      then have "t = a" using tw by (metis append_Nil2 takeWhile_dropWhile_id)
      then show ?thesis ..
    next
      case (Cons c q)
      then have "c = CHR ''?''"
        using hd_dropWhile [of "\<lambda>c. c \<noteq> CHR ''?''" t] by auto
      then have "t = a @ CHR ''?'' # q"
        using tw Cons takeWhile_dropWhile_id [of "\<lambda>c. c \<noteq> CHR ''?''" t] by simp
      then show ?thesis by blast
    qed
  next
    assume "t = a \<or> (\<exists>q. t = a @ CHR ''?'' # q)"
    with that show "takeWhile (\<lambda>c. c \<noteq> CHR ''?'') t = a"
      by (auto simp: takeWhile_append takeWhile_eq_all_conv)
  qed
  from this [of "''/alive''" target] show ?thesis
    using assms by (simp add: alive_target_def target_path_def)
qed

lemma alive_cached:
  assumes "lv_verdict lv = Some (at, ok)" "run_state (env_op (ck_now (nt_clock nt))) w = (now, v)" "now < at + lv_ttl lv" "0 < lv_ttl lv"
  shows "run_state (alive nt lv) w = ((ok, lv), v)"
  using assms by (simp add: alive_def less_diff_conv2 split: option.split) linarith

text \<open>The head is bounded: what is read never exceeds the buffer.\<close>

definition head_text :: "head \<Rightarrow> string" where
  "head_text h = (case h of HeadLine l \<Rightarrow> l | HeadEof l \<Rightarrow> l | _ \<Rightarrow> [])"

lemma read_head_bounded: "length buf \<le> cap \<Longrightarrow> length (head_text (fst (run_state (read_head nt cap deadline buf) w))) \<le> cap"
proof (induction nt cap deadline buf arbitrary: w rule: read_head.induct)
  case (1 nt cap deadline buf)
  show ?case
  proof (cases "NL \<in> set buf \<or> cap \<le> length buf")
    case True
    then show ?thesis
      using 1(2) le_trans [OF length_takeWhile_le 1(2)]
      by (subst read_head.simps) (auto simp: head_text_def)
  next
    case False
    show ?thesis
    proof (cases "deadline = 0")
      case True
      with False show ?thesis
        by (subst read_head.simps) (simp add: run_env_op head_text_def)
    next
      case pos: False
      have "length (head_text (fst (run_state (read_head nt cap deadline (buf @ take (cap - length buf) d)) u))) \<le> cap"
        if "d \<noteq> []" for d u
        by (rule 1(1) [of 0 True]) (use False pos that 1(2) in auto)
      then show ?thesis
        using False 1(2) by (subst read_head.simps)
          (auto simp: run_env_op head_text_def [of "HeadEof _"] head_text_def [of HeadLate] head_text_def [of HeadNoTimeout]
            head_text_def [of HeadTimedOut] head_text_def [of HeadBroken] split: net_read.split)
    qed
  qed
qed

text \<open>
  What the client's socket can do: everything but connecting. A predicate on the environment that these
  calls keep, such as the number of connections to the vault, is kept unless the vault is probed.
\<close>

definition client_side :: "'e net \<Rightarrow> ('e \<Rightarrow> bool) \<Rightarrow> bool" where
  "client_side nt P \<longleftrightarrow> (\<forall>e. P e \<longrightarrow> P (snd (ck_now (nt_clock nt) e)) \<and> (\<forall>d. P (snd (nt_read_timeout nt d e))) \<and>
     (\<forall>n. P (snd (nt_read nt n e))) \<and> (\<forall>s. P (snd (nt_write nt s e))))"

lemma client_side_keeps:
  assumes "client_side nt P"
  shows "preserves (on_env P) (env_op (ck_now (nt_clock nt)))" "preserves (on_env P) (env_op (nt_read_timeout nt d))"
    "preserves (on_env P) (env_op (nt_read nt n))" "preserves (on_env P) (env_op (nt_write nt s))"
  using assms by (auto intro!: env_op_preserves_env simp: client_side_def)

lemma read_head_keeps:
  assumes "client_side nt P"
  shows "preserves (on_env P) (read_head nt cap deadline buf)"
  using assms
proof (induction nt cap deadline buf rule: read_head.induct)
  case (1 nt cap deadline buf)
  note K = client_side_keeps [OF 1(2)]
  have step: "preserves (on_env P) (case r of
              Bytes d \<Rightarrow> if d = [] then ret (HeadEof buf)
                else read_head nt cap deadline (buf @ take (cap - length buf) d)
            | ReadTimedOut \<Rightarrow> ret HeadTimedOut
            | ReadBroken \<Rightarrow> ret HeadBroken)" if "NL \<notin> set buf" "\<not> cap \<le> length buf" "deadline - now \<noteq> 0" for r now
    using 1(1) [OF that(1,2,3), of True] 1(2) by (cases r) auto
  show ?case
    by (subst read_head.simps) (intro preserves_rules K step; assumption)
qed

lemma request_line_keeps: "client_side nt P \<Longrightarrow> preserves (on_env P) (request_line nt budget)"
  unfolding request_line_def by (intro preserves_rules client_side_keeps read_head_keeps) simp_all

lemma handle_keeps_vault:
  assumes "client_side nt P" "P (w_env w)" "run_state (request_line nt budget) w = (l, u)"
    and "run_state (handle_with nt lv budget) w = ((r, lv'), v)" "\<And>line. l = Some line \<Longrightarrow> \<not> is_alive_request line"
  shows "P (w_env v)"
proof -
  have u: "P (w_env u)"
    by (rule preservesD [OF request_line_keeps [OF assms(1)] assms(2,3)])
  with assms client_side_keeps(4) [OF assms(1), of FORBIDDEN] show ?thesis
    by (cases l) (auto simp: handle_with_def dest: preservesD split: prod.splits)
qed

end
