(* ===== verification/ObjectStore.thy ===== *)
theory ObjectStore
  imports S3Get
begin

text \<open>
  What the backup and the state sync rely on from the bucket client, as a contract over the
  record \<open>store\<close>. \<open>bk\<close> is the bucket's content as the outside world holds it. A write that
  reports success took effect; one that reports failure may have taken effect or not (a lost
  response looks like a failure). \<open>calm\<close> are the abort checks that leave the bucket alone. The callers' facts about single operations are proved once,
  inside the locale.
\<close>

definition quiet :: "('e \<Rightarrow> 'v) \<Rightarrow> ('e \<Rightarrow> 'a \<times> 'e) \<Rightarrow> bool" where
  "quiet bk f \<longleftrightarrow> (\<forall>e. bk (snd (f e)) = bk e)"

abbreviation bucket :: "('e \<Rightarrow> string \<Rightarrow> string option) \<Rightarrow> 'e world \<Rightarrow> string \<Rightarrow> string option" where
  "bucket bk w \<equiv> bk (w_env w)"

lemma env_op_quiet: "quiet bk f \<Longrightarrow> preserves (\<lambda>w. P (bucket bk w)) (env_op f)"
proof (rule preservesI)
  fix w a v
  assume q: "quiet bk f" and P: "P (bucket bk w)" and r: "run_state (env_op f) w = (a, v)"
  from r have "w_env v = snd (f (w_env w))"
    by (auto simp: env_op_def split: prod.splits)
  with q P show "P (bucket bk v)"
    by (simp add: quiet_def)
qed

locale object_store =
  fixes st :: "'e store" and bk :: "'e \<Rightarrow> string \<Rightarrow> string option" and calm :: "'e abort \<Rightarrow> bool"
  assumes calm_law: "calm abort \<Longrightarrow> quiet bk abort"
    and put_law: "calm abort \<Longrightarrow> run_state (st_put st key path abort) w = (r, v) \<Longrightarrow>
      w_fs v = w_fs w \<and> (bucket bk v = bucket bk w \<and> r \<noteq> Inr () \<or>
        (\<exists>d. data_at w path = Some d \<and> bucket bk v = (bucket bk w)(key \<mapsto> d)))"
    and put_bytes_law: "calm abort \<Longrightarrow> run_state (st_put_bytes st key bytes abort) w = (r, v) \<Longrightarrow>
      w_fs v = w_fs w \<and> (bucket bk v = bucket bk w \<and> r \<noteq> Inr () \<or>
        bucket bk v = (bucket bk w)(key \<mapsto> bytes))"
    and delete_law: "calm abort \<Longrightarrow> run_state (st_delete st key abort) w = (r, v) \<Longrightarrow>
      w_fs v = w_fs w \<and> (bucket bk v = bucket bk w \<and> r \<noteq> Inr () \<or>
        bucket bk v = (bucket bk w)(key := None))"
    and get_law: "calm abort \<Longrightarrow> run_state (st_get st key path ex abort) w = (r, v) \<Longrightarrow>
      bucket bk v = bucket bk w \<and> (\<forall>q. q \<noteq> path \<longrightarrow> q \<noteq> part_of path \<longrightarrow> file_at v q = file_at w q) \<and>
      (r \<noteq> Inr () \<longrightarrow> file_at v path = file_at w path)"
    and get_text_law: "calm abort \<Longrightarrow> run_state (st_get_text st key cap abort) w = (rt, v) \<Longrightarrow>
      w_fs v = w_fs w \<and> bucket bk v = bucket bk w \<and> (\<forall>t. rt = Inr t \<longrightarrow> bucket bk w key = t)"
    and list_law: "calm abort \<Longrightarrow> run_state (st_list st pre abort) w = (rl, v) \<Longrightarrow>
      w_fs v = w_fs w \<and> bucket bk v = bucket bk w \<and>
      (\<forall>ls. rl = Inr ls \<longrightarrow> li_key ` set ls = {k. prefix pre k \<and> bucket bk w k \<noteq> None} \<and>
        sorted (map li_key ls) \<and> distinct (map li_key ls) \<and> length ls \<le> MAX_LIST_KEYS)"
begin

lemma put_preserves_fs: "calm abort \<Longrightarrow> preserves (on_fs P) (st_put st key path abort)"
  by (rule preservesI, frule (1) put_law) auto

lemma put_bytes_preserves_fs: "calm abort \<Longrightarrow> preserves (on_fs P) (st_put_bytes st key bytes abort)"
  by (rule preservesI, frule (1) put_bytes_law) auto

lemma delete_preserves_fs: "calm abort \<Longrightarrow> preserves (on_fs P) (st_delete st key abort)"
  by (rule preservesI, frule (1) delete_law) auto

lemma get_text_preserves_fs: "calm abort \<Longrightarrow> preserves (on_fs P) (st_get_text st key cap abort)"
  by (rule preservesI, frule (1) get_text_law) auto

lemma list_preserves_fs: "calm abort \<Longrightarrow> preserves (on_fs P) (st_list st pre abort)"
  by (rule preservesI, frule (1) list_law) auto

lemma get_preserves_bucket:
  "calm abort \<Longrightarrow> preserves (\<lambda>w. P (bucket bk w)) (st_get st key path ex abort)"
  by (rule preservesI, frule (1) get_law) auto

lemma get_text_preserves_bucket:
  "calm abort \<Longrightarrow> preserves (\<lambda>w. P (bucket bk w)) (st_get_text st key cap abort)"
  by (rule preservesI, frule (1) get_text_law) auto

lemma list_preserves_bucket: "calm abort \<Longrightarrow> preserves (\<lambda>w. P (bucket bk w)) (st_list st pre abort)"
  by (rule preservesI, frule (1) list_law) auto

text \<open>A failed or finished upload never touches another key and never loses its own.\<close>

lemma put_other: "calm abort \<Longrightarrow> k \<noteq> key \<Longrightarrow>
    preserves (\<lambda>w. P (bucket bk w k)) (st_put st key path abort)"
  by (rule preservesI, frule (1) put_law) auto

lemma put_keeps: "calm abort \<Longrightarrow> preserves (\<lambda>w. bucket bk w k \<noteq> None) (st_put st key path abort)"
  by (rule preservesI, frule (1) put_law) auto

lemma put_bytes_other: "calm abort \<Longrightarrow> k \<noteq> key \<Longrightarrow>
    preserves (\<lambda>w. P (bucket bk w k)) (st_put_bytes st key bytes abort)"
  by (rule preservesI, frule (1) put_bytes_law) auto

lemma put_bytes_keeps:
  "calm abort \<Longrightarrow> preserves (\<lambda>w. bucket bk w k \<noteq> None) (st_put_bytes st key bytes abort)"
  by (rule preservesI, frule (1) put_bytes_law) auto

lemma delete_other: "calm abort \<Longrightarrow> k \<noteq> key \<Longrightarrow>
    preserves (\<lambda>w. P (bucket bk w k)) (st_delete st key abort)"
  by (rule preservesI, frule (1) delete_law) auto

lemma put_stores: "calm abort \<Longrightarrow>
    hoare (\<lambda>_. True) (st_put st key path abort) (on_ok (\<lambda>_ w. bucket bk w key = data_at w path \<and>
      bucket bk w key \<noteq> None))"
  by (rule hoareI, frule (1) put_law) (auto simp: on_ok_def data_at_def split: sum.splits)

lemma put_bytes_stores: "calm abort \<Longrightarrow>
    hoare (\<lambda>_. True) (st_put_bytes st key bytes abort) (on_ok (\<lambda>_ w. bucket bk w key = Some bytes))"
  by (rule hoareI, frule (1) put_bytes_law) (auto simp: on_ok_def split: sum.splits)

lemma get_text_reads: "calm abort \<Longrightarrow>
    hoare (\<lambda>_. True) (st_get_text st key cap abort) (on_ok (\<lambda>t w. bucket bk w key = t))"
  by (rule hoareI, frule (1) get_text_law) (auto simp: on_ok_def split: sum.splits)

end

end
