(* ===== verification/SyncManifest.thy ===== *)
theory SyncManifest
  imports World
begin

text \<open>
  \<open>runtime/sync/manifest.rs\<close> and \<open>runtime/sync/cache.rs\<close>: the bucket-side record of the
  synced files and the local hash cache, their text formats and the proofs that each format reads
  back what it writes, for the names a line can carry.
\<close>

subsection \<open>The manifest\<close>

definition MANIFEST_NAME :: string where "MANIFEST_NAME = ''manifest''"
definition MAX_MANIFEST_BYTES :: nat where "MAX_MANIFEST_BYTES = 4 * 1024 * 1024"

record entry =
  en_size :: u64
  en_sha256 :: string

type_synonym manifest = "(string, entry) btree"

datatype manifest_error = MissingHeader | MissingFields | BadSha | BadSize | EmptyPath

definition sha_ok :: "string \<Rightarrow> bool" where
  "sha_ok s \<longleftrightarrow> length s = 64 \<and> list_all is_hex s"

definition parse_line :: "string \<Rightarrow> manifest_error + string \<times> entry" where
  "parse_line line = (case splitn 3 SP line of
     [sha, sz, rel] \<Rightarrow>
       if \<not> sha_ok sha then Inl BadSha
       else (case parse_u64 sz of None \<Rightarrow> Inl BadSize
         | Some n \<Rightarrow> if rel = [] then Inl EmptyPath
             else Inr (rel, \<lparr>en_size = n, en_sha256 = to_ascii_lowercase sha\<rparr>))
   | _ \<Rightarrow> Inl MissingFields)"

fun parse_lines :: "manifest \<Rightarrow> string list \<Rightarrow> manifest_error + manifest" where
  "parse_lines m [] = Inr m"
| "parse_lines m (l # ls) = (let line = trim_end l in
     if line = [] then parse_lines m ls
     else case parse_line line of Inl e \<Rightarrow> Inl e
       | Inr (rel, e) \<Rightarrow> parse_lines (bt_insert rel e m) ls)"

definition manifest_parse :: "string \<Rightarrow> manifest_error + manifest" where
  "manifest_parse text = (case str_lines text of
     [] \<Rightarrow> Inl MissingHeader
   | h # ls \<Rightarrow> if h = ''v1'' then parse_lines [] ls else Inl MissingHeader)"

definition render_entry :: "string \<times> entry \<Rightarrow> string" where
  "render_entry e = en_sha256 (snd e) @ SP # show_word (en_size (snd e)) @ SP # fst e @ [NL]"

definition manifest_render :: "manifest \<Rightarrow> string" where
  "manifest_render m = ''v1'' @ NL # concat (map render_entry m)"

definition manifest_get :: "manifest \<Rightarrow> string \<Rightarrow> entry option" where
  "manifest_get m rel = bt_get m rel"

definition manifest_insert :: "string \<Rightarrow> entry \<Rightarrow> manifest \<Rightarrow> manifest" where
  "manifest_insert rel e m = bt_insert rel e m"

subsection \<open>The hash cache\<close>

definition CACHE_PATH :: string where "CACHE_PATH = ''/data/.sync-cache''"

record cached =
  ca_size :: u64
  ca_mtime :: u64
  ca_ctime :: u64
  ca_sha256 :: string

record cache =
  ch_entries :: "(string, cached) btree"
  ch_dirty :: bool

definition empty_cache :: cache where
  "empty_cache = \<lparr>ch_entries = [], ch_dirty = False\<rparr>"

definition cache_line :: "string \<Rightarrow> (string \<times> cached) option" where
  "cache_line line = (case splitn 5 SP line of
     [sha, sz, mt, ct, rel] \<Rightarrow>
       (case (parse_u64 sz, parse_u64 mt, parse_u64 ct) of
          (Some n, Some m, Some c) \<Rightarrow>
            if length sha \<noteq> 64 \<or> rel = [] then None
            else Some (rel, \<lparr>ca_size = n, ca_mtime = m, ca_ctime = c, ca_sha256 = sha\<rparr>)
        | _ \<Rightarrow> None)
   | _ \<Rightarrow> None)"

fun cache_lines :: "cache \<Rightarrow> string list \<Rightarrow> cache" where
  "cache_lines c [] = c"
| "cache_lines c (l # ls) = (case cache_line l of None \<Rightarrow> cache_lines c ls
     | Some (rel, x) \<Rightarrow> cache_lines (c\<lparr>ch_entries := bt_insert rel x (ch_entries c)\<rparr>) ls)"

definition cache_parse :: "string \<Rightarrow> cache" where
  "cache_parse text = (case str_lines text of
     [] \<Rightarrow> empty_cache
   | h # ls \<Rightarrow> if h = ''v2'' then cache_lines empty_cache ls else empty_cache)"

definition cache_load :: "('e world, cache) state" where
  "cache_load = do {
     r \<leftarrow> fs_read_to_string CACHE_PATH;
     ret (case r of Inl _ \<Rightarrow> empty_cache | Inr text \<Rightarrow> cache_parse text) }"

definition hash_of :: "cache \<Rightarrow> string \<Rightarrow> u64 \<Rightarrow> u64 \<Rightarrow> u64 \<Rightarrow> string option" where
  "hash_of c rel sz mtime ctime =
     (if mtime = 0 \<or> ctime = 0 then None
      else case bt_get (ch_entries c) rel of None \<Rightarrow> None
        | Some x \<Rightarrow> if ca_size x = sz \<and> ca_mtime x = mtime \<and> ca_ctime x = ctime
            then Some (ca_sha256 x) else None)"

definition cache_record :: "string \<Rightarrow> u64 \<Rightarrow> u64 \<Rightarrow> u64 \<Rightarrow> string \<Rightarrow> cache \<Rightarrow> cache" where
  "cache_record rel sz mtime ctime sha c =
     (let x = \<lparr>ca_size = sz, ca_mtime = mtime, ca_ctime = ctime, ca_sha256 = sha\<rparr> in
      if bt_get (ch_entries c) rel \<noteq> Some x
      then c\<lparr>ch_entries := bt_insert rel x (ch_entries c), ch_dirty := True\<rparr> else c)"

definition render_cached :: "string \<times> cached \<Rightarrow> string" where
  "render_cached e = ca_sha256 (snd e) @ SP # show_word (ca_size (snd e)) @ SP #
     show_word (ca_mtime (snd e)) @ SP # show_word (ca_ctime (snd e)) @ SP # fst e @ [NL]"

definition cache_render :: "cache \<Rightarrow> string" where
  "cache_render c = ''v2'' @ NL # concat (map render_cached (ch_entries c))"

definition cache_save :: "cache \<Rightarrow> ('e world, unit) state" where
  "cache_save c = (if \<not> ch_dirty c then ret () else do {
     r \<leftarrow> fs_write CACHE_PATH (cache_render c);
     case r of Inl _ \<Rightarrow> ret () | Inr _ \<Rightarrow> do { make_private CACHE_PATH; ret () } })"

subsection \<open>Round trips\<close>

text \<open>A name a line can carry: no line break in it, and no white space at its end.\<close>

definition name_ok :: "string \<Rightarrow> bool" where
  "name_ok rel \<longleftrightarrow> rel \<noteq> [] \<and> NL \<notin> set rel \<and> trim_end (SP # rel) = SP # rel"

definition entry_ok :: "entry \<Rightarrow> bool" where
  "entry_ok e \<longleftrightarrow> sha_ok (en_sha256 e) \<and> to_ascii_lowercase (en_sha256 e) = en_sha256 e"

definition manifest_ok :: "manifest \<Rightarrow> bool" where
  "manifest_ok m \<longleftrightarrow> bt_ok m \<and> list_all (\<lambda>e. name_ok (fst e) \<and> entry_ok (snd e)) m"

lemma splitn_field: "c \<notin> set a \<Longrightarrow> splitn (Suc (Suc n)) c (a @ c # b) = a # splitn (Suc n) c b"
  by (simp add: split_once_char)

lemma show_word_free: "\<not> is_digit c \<Longrightarrow> c \<notin> set (show_word w)"
  by (auto simp: show_word_def dest: show_nat_set)

lemma not_digit [simp]: "\<not> is_digit SP" "\<not> is_digit NL" "\<not> is_digit CR"
  by (simp_all add: is_digit_def less_eq_char_def)

lemma not_hex [simp]: "\<not> is_hex SP" "\<not> is_hex NL" "\<not> is_hex CR"
  by (simp_all add: is_hex_def less_eq_char_def)

lemma sha_free: "sha_ok s \<Longrightarrow> \<not> is_hex c \<Longrightarrow> c \<notin> set s"
  by (auto simp: sha_ok_def list_all_iff)

lemma str_lines_step: "NL \<notin> set l \<Longrightarrow> l = [] \<or> last l \<noteq> CR \<Longrightarrow> str_lines (l @ NL # s) = l # str_lines s"
proof -
  assume l: "NL \<notin> set l" "l = [] \<or> last l \<noteq> CR"
  have "drop_cr (rev l) = rev l"
    using l(2) by (cases l rule: rev_cases) auto
  with lines_from_line [OF l(1), of "[]" s] show ?thesis
    by (simp add: str_lines_def)
qed

text \<open>White space at the end of a line that ends in \<open>SP # rel\<close> is white space at the end of that.\<close>

lemma ws_tail: "w \<in> set (map rev ws_seqs) \<Longrightarrow> SP \<in> set w \<Longrightarrow> w = [SP]"
  by (auto simp: ws_seqs_def)

lemma ws_tail_nonempty: "w \<in> set (map rev ws_seqs) \<Longrightarrow> w \<noteq> []"
  by (auto simp: ws_seqs_def)

lemma trim_end_find: "trim_end s = s \<Longrightarrow> find_seq (map rev ws_seqs) (rev s) = None"
  using trim_seqs_None [of "map rev ws_seqs" "rev s"] by (simp add: trim_end_def rev_swap)

lemma trim_end_line:
  assumes "name_ok rel"
  shows "trim_end (x @ SP # rel) = x @ SP # rel"
proof (rule trim_end_id)
  have none: "find_seq (map rev ws_seqs) (rev rel @ [SP]) = None"
    using trim_end_find [of "SP # rel"] assms by (simp add: name_ok_def)
  show "find_seq (map rev ws_seqs) (rev (x @ SP # rel)) = None"
  proof (rule ccontr)
    assume "find_seq (map rev ws_seqs) (rev (x @ SP # rel)) \<noteq> None"
    then obtain w where w: "w \<in> set (map rev ws_seqs)" "prefix w ((rev rel @ [SP]) @ rev x)"
      using find_seq_Some by fastforce
    have "prefix w (rev rel @ [SP])"
    proof (rule ccontr)
      assume "\<not> prefix w (rev rel @ [SP])"
      with w(2) obtain z where z: "w = (rev rel @ [SP]) @ z"
        by (meson prefix_append prefix_def)
      then have "w = [SP]" using ws_tail [OF w(1)] by simp
      with z assms show False by (cases "rev rel") (auto simp: name_ok_def)
    qed
    with none w(1) ws_tail_nonempty [OF w(1)] show False
      by (auto simp: find_seq_def find_None_iff)
  qed
qed

lemma name_last: "name_ok rel \<Longrightarrow> last rel \<noteq> CR"
proof
  assume n: "name_ok rel" and l: "last rel = CR"
  then have none: "find_seq (map rev ws_seqs) (rev rel @ [SP]) = None"
    using trim_end_find [of "SP # rel"] by (simp add: name_ok_def)
  have "prefix [CR] (rev rel @ [SP])"
    using n l by (cases rel rule: rev_cases) (auto simp: name_ok_def)
  moreover have "[CR] \<in> set (map rev ws_seqs)"
    by (simp add: ws_seqs_def)
  ultimately show False
    using none unfolding find_seq_def find_None_iff by blast
qed

lemma parse_line_render:
  assumes "name_ok rel" "entry_ok e"
  shows "parse_line (en_sha256 e @ SP # show_word (en_size e) @ SP # rel) = Inr (rel, e)"
proof -
  have "splitn 3 SP (en_sha256 e @ SP # show_word (en_size e) @ SP # rel) =
      [en_sha256 e, show_word (en_size e), rel]"
    using assms(2) by (simp add: numeral_3_eq_3 splitn_field sha_free show_word_free entry_ok_def
      del: splitn.simps(3))
  then show ?thesis
    using assms by (simp add: parse_line_def name_ok_def entry_ok_def)
qed

lemma parse_lines_entry:
  assumes ok: "name_ok rel" "entry_ok e"
  shows "parse_lines m (str_lines (render_entry (rel, e) @ s)) = parse_lines (bt_insert rel e m) (str_lines s)"
proof -
  let ?l = "en_sha256 e @ SP # show_word (en_size e) @ SP # rel"
  have "NL \<notin> set ?l" "last ?l \<noteq> CR" "?l \<noteq> []"
    using ok sha_free [of "en_sha256 e" NL] name_last [of rel]
    by (auto simp: entry_ok_def name_ok_def show_word_free)
  then have "str_lines (?l @ NL # s) = ?l # str_lines s"
    by (intro str_lines_step) auto
  moreover have "trim_end ?l = ?l"
    using trim_end_line [OF ok(1), of "en_sha256 e @ SP # show_word (en_size e)"] by simp
  ultimately show ?thesis
    by (simp add: render_entry_def Let_def parse_line_render ok)
qed

lemma parse_lines_render: "list_all (\<lambda>e. name_ok (fst e) \<and> entry_ok (snd e)) es \<Longrightarrow>
    parse_lines m (str_lines (concat (map render_entry es))) = Inr (foldl (\<lambda>m (k, v). bt_insert k v m) m es)"
  by (induction es arbitrary: m) (auto simp: parse_lines_entry)

text \<open>A name with a line break is rendered as two lines.\<close>

lemma render_broken_name: "render_entry (a @ NL # b, e) = render_entry (a, e) @ b @ [NL]"
  by (simp add: render_entry_def)

lemma broken_name_rejected:
  assumes "name_ok a" "entry_ok e" "SP \<notin> set b" "NL \<notin> set b" "trim_end b = b" "b \<noteq> []" "last b \<noteq> CR"
  shows "manifest_parse (manifest_render [(a @ NL # b, e)]) = Inl MissingFields"
proof -
  have "str_lines (b @ NL # []) = [b]"
    using str_lines_step [of b "[]"] assms by (simp add: str_lines_def)
  moreover have "splitn 3 SP b = [b]"
    using assms(3) by (simp add: numeral_eq_Suc split_once_char_None)
  ultimately have "parse_lines m (str_lines (b @ [NL])) = Inl MissingFields" for m
    using assms by (simp add: Let_def parse_line_def)
  moreover have "str_lines (manifest_render [(a @ NL # b, e)]) = ''v1'' # str_lines (render_entry (a @ NL # b, e))"
    unfolding manifest_render_def by (subst str_lines_step [of "''v1''"]) simp_all
  ultimately show ?thesis
    using assms(1,2) by (simp add: manifest_parse_def render_broken_name parse_lines_entry)
qed

lemma manifest_round_trip: "manifest_ok m \<Longrightarrow> manifest_parse (manifest_render m) = Inr m"
proof -
  assume m: "manifest_ok m"
  have "str_lines (manifest_render m) = ''v1'' # str_lines (concat (map render_entry m))"
    unfolding manifest_render_def by (rule str_lines_step) simp_all
  then show ?thesis
    using m parse_lines_render [of m "[]"] by (simp add: manifest_parse_def manifest_ok_def bt_rebuild)
qed

end
