(* ===== verification/BackupManifest.thy ===== *)
theory BackupManifest
  imports SyncManifest
begin

text \<open>
  \<open>runtime/backup/manifest.rs\<close> and \<open>runtime/backup/lineage.rs\<close>: the generations the bucket
  holds, their text format, and the sidecar that records which of them this database owns.
\<close>

definition MAX_BACKUP_MANIFEST_BYTES :: nat where "MAX_BACKUP_MANIFEST_BYTES = 256 * 1024"

record generation =
  gn_generation :: u64
  gn_name :: string
  gn_size :: u64

type_synonym generations = "generation list"

datatype generations_error = NoHeader | BadFields | BadGeneration | BadGenSize | ZeroGeneration
  | NotAscending | DuplicateName

definition parse_generation :: "generations \<Rightarrow> string \<Rightarrow> generations_error + generation" where
  "parse_generation es line = (case split_ws line of
     [g, name, sz] \<Rightarrow> (case parse_u64 g of None \<Rightarrow> Inl BadGeneration
       | Some gn \<Rightarrow> (case parse_u64 sz of None \<Rightarrow> Inl BadGenSize
         | Some n \<Rightarrow>
             if gn = 0 then Inl ZeroGeneration
             else if es \<noteq> [] \<and> gn_generation (last es) \<ge> gn then Inl NotAscending
             else if list_ex (\<lambda>e. gn_name e = name) es then Inl DuplicateName
             else Inr \<lparr>gn_generation = gn, gn_name = name, gn_size = n\<rparr>))
   | _ \<Rightarrow> Inl BadFields)"

fun parse_generations :: "generations \<Rightarrow> string list \<Rightarrow> generations_error + generations" where
  "parse_generations es [] = Inr es"
| "parse_generations es (l # ls) = (let line = trim l in
     if line = [] then parse_generations es ls
     else case parse_generation es line of Inl e \<Rightarrow> Inl e
       | Inr e \<Rightarrow> parse_generations (es @ [e]) ls)"

definition generations_parse :: "string \<Rightarrow> generations_error + generations" where
  "generations_parse text = (case str_lines text of
     [] \<Rightarrow> Inl NoHeader
   | h # ls \<Rightarrow> if h = ''v1'' then parse_generations [] ls else Inl NoHeader)"

definition render_generation :: "generation \<Rightarrow> string" where
  "render_generation e = show_word (gn_generation e) @ SP # gn_name e @ SP # show_word (gn_size e) @ [NL]"

definition generations_render :: "generations \<Rightarrow> string" where
  "generations_render es = ''v1'' @ NL # concat (map render_generation es)"

definition latest :: "generations \<Rightarrow> u64" where
  "latest es = (if es = [] then 0 else gn_generation (last es))"

definition next_generation :: "generations \<Rightarrow> u64 option" where
  "next_generation es = checked_inc (latest es)"

definition newest_first :: "generations \<Rightarrow> generations" where
  "newest_first es = rev es"

definition find_name :: "generations \<Rightarrow> string \<Rightarrow> generation option" where
  "find_name es name = find (\<lambda>e. gn_name e = name) es"

definition push_generation :: "generation \<Rightarrow> generations \<Rightarrow> generations" where
  "push_generation e es = es @ [e]"

text \<open>The kept entries and the evicted ones.\<close>

definition retain :: "nat \<Rightarrow> generations \<Rightarrow> generations \<times> generations" where
  "retain keep es = (if length es \<le> keep then (es, [])
     else (drop (length es - keep) es, take (length es - keep) es))"

definition from_listing :: "(string \<times> u64) list \<Rightarrow> generations" where
  "from_listing listed = map (\<lambda>(i, name, n). \<lparr>gn_generation = of_nat i + 1, gn_name = name, gn_size = n\<rparr>)
     (enumerate 0 listed)"

subsection \<open>The lineage sidecar\<close>

text \<open>
  \<open>Path::parent\<close> and \<open>Path::join\<close> of a file name, on paths without \<open>.\<close> components.
\<close>

definition drop_slashes :: "string \<Rightarrow> string" where
  "drop_slashes p = rev (dropWhile (\<lambda>c. c = CHR ''/'') (rev p))"

definition parent_dir :: "string \<Rightarrow> string option" where
  "parent_dir p = (let q = drop_slashes p in
     if q = [] then None
     else case rsplit_once (CHR ''/'') q of None \<Rightarrow> Some []
       | Some (d, _) \<Rightarrow> if drop_slashes d = [] then Some ''/'' else Some (drop_slashes d))"

definition beside :: "string \<Rightarrow> string \<Rightarrow> string" where
  "beside p name = (case parent_dir p of None \<Rightarrow> name
     | Some d \<Rightarrow> if d = [] then name else if suffix ''/'' d then d @ name else d @ ''/'' @ name)"

definition sidecar_path :: "string \<Rightarrow> string" where
  "sidecar_path db_path = beside db_path ''db-backups.state''"

datatype known = Generation u64 | LegacyName string

definition parse_sidecar :: "string \<Rightarrow> known option" where
  "parse_sidecar text = (let value = trim text in
     if value = [] then None
     else case parse_u64 value of Some g \<Rightarrow> Some (Generation g) | None \<Rightarrow> Some (LegacyName value))"

definition lineage_read :: "string \<Rightarrow> ('e world, known option) state" where
  "lineage_read db_path = do {
     r \<leftarrow> fs_read_to_string (sidecar_path db_path);
     ret (case r of Inl _ \<Rightarrow> None | Inr text \<Rightarrow> parse_sidecar text) }"

definition lineage_write_text :: "string \<Rightarrow> string \<Rightarrow> ('e world, unit) state" where
  "lineage_write_text db_path text = do {
     r \<leftarrow> fs_write (sidecar_path db_path) text;
     case r of Inl _ \<Rightarrow> ret ()
     | Inr _ \<Rightarrow> do { make_private (sidecar_path db_path); ret () } }"

definition lineage_write :: "string \<Rightarrow> u64 \<Rightarrow> ('e world, unit) state" where
  "lineage_write db_path g = lineage_write_text db_path (show_word g @ [NL])"

definition lineage_write_name :: "string \<Rightarrow> string \<Rightarrow> ('e world, unit) state" where
  "lineage_write_name db_path name = lineage_write_text db_path (name @ [NL])"

datatype verdict = Proceed | Refuse

definition verdict :: "u64 option \<Rightarrow> u64 \<Rightarrow> verdict" where
  "verdict known bucket_latest = (if bucket_latest = 0 then Proceed
     else case known of Some k \<Rightarrow> if k \<ge> bucket_latest then Proceed else Refuse | None \<Rightarrow> Refuse)"

definition resolve_known :: "known option \<Rightarrow> generations \<Rightarrow> u64 option" where
  "resolve_known recorded es = (case recorded of
     Some (Generation g) \<Rightarrow> Some g
   | Some (LegacyName name) \<Rightarrow> map_option gn_generation (find_name es name)
   | None \<Rightarrow> None)"

definition upload_is_redundant :: "u64 option \<Rightarrow> u64 \<Rightarrow> bool \<Rightarrow> bool" where
  "upload_is_redundant known l unchanged \<longleftrightarrow> l > 0 \<and> known = Some l \<and> unchanged"

subsection \<open>The invariant of a manifest\<close>

definition ascending :: "generations \<Rightarrow> bool" where
  "ascending es \<longleftrightarrow> sorted_wrt (<) (map gn_generation es) \<and> distinct (map gn_name es) \<and>
     list_all (\<lambda>e. gn_generation e > 0) es"

text \<open>A name one field can carry: nothing in it is white space.\<close>

fun no_ws :: "string \<Rightarrow> bool" where
  "no_ws [] = True"
| "no_ws (c # s) = (find_seq ws_seqs (c # s @ [SP]) = None \<and> no_ws s)"

definition field_ok :: "string \<Rightarrow> bool" where
  "field_ok s \<longleftrightarrow> s \<noteq> [] \<and> no_ws s"

lemma ascending_Nil [simp]: "ascending []"
  by (simp add: ascending_def)

lemma ascending_latest: "ascending es \<Longrightarrow> e \<in> set es \<Longrightarrow> gn_generation e \<le> latest es"
proof -
  assume a: "ascending es" "e \<in> set es"
  then have "sorted (map gn_generation es)"
    by (auto simp: ascending_def strict_sorted_imp_sorted)
  moreover have "es \<noteq> []" using a by auto
  ultimately show ?thesis
    using a(2) by (cases es rule: rev_cases) (auto simp: latest_def sorted_append)
qed

lemma ascending_push:
  "ascending es \<Longrightarrow> gn_generation e > latest es \<Longrightarrow> find_name es (gn_name e) = None \<Longrightarrow>
    ascending (push_generation e es)"
proof -
  assume a: "ascending es" "gn_generation e > latest es" "find_name es (gn_name e) = None"
  then have "\<forall>x \<in> set es. gn_generation x < gn_generation e"
    using ascending_latest by fastforce
  with a show ?thesis
    by (auto simp: ascending_def push_generation_def sorted_wrt_append find_name_def find_None_iff
      word_gt_0 intro: order.strict_trans1)
qed

lemma parse_generation_ascending:
  assumes "ascending es" "parse_generation es line = Inr e"
  shows "ascending (es @ [e])"
proof -
  from assms(2) have e: "gn_generation e \<noteq> 0" "es \<noteq> [] \<longrightarrow> gn_generation (last es) < gn_generation e"
    "find_name es (gn_name e) = None"
    by (auto simp: parse_generation_def find_name_def find_None_iff list_ex_iff
      split: list.splits option.splits if_splits)
  then have "gn_generation e > latest es"
    by (auto simp: latest_def word_gt_0)
  with ascending_push assms(1) e(3) show ?thesis
    by (simp add: push_generation_def)
qed

lemma parse_generations_ascending:
  "ascending es \<Longrightarrow> parse_generations es ls = Inr es' \<Longrightarrow> ascending es'"
  by (induction es ls rule: parse_generations.induct)
    (auto simp: Let_def parse_generation_ascending split: if_splits sum.splits)

lemma generations_parse_ascending: "generations_parse text = Inr es \<Longrightarrow> ascending es"
  by (auto simp: generations_parse_def intro: parse_generations_ascending [OF ascending_Nil]
    split: list.splits if_splits)

lemma ascending_drop: "ascending es \<Longrightarrow> ascending (drop n es)"
  by (auto simp: ascending_def drop_map [symmetric] sorted_wrt_drop dest: in_set_dropD simp: list_all_iff)

lemma retain_split: "retain keep es = (ks, ev) \<Longrightarrow> es = ev @ ks \<and> length ks \<le> keep \<and>
    (length es \<ge> keep \<longrightarrow> length ks = keep)"
  by (auto simp: retain_def split: if_splits)

lemma retain_ascending: "ascending es \<Longrightarrow> ascending (fst (retain keep es))"
  by (simp add: retain_def ascending_drop)

lemma retain_latest: "keep > 0 \<Longrightarrow> latest (fst (retain keep es)) = latest es"
  by (simp add: retain_def latest_def)

subsection \<open>Reading back what was written\<close>

lemma ws_hd: "w \<in> set ws_seqs \<Longrightarrow> w \<noteq> [] \<and> \<not> is_digit (hd w) \<and> \<not> is_digit (last w)"
  by (auto simp: ws_seqs_def is_digit_def less_eq_char_def)

lemma ws_space: "w \<in> set ws_seqs \<Longrightarrow> SP \<in> set w \<Longrightarrow> w = [SP]"
  by (auto simp: ws_seqs_def)

lemma find_ws_digit: "is_digit c \<Longrightarrow> find_seq ws_seqs (c # s) = None"
proof (rule ccontr)
  assume c: "is_digit c" and "find_seq ws_seqs (c # s) \<noteq> None"
  then obtain w where w: "w \<in> set ws_seqs" "prefix w (c # s)"
    using find_seq_Some by blast
  with ws_hd [OF w(1)] have "hd w = c"
    by (cases w) auto
  with ws_hd [OF w(1)] c show False by simp
qed

lemma find_ws_space: "find_seq ws_seqs (SP # s) = Some [SP]"
  by (simp add: find_seq_def ws_seqs_def)

lemma find_ws_before_space:
  assumes "x \<noteq> []" "find_seq ws_seqs (x @ [SP]) = None"
  shows "find_seq ws_seqs (x @ SP # s) = None"
proof (rule ccontr)
  assume "find_seq ws_seqs (x @ SP # s) \<noteq> None"
  then obtain w where w: "w \<in> set ws_seqs" "prefix w ((x @ [SP]) @ s)"
    using find_seq_Some by fastforce
  have "prefix w (x @ [SP])"
  proof (rule ccontr)
    assume "\<not> prefix w (x @ [SP])"
    with w(2) obtain z where z: "w = (x @ [SP]) @ z"
      by (meson prefix_append prefix_def)
    then have "w = [SP]" using ws_space [OF w(1)] by simp
    with z assms(1) show False by (cases x) auto
  qed
  with assms(2) w(1) ws_hd [OF w(1)] show False
    by (auto simp: find_seq_def find_None_iff)
qed

lemma break_field: "no_ws a \<Longrightarrow> break_ws (a @ SP # s) = (a, SP # s)"
proof (induction a)
  case Nil
  then show ?case by (simp add: find_ws_space)
next
  case (Cons c a)
  then have "find_seq ws_seqs ((c # a) @ SP # s) = None"
    using find_ws_before_space [of "c # a" s] by simp
  with Cons show ?case by simp
qed

lemma break_digits: "list_all is_digit a \<Longrightarrow> break_ws a = (a, [])"
  by (induction a) (simp_all add: find_ws_digit)

lemma split_field:
  assumes "a \<noteq> []" "no_ws a"
  shows "split_ws (a @ SP # s) = a # split_ws (SP # s)"
proof -
  have "find_seq ws_seqs (a @ [SP]) = None"
    using assms by (cases a) auto
  then have "trim_start (a @ SP # s) = a @ SP # s"
    using assms(1) by (simp add: trim_start_def trim_seqs_id find_ws_before_space)
  then show ?thesis
    using assms by (simp add: split_ws.simps [of "a @ SP # s"] break_field)
qed

lemma split_space: "split_ws (SP # s) = split_ws s"
proof -
  have "trim_start (SP # s) = trim_start s"
    by (simp add: trim_start_def trim_seqs.simps [of ws_seqs "SP # s"] find_ws_space)
  then show ?thesis
    by (simp add: split_ws.simps [of "SP # s"] split_ws.simps [of s])
qed

lemma show_word_cons: "\<exists>c r. show_word w = c # r \<and> is_digit c \<and> list_all is_digit r"
  using show_nat_digits [of "unat w"] by (cases "show_nat (unat w)") (auto simp: show_word_def)

lemma split_digits: "split_ws (show_word w) = [show_word w]"
proof -
  obtain c r where c: "show_word w = c # r" "is_digit c" "list_all is_digit r"
    using show_word_cons by blast
  have "trim_start (show_word w) = show_word w"
    by (simp add: c trim_start_def trim_seqs_id find_ws_digit)
  moreover have "split_ws [] = []"
    by (simp add: split_ws.simps [of "[]"] trim_start_def trim_seqs_id)
  moreover have "break_ws (show_word w) = (show_word w, [])"
    using c by (intro break_digits) simp
  ultimately show ?thesis
    using c by (subst split_ws.simps) simp
qed

lemma digits_no_ws: "list_all is_digit a \<Longrightarrow> no_ws a"
  by (induction a) (simp_all add: find_ws_digit)

lemma trim_line: "trim (show_word g @ SP # name @ SP # show_word n) = show_word g @ SP # name @ SP # show_word n"
proof -
  let ?l = "show_word g @ SP # name @ SP # show_word n"
  obtain c r where c: "show_word g = c # r" "is_digit c"
    using show_word_cons by blast
  then have s: "trim_start ?l = ?l"
    by (simp add: trim_start_def trim_seqs_id find_ws_digit)
  have "is_digit (last (show_word n))" "show_word n \<noteq> []"
    using show_word_cons [of n] by (auto simp: list_all_iff)
  then obtain d t where d: "rev ?l = d # t" "is_digit d"
    by (cases "show_word n" rule: rev_cases) auto
  have "find_seq (map rev ws_seqs) (d # t) = None"
    using ws_hd d(2) by (auto simp: find_seq_def find_None_iff prefix_def hd_rev Cons_eq_append_conv)
      (metis hd_rev list.sel(1))
  then have "trim_end ?l = ?l"
    by (intro trim_end_id) (simp only: d(1))
  with s show ?thesis
    by (simp add: trim_def)
qed

lemma split_line:
  assumes "field_ok name"
  shows "split_ws (show_word g @ SP # name @ SP # show_word n) = [show_word g, name, show_word n]"
proof -
  have "show_word g \<noteq> []" "list_all is_digit (show_word g)"
    using show_word_cons [of g] by auto
  then show ?thesis
    using assms by (simp add: split_field digits_no_ws split_space split_digits field_ok_def)
qed

lemma no_ws_no_break: "no_ws name \<Longrightarrow> NL \<notin> set name"
  by (induction name) (auto simp: find_seq_def ws_seqs_def split: if_splits)

lemma field_ok_no_break: "field_ok name \<Longrightarrow> NL \<notin> set name"
  by (simp add: field_ok_def no_ws_no_break)

definition generations_ok :: "generations \<Rightarrow> bool" where
  "generations_ok es \<longleftrightarrow> ascending es \<and> list_all (\<lambda>e. field_ok (gn_name e)) es"

lemma parse_generation_render:
  assumes "ascending (es @ e # es')" "field_ok (gn_name e)"
  shows "parse_generation es (show_word (gn_generation e) @ SP # gn_name e @ SP # show_word (gn_size e)) = Inr e"
proof -
  have "gn_generation e \<noteq> 0" "es \<noteq> [] \<longrightarrow> gn_generation (last es) < gn_generation e"
    "gn_name e \<notin> gn_name ` set es"
    using assms(1) by (auto simp: ascending_def sorted_wrt_append)
  then have "\<not> (es \<noteq> [] \<and> gn_generation (last es) \<ge> gn_generation e)"
    "\<not> list_ex (\<lambda>x. gn_name x = gn_name e) es" "gn_generation e \<noteq> 0"
    by (auto simp: list_ex_iff) (metis imageI)
  then show ?thesis
    using assms(2) by (simp add: parse_generation_def split_line)
qed

lemma parse_generations_render:
  "ascending (es @ es') \<Longrightarrow> list_all (\<lambda>e. field_ok (gn_name e)) es' \<Longrightarrow>
    parse_generations es (str_lines (concat (map render_generation es'))) = Inr (es @ es')"
proof (induction es' arbitrary: es)
  case (Cons e es')
  let ?l = "show_word (gn_generation e) @ SP # gn_name e @ SP # show_word (gn_size e)"
  have f: "field_ok (gn_name e)" using Cons.prems(2) by simp
  have "show_word (gn_size e) \<noteq> []"
    using show_word_cons [of "gn_size e"] by auto
  then have "last ?l \<in> set (show_word (gn_size e))"
    by simp
  then have "last ?l \<noteq> CR"
    using show_word_free [of CR "gn_size e"] by auto
  moreover have "NL \<notin> set ?l" "?l \<noteq> []"
    using field_ok_no_break [OF f] by (auto simp: show_word_free)
  ultimately have "str_lines (?l @ NL # s) = ?l # str_lines s" for s
    by (intro str_lines_step) auto
  moreover have "concat (map render_generation (e # es')) = ?l @ NL # concat (map render_generation es')"
    by (simp add: render_generation_def [of e])
  ultimately have "str_lines (concat (map render_generation (e # es'))) =
      ?l # str_lines (concat (map render_generation es'))"
    by simp
  then show ?case
    using Cons by (simp add: Let_def trim_line parse_generation_render [OF Cons.prems(1) f])
qed simp

lemma generations_round_trip: "generations_ok es \<Longrightarrow> generations_parse (generations_render es) = Inr es"
proof -
  assume es: "generations_ok es"
  have "str_lines (generations_render es) = ''v1'' # str_lines (concat (map render_generation es))"
    unfolding generations_render_def by (rule str_lines_step) simp_all
  then show ?thesis
    using es parse_generations_render [of "[]" es] by (simp add: generations_parse_def generations_ok_def)
qed

lemma next_generation_greater: "next_generation es = Some g \<Longrightarrow> g > latest es"
  by (simp add: next_generation_def checked_inc_less)

end
