(* ===== verification/BackupCycle.thy ===== *)
theory BackupCycle
  imports ObjectStore BackupManifest BackupConfig
begin

text \<open>
  \<open>runtime/backup\<close>: one cycle of the periodic backup (\<open>dump.rs\<close> with \<open>tools.rs\<close>,
  \<open>staging.rs\<close>, \<open>unchanged.rs\<close>, \<open>prune.rs\<close>, \<open>timestamp.rs\<close>, \<open>check.rs\<close> and
  \<open>sqlite/dump.rs\<close>). SQLite and the random and clock sources are the fields of \<open>tools\<close>: a
  query sees the database file and its write-ahead log, and may fail; \<open>VACUUM INTO\<close> yields
  whether it succeeded and what it left in its output file.
\<close>

record 'e tools =
  tl_deps :: "'e deps"
  tl_count :: "string \<Rightarrow> string option \<Rightarrow> 'e \<Rightarrow> nat option \<times> 'e"  \<comment> \<open>user tables\<close>
  tl_integrity :: "string \<Rightarrow> 'e \<Rightarrow> string \<times> 'e"
  tl_vacuum :: "string \<Rightarrow> string option \<Rightarrow> 'e \<Rightarrow> (bool \<times> string option) \<times> 'e"
  tl_random :: "'e \<Rightarrow> string option \<times> 'e"  \<comment> \<open>four bytes of \<open>/dev/urandom\<close>\<close>
  tl_nanos :: "'e \<Rightarrow> nat \<times> 'e"
  tl_stamp :: "'e \<Rightarrow> string \<times> 'e"  \<comment> \<open>the UTC time, \<open>YYYYMMDDTHHMMSSZ\<close>\<close>

subsection \<open>The database\<close>

definition db_files :: "string \<Rightarrow> ('e world, (string \<times> string option) option) state" where
  "db_files path = gets (\<lambda>w. map_option (\<lambda>d. (d, data_at w (path @ ''-wal''))) (data_at w path))"

datatype db_error = CannotInspect

definition is_empty :: "'e tools \<Rightarrow> string \<Rightarrow> ('e world, db_error + bool) state" where
  "is_empty tt path = do {
     there \<leftarrow> fs_exists path;
     if \<not> there then ret (Inr True)
     else do {
       db \<leftarrow> db_files path;
       case db of None \<Rightarrow> ret (Inl CannotInspect)
       | Some (d, wal) \<Rightarrow> do {
           c \<leftarrow> env_op (tl_count tt d wal);
           ret (case c of None \<Rightarrow> Inl CannotInspect | Some n \<Rightarrow> Inr (n = 0)) } } }"

definition sqlite_dump :: "'e tools \<Rightarrow> string \<Rightarrow> string \<Rightarrow> ('e world, bool) state" where
  "sqlite_dump tt path staged = do {
     db \<leftarrow> db_files path;
     case db of None \<Rightarrow> ret False
     | Some (d, wal) \<Rightarrow> do {
         r \<leftarrow> env_op (tl_vacuum tt d wal);
         (case snd r of None \<Rightarrow> ret () | Some out \<Rightarrow> modify (written staged out));
         if fst r then ret True else do { fs_remove staged; ret False } } }"

subsection \<open>Staging and the remembered dump\<close>

primrec sweep_entries :: "string \<Rightarrow> string list \<Rightarrow> ('e world, bool) state" where
  "sweep_entries dir [] = ret True"
| "sweep_entries dir (name # names) = do {
     d \<leftarrow> fs_is_dir (dir @ ''/'' @ name);
     r \<leftarrow> (if d then fs_remove_dir_all (dir @ ''/'' @ name) else fs_remove (dir @ ''/'' @ name));
     case r of Inl _ \<Rightarrow> ret False | Inr _ \<Rightarrow> sweep_entries dir names }"

text \<open>An empty directory has no file below it in a world, so reading it finds no name.\<close>

definition fs_read_made_dir :: "string \<Rightarrow> ('e world, io_error + string list) state" where
  "fs_read_made_dir d = do {
     f \<leftarrow> next_fault;
     if f \<noteq> Fine then ret (Inl OtherIo) else gets (\<lambda>w. Inr (dir_children w d)) }"

definition sweep_staging :: "string \<Rightarrow> ('e world, bool) state" where
  "sweep_staging dir = do {
     c \<leftarrow> fs_dir_op;
     case c of Inl _ \<Rightarrow> ret False
     | Inr _ \<Rightarrow> do {
         p \<leftarrow> fs_dir_op;
         case p of Inl _ \<Rightarrow> ret False
         | Inr _ \<Rightarrow> do {
             r \<leftarrow> fs_read_made_dir dir;
             case r of Inl _ \<Rightarrow> ret False | Inr names \<Rightarrow> sweep_entries dir names } } }"

definition last_path :: "string \<Rightarrow> string" where
  "last_path db_path = beside db_path ''db-backups.last''"

definition same_bytes :: "string \<Rightarrow> string \<Rightarrow> ('e world, io_error + bool) state" where
  "same_bytes a b = do {
     x \<leftarrow> fs_read a;
     case x of Inl e \<Rightarrow> ret (Inl e)
     | Inr da \<Rightarrow> do {
         y \<leftarrow> fs_read b;
         ret (case y of Inl e \<Rightarrow> Inl e | Inr db \<Rightarrow> Inr (da = db)) } }"

definition is_repeat :: "string \<Rightarrow> string \<Rightarrow> ('e world, bool) state" where
  "is_repeat staged db_path = do {
     r \<leftarrow> same_bytes staged (last_path db_path);
     ret (case r of Inl _ \<Rightarrow> False | Inr b \<Rightarrow> b) }"

definition retain_dump :: "string \<Rightarrow> string \<Rightarrow> ('e world, unit) state" where
  "retain_dump staged db_path = do {
     r \<leftarrow> fs_rename staged (last_path db_path);
     case r of Inr _ \<Rightarrow> do { make_private (last_path db_path); ret () }
     | Inl _ \<Rightarrow> do { fs_remove staged; ret () } }"

definition le_bytes :: "nat \<Rightarrow> string" where
  "le_bytes n = map (\<lambda>i. char_of (n div 256 ^ i mod 256)) [0..<4]"

definition timestamp :: "'e tools \<Rightarrow> ('e world, string) state" where
  "timestamp tt = do {
     r \<leftarrow> env_op (tl_random tt);
     rand \<leftarrow> (case r of Some b \<Rightarrow> ret b | None \<Rightarrow> do { n \<leftarrow> env_op (tl_nanos tt); ret (le_bytes n) });
     s \<leftarrow> env_op (tl_stamp tt);
     ret (s @ ''-'' @ hex rand) }"

subsection \<open>The bucket\<close>

datatype backup_error = BucketError s3_error | BadManifest generations_error | ManifestTooBig

definition backup_manifest_key :: "backup_config \<Rightarrow> string" where
  "backup_manifest_key cfg = backup_prefix cfg @ ''manifest''"

definition read_generations :: "s3_error + string option \<Rightarrow> backup_error + generations option" where
  "read_generations r = (case r of Inl e \<Rightarrow> Inl (BucketError e) | Inr None \<Rightarrow> Inr None
     | Inr (Some text) \<Rightarrow> (case generations_parse text of Inl e \<Rightarrow> Inl (BadManifest e) | Inr es \<Rightarrow> Inr (Some es)))"

definition load_generations :: "'e store \<Rightarrow> backup_config \<Rightarrow> 'e abort \<Rightarrow>
    ('e world, backup_error + generations option) state" where
  "load_generations st cfg abort = do {
     r \<leftarrow> st_get_text st (backup_manifest_key cfg) MAX_BACKUP_MANIFEST_BYTES abort;
     ret (read_generations r) }"

definition store_generations :: "'e store \<Rightarrow> backup_config \<Rightarrow> generations \<Rightarrow> 'e abort \<Rightarrow>
    ('e world, backup_error + unit) state" where
  "store_generations st cfg es abort =
     (if MAX_BACKUP_MANIFEST_BYTES < length (generations_render es) then ret (Inl ManifestTooBig)
      else do {
        r \<leftarrow> st_put_bytes st (backup_manifest_key cfg) (generations_render es) abort;
        ret (case r of Inl e \<Rightarrow> Inl (BucketError e) | Inr _ \<Rightarrow> Inr ()) })"

definition dump_name :: "backup_config \<Rightarrow> listed \<Rightarrow> (string \<times> u64) option" where
  "dump_name cfg item = (case strip_prefix (backup_prefix cfg) (li_key item) of None \<Rightarrow> None
     | Some name \<Rightarrow> if prefix (db_label @ ''-'') name \<and> suffix (''.'' @ db_ext) name
         then Some (name, of_nat (li_size item)) else None)"

text \<open>\<open>names.sort()\<close> orders the pairs; the keys of a listing are distinct, so the names decide.\<close>

definition list_objects :: "'e store \<Rightarrow> backup_config \<Rightarrow> 'e abort \<Rightarrow>
    ('e world, backup_error + (string \<times> u64) list) state" where
  "list_objects st cfg abort = do {
     r \<leftarrow> st_list st (backup_prefix cfg) abort;
     ret (case r of Inl e \<Rightarrow> Inl (BucketError e)
       | Inr listed \<Rightarrow> Inr (sort_key fst (List.map_filter (dump_name cfg) listed))) }"

primrec prune :: "'e store \<Rightarrow> backup_config \<Rightarrow> generations \<Rightarrow> 'e abort \<Rightarrow> ('e world, unit) state" where
  "prune st cfg [] abort = ret ()"
| "prune st cfg (e # es) abort = do {
     st_delete st (backup_prefix cfg @ gn_name e) abort;
     prune st cfg es abort }"

subsection \<open>The cycle\<close>

definition object_name :: "backup_config \<Rightarrow> string \<Rightarrow> string" where
  "object_name cfg ts = db_label @ ''-'' @ ts @ ''.'' @ db_ext"

text \<open>\<open>None\<close>: the bucket's history could not be read, so the cycle is skipped.\<close>

definition bucket_history :: "'e store \<Rightarrow> backup_config \<Rightarrow> 'e abort \<Rightarrow> ('e world, generations option) state" where
  "bucket_history st cfg abort = do {
     m \<leftarrow> load_generations st cfg abort;
     case m of Inl _ \<Rightarrow> ret None
     | Inr (Some es) \<Rightarrow> ret (Some es)
     | Inr None \<Rightarrow> do {
         l \<leftarrow> list_objects st cfg abort;
         ret (case l of Inl _ \<Rightarrow> None | Inr listed \<Rightarrow> Some (from_listing listed)) } }"

text \<open>The dump is in the bucket: publish the manifest that names it, or take the dump back.\<close>

definition publish_dump :: "'e store \<Rightarrow> backup_config \<Rightarrow> 'e abort \<Rightarrow> generations \<Rightarrow> string \<Rightarrow> generation \<Rightarrow>
    ('e world, unit) state" where
  "publish_dump st cfg abort es staged e = (case retain (bc_keep cfg) (push_generation e es) of
     (kept, evicted) \<Rightarrow> do {
       r \<leftarrow> store_generations st cfg kept abort;
       case r of
         Inr _ \<Rightarrow> do {
           lineage_write (bc_db_path cfg) (gn_generation e);
           retain_dump staged (bc_db_path cfg);
           prune st cfg evicted abort }
       | Inl _ \<Rightarrow> do {
           fs_remove staged;
           st_delete st (backup_prefix cfg @ gn_name e) abort;
           ret () } })"

definition push_dump :: "'e store \<Rightarrow> backup_config \<Rightarrow> 'e abort \<Rightarrow> generations \<Rightarrow> string \<Rightarrow> generation \<Rightarrow>
    ('e world, unit) state" where
  "push_dump st cfg abort es staged e = do {
     r \<leftarrow> st_put st (backup_prefix cfg @ gn_name e) staged abort;
     case r of
       Inl _ \<Rightarrow> do { fs_remove staged; ret () }
     | Inr _ \<Rightarrow> publish_dump st cfg abort es staged e }"

definition ship_dump :: "'e store \<Rightarrow> backup_config \<Rightarrow> 'e abort \<Rightarrow> generations \<Rightarrow> u64 option \<Rightarrow> string \<Rightarrow> string \<Rightarrow>
    u64 \<Rightarrow> ('e world, unit) state" where
  "ship_dump st cfg abort es known staged name g = do {
     p \<leftarrow> make_private staged;
     case p of
       Inl _ \<Rightarrow> do { fs_remove staged; ret () }
     | Inr _ \<Rightarrow> do {
         l \<leftarrow> fs_len staged;
         same \<leftarrow> is_repeat staged (bc_db_path cfg);
         if upload_is_redundant known (latest es) same then do { fs_remove staged; ret () }
         else push_dump st cfg abort es staged \<lparr>gn_generation = g, gn_name = name,
           gn_size = (case l of Inl _ \<Rightarrow> 0 | Inr n \<Rightarrow> of_nat n)\<rparr> } }"

definition staged_path :: "backup_config \<Rightarrow> string \<Rightarrow> string" where
  "staged_path cfg ts = bc_staging cfg @ ''/'' @ object_name cfg ts"

definition take_dump :: "'e tools \<Rightarrow> 'e store \<Rightarrow> backup_config \<Rightarrow> 'e abort \<Rightarrow> generations \<Rightarrow> u64 option \<Rightarrow>
    string \<Rightarrow> u64 \<Rightarrow> ('e world, unit) state" where
  "take_dump tt st cfg abort es known ts g = do {
     clean \<leftarrow> sweep_staging (bc_staging cfg);
     if \<not> clean then ret ()
     else do {
       ok \<leftarrow> sqlite_dump tt (bc_db_path cfg) (staged_path cfg ts);
       if \<not> ok then ret ()
       else ship_dump st cfg abort es known (staged_path cfg ts) (object_name cfg ts) g } }"

definition tick_with :: "'e tools \<Rightarrow> 'e store \<Rightarrow> backup_config \<Rightarrow> 'e abort \<Rightarrow> ('e world, unit) state" where
  "tick_with tt st cfg abort = do {
     h \<leftarrow> bucket_history st cfg abort;
     case h of None \<Rightarrow> ret ()
     | Some es \<Rightarrow> do {
         recorded \<leftarrow> lineage_read (bc_db_path cfg);
         if verdict (resolve_known recorded es) (latest es) = Refuse then ret ()
         else do {
           ts \<leftarrow> timestamp tt;
           case next_generation es of None \<Rightarrow> ret ()
           | Some g \<Rightarrow> take_dump tt st cfg abort es (resolve_known recorded es) ts g } } }"

definition tick :: "'e tools \<Rightarrow> backup_config \<Rightarrow> 'e abort \<Rightarrow> ('e world, unit) state" where
  "tick tt cfg abort = do {
     stop \<leftarrow> env_op abort;
     if stop then ret ()
     else do {
       e \<leftarrow> is_empty tt (bc_db_path cfg);
       case e of Inl _ \<Rightarrow> ret () | Inr True \<Rightarrow> ret ()
       | Inr False \<Rightarrow> (case connect (tl_deps tt) (sc_target (bc_sync cfg)) of
           Inl _ \<Rightarrow> ret ()
         | Inr cl \<Rightarrow> tick_with tt (client_store (tl_deps tt) cl) cfg abort) } }"

end
