(* ===== verification/BackupSafety.thy ===== *)
theory BackupSafety
  imports BackupCycle
begin

text \<open>
  What a backup cycle does to the bucket: the manifest keeps naming objects that exist, dumps are
  only removed once no published manifest names them, and a database that does not own the newest
  generation changes nothing. The bucket is reached through the contract \<open>object_store\<close>, so a
  write that reports failure may have taken effect.
\<close>

definition quiet_tools :: "('e \<Rightarrow> 'v) \<Rightarrow> 'e tools \<Rightarrow> bool" where
  "quiet_tools bk tt \<longleftrightarrow> (\<forall>d wal. quiet bk (tl_count tt d wal)) \<and> (\<forall>d. quiet bk (tl_integrity tt d)) \<and>
     (\<forall>d wal. quiet bk (tl_vacuum tt d wal)) \<and> quiet bk (tl_random tt) \<and> quiet bk (tl_nanos tt) \<and>
     quiet bk (tl_stamp tt)"

definition is_dump_name :: "string \<Rightarrow> bool" where
  "is_dump_name name \<longleftrightarrow> prefix (db_label @ ''-'') name \<and> suffix (''.'' @ db_ext) name"

definition names_live :: "backup_config \<Rightarrow> (string \<Rightarrow> string option) \<Rightarrow> generations \<Rightarrow> bool" where
  "names_live cfg b es \<longleftrightarrow> (\<forall>e \<in> set es. b (backup_prefix cfg @ gn_name e) \<noteq> None \<and> gn_name e \<noteq> ''manifest'')"

definition dumps_ok :: "backup_config \<Rightarrow> (string \<Rightarrow> string option) \<Rightarrow> bool" where
  "dumps_ok cfg b \<longleftrightarrow> (\<forall>name. b (backup_prefix cfg @ name) \<noteq> None \<longrightarrow> is_dump_name name \<longrightarrow> field_ok name)"

text \<open>The bucket's manifest reads back, and every object it names is there.\<close>

definition sound_bucket :: "backup_config \<Rightarrow> (string \<Rightarrow> string option) \<Rightarrow> bool" where
  "sound_bucket cfg b \<longleftrightarrow> (case b (backup_manifest_key cfg) of
     None \<Rightarrow> dumps_ok cfg b
   | Some text \<Rightarrow> \<exists>es. generations_parse text = Inr es \<and> generations_ok es \<and> names_live cfg b es)"

text \<open>The manifest's newest entry names an object that is gone; the others are there.\<close>

definition newest_dangling :: "backup_config \<Rightarrow> (string \<Rightarrow> string option) \<Rightarrow> bool" where
  "newest_dangling cfg b \<longleftrightarrow> (\<exists>text es e. b (backup_manifest_key cfg) = Some text \<and>
     generations_parse text = Inr (es @ [e]) \<and> names_live cfg b es \<and> b (backup_prefix cfg @ gn_name e) = None)"

text \<open>What a cycle knows about the bucket once it has read its history.\<close>

definition history_ok :: "backup_config \<Rightarrow> generations \<Rightarrow> (string \<Rightarrow> string option) \<Rightarrow> bool" where
  "history_ok cfg es b \<longleftrightarrow> generations_ok es \<and> names_live cfg b es \<and> (case b (backup_manifest_key cfg) of
     None \<Rightarrow> dumps_ok cfg b | Some text \<Rightarrow> generations_parse text = Inr es)"

definition entry_fresh :: "generations \<Rightarrow> generation \<Rightarrow> bool" where
  "entry_fresh es e \<longleftrightarrow> gn_generation e > latest es \<and> find_name es (gn_name e) = None \<and>
     field_ok (gn_name e) \<and> is_dump_name (gn_name e)"

lemma history_sound: "history_ok cfg es b \<Longrightarrow> sound_bucket cfg b"
  by (auto simp: history_ok_def sound_bucket_def split: option.splits)

lemma dump_name_manifest: "is_dump_name name \<Longrightarrow> name \<noteq> ''manifest''"
  by (auto simp: is_dump_name_def db_label_def)

lemma push_ok: "generations_ok es \<Longrightarrow> entry_fresh es e \<Longrightarrow> generations_ok (push_generation e es)"
  by (auto simp: generations_ok_def entry_fresh_def ascending_push) (simp add: push_generation_def)

lemma retain_ok: "generations_ok es \<Longrightarrow> retain keep es = (ks, ev) \<Longrightarrow> generations_ok ks"
  using retain_ascending [of es keep] retain_split [of keep es ks ev]
  by (auto simp: generations_ok_def)

lemma ascending_names: "ascending (ev @ ks) \<Longrightarrow> gn_name ` set ev \<inter> gn_name ` set ks = {}"
  by (auto simp: ascending_def)

lemma from_listing_nth: "i < length l \<Longrightarrow>
    from_listing l ! i = \<lparr>gn_generation = of_nat i + 1, gn_name = fst (l ! i), gn_size = snd (l ! i)\<rparr>"
  by (simp add: from_listing_def nth_enumerate_eq split: prod.split)

lemma from_listing_length [simp]: "length (from_listing l) = length l"
  by (simp add: from_listing_def)

lemma from_listing_names: "map gn_name (from_listing l) = map fst l"
  by (rule nth_equalityI) (simp_all add: from_listing_nth)

lemma from_listing_gen: "i < length l \<Longrightarrow> length l < 2 ^ 64 \<Longrightarrow> unat (gn_generation (from_listing l ! i)) = i + 1"
proof -
  assume i: "i < length l" "length l < 2 ^ 64"
  then have "Suc i < 2 ^ 64" by simp
  then have "unat (of_nat (Suc i) :: u64) = Suc i"
    by (simp only: unat_of_nat) simp
  with i show ?thesis
    by (simp add: from_listing_nth add.commute)
qed

lemma from_listing_ok:
  assumes "distinct (map fst l)" "\<forall>x \<in> set l. field_ok (fst x)" "length l < 2 ^ 64"
  shows "generations_ok (from_listing l)"
proof -
  have "gn_generation (from_listing l ! i) < gn_generation (from_listing l ! j)" if "i < j" "j < length l" for i j
    using from_listing_gen [of i l] from_listing_gen [of j l] that assms(3)
    by (simp add: word_less_nat_alt)
  then have "sorted_wrt (<) (map gn_generation (from_listing l))"
    by (simp add: sorted_wrt_iff_nth_less)
  moreover have "gn_generation (from_listing l ! i) > 0" if "i < length l" for i
    using from_listing_gen [OF that assms(3)] by (simp add: word_less_nat_alt)
  then have "list_all (\<lambda>e. gn_generation e > 0) (from_listing l)"
    by (simp add: list_all_length)
  moreover have "list_all (\<lambda>e. field_ok (gn_name e)) (from_listing l)"
    using assms(2) by (auto simp: list_all_length from_listing_nth)
  ultimately show ?thesis
    using assms(1) by (simp add: generations_ok_def ascending_def from_listing_names)
qed

lemma dump_name_Some: "dump_name cfg item = Some x \<Longrightarrow>
    li_key item = backup_prefix cfg @ fst x \<and> is_dump_name (fst x)"
  by (auto simp: dump_name_def is_dump_name_def strip_prefix_Some split: option.splits if_splits)

lemma dump_names_keys: "x \<in> set (List.map_filter (dump_name cfg) ls) \<Longrightarrow>
    is_dump_name (fst x) \<and> backup_prefix cfg @ fst x \<in> li_key ` set ls"
proof (induction ls)
  case (Cons i ls)
  then show ?case
    by (cases "dump_name cfg i") (auto simp: List.map_filter_simps dest: dump_name_Some)
qed (simp add: List.map_filter_simps)

lemma dump_names_distinct: "distinct (map li_key ls) \<Longrightarrow> distinct (map fst (List.map_filter (dump_name cfg) ls))"
proof (induction ls)
  case (Cons i ls)
  then show ?case
  proof (cases "dump_name cfg i")
    case (Some x)
    have "fst x \<notin> fst ` set (List.map_filter (dump_name cfg) ls)"
    proof
      assume "fst x \<in> fst ` set (List.map_filter (dump_name cfg) ls)"
      then obtain y where "y \<in> set (List.map_filter (dump_name cfg) ls)" "fst x = fst y"
        by (rule imageE)
      then have "li_key i \<in> li_key ` set ls"
        using dump_names_keys [of y cfg ls] dump_name_Some [OF Some] by simp
      then show False
        using Cons.prems by simp
    qed
    with Cons Some show ?thesis by (simp add: List.map_filter_simps)
  qed (simp add: List.map_filter_simps)
qed (simp add: List.map_filter_simps)

lemma length_map_filter: "length (List.map_filter f xs) \<le> length xs"
  by (simp add: List.map_filter_def)

lemma listing_objects:
  assumes "li_key ` set ls = {k. prefix pre k \<and> b k \<noteq> None}" "distinct (map li_key ls)" "length ls \<le> MAX_LIST_KEYS"
    and l: "l = sort_key fst (List.map_filter (dump_name cfg) ls)"
  shows "distinct (map fst l)" "\<forall>x \<in> set l. is_dump_name (fst x) \<and> b (backup_prefix cfg @ fst x) \<noteq> None"
    "length l < 2 ^ 64"
proof -
  show "distinct (map fst l)"
    using dump_names_distinct [OF assms(2), of cfg] by (simp add: l distinct_map)
  show "\<forall>x \<in> set l. is_dump_name (fst x) \<and> b (backup_prefix cfg @ fst x) \<noteq> None"
    using dump_names_keys [of _ cfg ls] assms(1) unfolding l set_sort by blast
  show "length l < 2 ^ 64"
    using length_map_filter [of "dump_name cfg" ls] assms(3) by (simp add: l MAX_LIST_KEYS_def)
qed

abbreviation on_bucket :: "('e \<Rightarrow> string \<Rightarrow> string option) \<Rightarrow> ((string \<Rightarrow> string option) \<Rightarrow> bool) \<Rightarrow> 'e world \<Rightarrow> bool" where
  "on_bucket bk P w \<equiv> P (bucket bk w)"

lemma local_bucket: "local_op ps m \<Longrightarrow> preserves (on_bucket bk P) m"
  by (rule local_preserves_env)

context object_store
begin

lemma bucket_history_ok:
  assumes calm: "calm abort"
  shows "hoare (on_bucket bk (sound_bucket cfg)) (bucket_history st cfg abort)
    (\<lambda>h. on_bucket bk (\<lambda>b. sound_bucket cfg b \<and> (\<forall>es. h = Some es \<longrightarrow> history_ok cfg es b)))"
proof (rule hoareI)
  fix w h v
  assume s: "on_bucket bk (sound_bucket cfg) w" and run: "run_state (bucket_history st cfg abort) w = (h, v)"
  obtain r u where r: "run_state (st_get_text st (backup_manifest_key cfg) MAX_BACKUP_MANIFEST_BYTES abort) w = (r, u)"
    by (cases "run_state (st_get_text st (backup_manifest_key cfg) MAX_BACKUP_MANIFEST_BYTES abort) w")
  note g = get_text_law [OF calm r]
  show "on_bucket bk (\<lambda>b. sound_bucket cfg b \<and> (\<forall>es. h = Some es \<longrightarrow> history_ok cfg es b)) v"
  proof (cases "r = Inr None")
    case False
    then have "v = u" "\<And>es. h = Some es \<Longrightarrow> \<exists>text. r = Inr (Some text) \<and> generations_parse text = Inr es"
      using run r by (auto simp: bucket_history_def load_generations_def read_generations_def
        split: sum.splits option.splits)
    then show ?thesis
      using g s by (fastforce simp: sound_bucket_def history_ok_def)
  next
    case True
    then have none: "bucket bk w (backup_manifest_key cfg) = None"
      using g by simp
    obtain lr x where l: "run_state (st_list st (backup_prefix cfg) abort) u = (lr, x)"
      by (cases "run_state (st_list st (backup_prefix cfg) abort) u")
    note ll = list_law [OF calm l]
    have v: "v = x" and h: "h = (case lr of Inl _ \<Rightarrow> None
        | Inr ls \<Rightarrow> Some (from_listing (sort_key fst (List.map_filter (dump_name cfg) ls))))"
      using run r l True by (auto simp: bucket_history_def load_generations_def read_generations_def
        list_objects_def split: sum.splits)
    have b: "bucket bk v = bucket bk w"
      using g ll v by simp
    show ?thesis
    proof (cases lr)
      case (Inr ls)
      let ?l = "sort_key fst (List.map_filter (dump_name cfg) ls)"
      have keys: "li_key ` set ls = {k. prefix (backup_prefix cfg) k \<and> bucket bk w k \<noteq> None}"
        "distinct (map li_key ls)" "length ls \<le> MAX_LIST_KEYS"
        using ll g Inr by simp_all
      note o = listing_objects [OF keys refl]
      have d: "dumps_ok cfg (bucket bk w)"
        using s none by (simp add: sound_bucket_def)
      have "generations_ok (from_listing ?l)"
        using o d by (intro from_listing_ok) (auto simp: dumps_ok_def)
      moreover have "names_live cfg (bucket bk w) (from_listing ?l)"
      proof -
        have "gn_name ` set (from_listing ?l) = fst ` set ?l"
          using arg_cong [OF from_listing_names [of ?l], of set] by simp
        then show ?thesis
          using o(2) dump_name_manifest by (fastforce simp: names_live_def)
      qed
      ultimately show ?thesis
        using h Inr none d s b by (simp add: history_ok_def)
    qed (use h s b in simp)
  qed
qed

end

subsection \<open>Publishing a dump\<close>

text \<open>The bucket between the upload of the dump and the end of the cycle.\<close>

definition uploaded_ok :: "backup_config \<Rightarrow> generations \<Rightarrow> generation \<Rightarrow> (string \<Rightarrow> string option) \<Rightarrow> bool" where
  "uploaded_ok cfg es e b \<longleftrightarrow> history_ok cfg es b \<and> entry_fresh es e \<and> b (backup_prefix cfg @ gn_name e) \<noteq> None"

definition published_ok :: "backup_config \<Rightarrow> generations \<Rightarrow> (string \<Rightarrow> string option) \<Rightarrow> bool" where
  "published_ok cfg ks b \<longleftrightarrow> b (backup_manifest_key cfg) = Some (generations_render ks) \<and> generations_ok ks \<and>
     names_live cfg b ks"

definition cycle_end :: "backup_config \<Rightarrow> (string \<Rightarrow> string option) \<Rightarrow> bool" where
  "cycle_end cfg b \<longleftrightarrow> sound_bucket cfg b \<or> newest_dangling cfg b"

lemma published_sound: "published_ok cfg ks b \<Longrightarrow> sound_bucket cfg b"
  using generations_round_trip [of ks] by (auto simp: published_ok_def sound_bucket_def)

lemma key_manifest: "backup_prefix cfg @ name = backup_manifest_key cfg \<longleftrightarrow> name = ''manifest''"
  by (simp add: backup_manifest_key_def)

lemma fresh_name: "entry_fresh es e \<Longrightarrow> x \<in> set es \<Longrightarrow> gn_name x \<noteq> gn_name e"
  by (auto simp: entry_fresh_def find_name_def find_None_iff)

lemma retain_snoc: "0 < keep \<Longrightarrow> retain keep (push_generation e es) = (ks, ev) \<Longrightarrow>
    \<exists>ks'. ks = ks' @ [e] \<and> set ks' \<subseteq> set es \<and> set ev \<subseteq> set es"
  by (auto simp: retain_def push_generation_def split: if_splits dest: in_set_dropD in_set_takeD)

lemma publish_step:
  assumes u: "uploaded_ok cfg es e b" and k: "0 < keep" "retain keep (push_generation e es) = (ks, ev)"
  shows "published_ok cfg ks (b(backup_manifest_key cfg \<mapsto> generations_render ks))"
proof -
  from u have h: "history_ok cfg es b" "entry_fresh es e" "b (backup_prefix cfg @ gn_name e) \<noteq> None"
    by (simp_all add: uploaded_ok_def)
  have ok: "generations_ok ks"
    using h by (intro retain_ok [OF push_ok k(2)]) (simp_all add: history_ok_def)
  from retain_snoc [OF k] obtain ks' where ks: "ks = ks' @ [e]" "set ks' \<subseteq> set es" by blast
  have "gn_name e \<noteq> ''manifest''"
    using h(2) dump_name_manifest by (auto simp: entry_fresh_def)
  then have "names_live cfg b ks"
    using ks h by (auto simp: names_live_def history_ok_def)
  then have "names_live cfg (b(backup_manifest_key cfg \<mapsto> generations_render ks)) ks"
    by (auto simp: names_live_def key_manifest)
  with ok show ?thesis
    by (simp add: published_ok_def)
qed

lemma drop_dump_sound:
  assumes u: "uploaded_ok cfg es e b"
  shows "sound_bucket cfg (b(backup_prefix cfg @ gn_name e := None))"
proof -
  from u have h: "history_ok cfg es b" "entry_fresh es e"
    by (simp_all add: uploaded_ok_def)
  have m: "gn_name e \<noteq> ''manifest''"
    using h(2) dump_name_manifest by (auto simp: entry_fresh_def)
  have "names_live cfg (b(backup_prefix cfg @ gn_name e := None)) es"
    using h fresh_name [OF h(2)] by (fastforce simp: history_ok_def names_live_def)
  moreover have "dumps_ok cfg b \<Longrightarrow> dumps_ok cfg (b(backup_prefix cfg @ gn_name e := None))"
    by (auto simp: dumps_ok_def)
  moreover have "backup_manifest_key cfg \<noteq> backup_prefix cfg @ gn_name e"
    using m key_manifest by metis
  ultimately show ?thesis
    using h(1) by (auto simp: sound_bucket_def history_ok_def split: option.splits)
qed

lemma drop_published_dangling:
  assumes u: "uploaded_ok cfg es e b" and k: "0 < keep" "retain keep (push_generation e es) = (ks, ev)"
  shows "newest_dangling cfg (b(backup_manifest_key cfg \<mapsto> generations_render ks, backup_prefix cfg @ gn_name e := None))"
proof -
  from u have h: "history_ok cfg es b" "entry_fresh es e"
    by (simp_all add: uploaded_ok_def)
  have m: "gn_name e \<noteq> ''manifest''"
    using h(2) dump_name_manifest by (auto simp: entry_fresh_def)
  from retain_snoc [OF k] obtain ks' where ks: "ks = ks' @ [e]" "set ks' \<subseteq> set es" by blast
  have "generations_parse (generations_render ks) = Inr (ks' @ [e])"
    using publish_step [OF u k] generations_round_trip ks by (auto simp: published_ok_def)
  moreover have "names_live cfg (b(backup_manifest_key cfg \<mapsto> generations_render ks, backup_prefix cfg @ gn_name e := None)) ks'"
    using h(1) ks(2) fresh_name [OF h(2)] by (fastforce simp: history_ok_def names_live_def key_manifest)
  moreover have "backup_manifest_key cfg \<noteq> backup_prefix cfg @ gn_name e"
    using m key_manifest by metis
  ultimately show ?thesis
    unfolding newest_dangling_def by auto
qed

lemma evicted_apart:
  assumes "generations_ok es" "entry_fresh es e" "retain keep (push_generation e es) = (ks, ev)"
  shows "gn_name ` set ev \<inter> gn_name ` set ks = {}"
proof -
  have "ascending (push_generation e es)"
    using push_ok [OF assms(1,2)] by (simp add: generations_ok_def)
  then show ?thesis
    using retain_split [OF assms(3)] ascending_names by metis
qed

lemmas local_lineage_write = local_op_write [OF singletonI] local_op_make_private [OF singletonI]

lemma lineage_write_bucket: "preserves (on_bucket bk P) (lineage_write p g)"
  unfolding lineage_write_def lineage_write_text_def
  by (intro preserves_rules local_lineage_write [THEN local_bucket])

lemma retain_dump_bucket: "preserves (on_bucket bk P) (retain_dump staged p)"
  unfolding retain_dump_def
  by (intro preserves_rules local_lineage_write(2) [THEN local_bucket] local_op_remove [OF singletonI, THEN local_bucket]
    local_op_rename [of _ UNIV, THEN local_bucket]) simp_all

lemma remove_bucket: "preserves (on_bucket bk P) (fs_remove p)"
  by (rule local_op_remove [OF singletonI, THEN local_bucket])

context object_store
begin

lemma prune_published:
  assumes calm: "calm abort" and live: "\<forall>e \<in> set ev. gn_name e \<noteq> ''manifest''"
    and apart: "gn_name ` set ev \<inter> gn_name ` set ks = {}"
  shows "preserves (on_bucket bk (published_ok cfg ks)) (prune st cfg ev abort)"
  using live apart
proof (induction ev)
  case (Cons e ev)
  have "preserves (on_bucket bk (published_ok cfg ks)) (st_delete st (backup_prefix cfg @ gn_name e) abort)"
  proof (rule preservesI, frule delete_law [OF calm])
    fix w r v
    assume p: "on_bucket bk (published_ok cfg ks) w"
      and l: "w_fs v = w_fs w \<and> (bucket bk v = bucket bk w \<and> r \<noteq> Inr () \<or>
        bucket bk v = (bucket bk w)(backup_prefix cfg @ gn_name e := None))"
    have "backup_manifest_key cfg \<noteq> backup_prefix cfg @ gn_name e"
      using Cons.prems(1) key_manifest by (metis list.set_intros(1))
    moreover have "\<forall>x \<in> set ks. gn_name x \<noteq> gn_name e"
      using Cons.prems(2) by (simp add: image_iff) metis
    ultimately show "on_bucket bk (published_ok cfg ks) v"
      using p l by (auto simp: published_ok_def names_live_def)
  qed
  moreover have "preserves (on_bucket bk (published_ok cfg ks)) (prune st cfg ev abort)"
    using Cons by (intro Cons.IH) auto
  ultimately show ?case
    by auto
qed auto

lemma store_generations_law:
  assumes calm: "calm abort" and run: "run_state (store_generations st cfg es abort) w = (r, v)"
  shows "bucket bk v = bucket bk w \<and> r \<noteq> Inr () \<or>
    bucket bk v = (bucket bk w)(backup_manifest_key cfg \<mapsto> generations_render es)"
proof (cases "MAX_BACKUP_MANIFEST_BYTES < length (generations_render es)")
  case False
  obtain x where x: "run_state (st_put_bytes st (backup_manifest_key cfg) (generations_render es) abort) w = (x, v)"
    and r: "r = (case x of Inl e \<Rightarrow> Inl (BucketError e) | Inr _ \<Rightarrow> Inr ())"
    using run False by (auto simp: store_generations_def split: prod.splits)
  show ?thesis
    using put_bytes_law [OF calm x] r by (auto split: sum.splits)
qed (use run in \<open>auto simp: store_generations_def\<close>)

lemma publish_dump_ok:
  assumes calm: "calm abort" and keep: "0 < bc_keep cfg"
  shows "hoare (on_bucket bk (uploaded_ok cfg es e)) (publish_dump st cfg abort es staged e)
    (\<lambda>_. on_bucket bk (cycle_end cfg))"
proof (cases "retain (bc_keep cfg) (push_generation e es)")
  case (Pair ks ev)
  have sub: "set ev \<subseteq> set es"
    using retain_snoc [OF keep Pair] by blast
  show ?thesis
  proof (cases "generations_ok es \<and> entry_fresh es e \<and> (\<forall>x \<in> set es. gn_name x \<noteq> ''manifest'')")
    case True
    have prune: "preserves (on_bucket bk (published_ok cfg ks)) (prune st cfg ev abort)"
      using True sub evicted_apart [OF _ _ Pair] by (intro prune_published calm) auto
    have good: "hoare (on_bucket bk (published_ok cfg ks)) (do {
           lineage_write (bc_db_path cfg) (gn_generation e);
           retain_dump staged (bc_db_path cfg);
           prune st cfg ev abort }) (\<lambda>_. on_bucket bk (cycle_end cfg))"
      by (intro hoare_keep lineage_write_bucket retain_dump_bucket hoare_post [OF hoare_lift [OF prune]])
        (simp add: cycle_end_def published_sound)
    let ?P = "\<lambda>b. uploaded_ok cfg es e b \<or> (\<exists>a. uploaded_ok cfg es e a \<and>
        b = a(backup_manifest_key cfg \<mapsto> generations_render ks))"
    have del: "hoare (on_bucket bk ?P) (st_delete st (backup_prefix cfg @ gn_name e) abort)
        (\<lambda>_. on_bucket bk (cycle_end cfg))"
    proof (rule hoareI, frule delete_law [OF calm])
      fix w r v
      assume p: "on_bucket bk ?P w"
        and l: "w_fs v = w_fs w \<and> (bucket bk v = bucket bk w \<and> r \<noteq> Inr () \<or>
          bucket bk v = (bucket bk w)(backup_prefix cfg @ gn_name e := None))"
      have "cycle_end cfg (bucket bk w)"
        using p published_sound [OF publish_step [OF _ keep Pair]] history_sound
        unfolding cycle_end_def uploaded_ok_def by metis
      moreover have "cycle_end cfg ((bucket bk w)(backup_prefix cfg @ gn_name e := None))"
        using p drop_dump_sound drop_published_dangling [OF _ keep Pair] by (auto simp: cycle_end_def)
      ultimately show "on_bucket bk (cycle_end cfg) v"
        using l by auto
    qed
    have bad: "hoare (on_bucket bk ?P) (do {
           fs_remove staged;
           st_delete st (backup_prefix cfg @ gn_name e) abort;
           ret () }) (\<lambda>_. on_bucket bk (cycle_end cfg))"
      by (intro hoare_keep [OF remove_bucket] hoare_bind [OF del] hoare_return)
    have "hoare (on_bucket bk (uploaded_ok cfg es e)) (store_generations st cfg ks abort)
        (\<lambda>r w. case r of Inl _ \<Rightarrow> on_bucket bk ?P w | Inr _ \<Rightarrow> on_bucket bk (published_ok cfg ks) w)"
    proof (rule hoareI, frule store_generations_law [OF calm])
      fix w r v
      assume p: "on_bucket bk (uploaded_ok cfg es e) w"
        and l: "bucket bk v = bucket bk w \<and> r \<noteq> Inr () \<or>
          bucket bk v = (bucket bk w)(backup_manifest_key cfg \<mapsto> generations_render ks)"
      then show "case r of Inl _ \<Rightarrow> on_bucket bk ?P v | Inr _ \<Rightarrow> on_bucket bk (published_ok cfg ks) v"
        using publish_step [OF p keep Pair] by (cases r) auto
    qed
    then show ?thesis
      unfolding publish_dump_def Pair prod.case
    proof (rule hoare_bind, goal_cases)
      case (1 r)
      then show ?case
        using good bad by (cases r) simp_all
    qed
  next
    case False
    then show ?thesis
      by (auto simp: hoare_def uploaded_ok_def history_ok_def names_live_def)
  qed
qed

end

subsection \<open>The whole cycle\<close>

text \<open>The object names of the cycle's stamps are new in the bucket, and free of white space.\<close>

definition fresh_stamps :: "'e tools \<Rightarrow> backup_config \<Rightarrow> ('e \<Rightarrow> string \<Rightarrow> string option) \<Rightarrow> (string \<Rightarrow> string option) \<Rightarrow> bool" where
  "fresh_stamps tt cfg bk b \<longleftrightarrow> (\<forall>w ts v. bucket bk w = b \<longrightarrow> run_state (timestamp tt) w = (ts, v) \<longrightarrow>
     b (backup_prefix cfg @ object_name cfg ts) = None \<and> field_ok (object_name cfg ts))"

definition fresh_name_for :: "backup_config \<Rightarrow> (string \<Rightarrow> string option) \<Rightarrow> string \<Rightarrow> bool" where
  "fresh_name_for cfg b name \<longleftrightarrow> b (backup_prefix cfg @ name) = None \<and> field_ok name \<and> is_dump_name name"

lemma object_name_dump: "is_dump_name (object_name cfg ts)"
  by (simp add: is_dump_name_def object_name_def suffix_def)

lemma fresh_entry:
  assumes "history_ok cfg es b" "fresh_name_for cfg b (gn_name e)" "gn_generation e > latest es"
  shows "entry_fresh es e"
  using assms by (auto simp: entry_fresh_def fresh_name_for_def history_ok_def names_live_def find_name_def find_None_iff)

lemma upload_history:
  assumes "history_ok cfg es b" "fresh_name_for cfg b name"
  shows "history_ok cfg es (b(backup_prefix cfg @ name \<mapsto> d))"
proof -
  have "backup_manifest_key cfg \<noteq> backup_prefix cfg @ name"
    using assms(2) dump_name_manifest key_manifest unfolding fresh_name_for_def by metis
  then show ?thesis
    using assms by (auto simp: history_ok_def names_live_def dumps_ok_def fresh_name_for_def split: option.splits)
qed

lemma history_end: "history_ok cfg es b \<Longrightarrow> cycle_end cfg b"
  by (simp add: cycle_end_def history_sound)

lemma quiet_env: "quiet bk f \<Longrightarrow> preserves (on_bucket bk P) (env_op f)"
  by (rule env_op_quiet)

lemma timestamp_bucket: "quiet_tools bk tt \<Longrightarrow> preserves (on_bucket bk P) (timestamp tt)"
  unfolding timestamp_def by (intro preserves_rules quiet_env) (simp_all add: quiet_tools_def)

lemma is_empty_bucket: "quiet_tools bk tt \<Longrightarrow> preserves (on_bucket bk P) (is_empty tt path)"
  unfolding is_empty_def db_files_def
  by (intro preserves_rules quiet_env local_op_exists [THEN local_bucket]) (simp add: quiet_tools_def)

lemma modify_written_bucket: "preserves (on_bucket bk P) (modify (written p d))"
  by (rule preserves_modify) simp

lemma sqlite_dump_bucket: "quiet_tools bk tt \<Longrightarrow> preserves (on_bucket bk P) (sqlite_dump tt path staged)"
  unfolding sqlite_dump_def db_files_def
  by (intro preserves_rules quiet_env modify_written_bucket remove_bucket) (simp add: quiet_tools_def)

lemma sweep_entries_bucket: "preserves (on_bucket bk P) (sweep_entries dir names)"
proof (induction names)
  case (Cons n ns)
  have a: "preserves (on_bucket bk P) (fs_remove_dir_all (dir @ ''/'' @ n))"
    by (rule local_op_remove_dir_all [of _ UNIV, THEN local_bucket]) simp
  show ?case
    unfolding sweep_entries.simps
    by (intro preserves_rules local_op_is_dir [THEN local_bucket] a remove_bucket Cons)
qed auto

lemma sweep_staging_bucket: "preserves (on_bucket bk P) (sweep_staging dir)"
  unfolding sweep_staging_def fs_read_made_dir_def
  by (intro preserves_rules local_op_dir_op [THEN local_bucket] local_op_next_fault [THEN local_bucket]
    sweep_entries_bucket)

lemma is_repeat_bucket: "preserves (on_bucket bk P) (is_repeat a b)"
  unfolding is_repeat_def same_bytes_def by (intro preserves_rules local_op_read [THEN local_bucket])

lemma lineage_read_bucket: "preserves (on_bucket bk P) (lineage_read p)"
  unfolding lineage_read_def by (intro preserves_rules local_op_read_to_string [THEN local_bucket])

context object_store
begin

lemma bucket_history_bucket: "calm abort \<Longrightarrow> preserves (on_bucket bk P) (bucket_history st cfg abort)"
  unfolding bucket_history_def load_generations_def list_objects_def
  by (intro preserves_rules get_text_preserves_bucket list_preserves_bucket)

lemma push_dump_ok:
  assumes calm: "calm abort" and keep: "0 < bc_keep cfg" and gen: "gn_generation e > latest es"
  shows "hoare (on_bucket bk (\<lambda>b. history_ok cfg es b \<and> fresh_name_for cfg b (gn_name e)))
    (push_dump st cfg abort es staged e) (\<lambda>_. on_bucket bk (cycle_end cfg))"
proof -
  have "hoare (on_bucket bk (\<lambda>b. history_ok cfg es b \<and> fresh_name_for cfg b (gn_name e)))
      (st_put st (backup_prefix cfg @ gn_name e) staged abort)
      (\<lambda>r w. case r of Inl _ \<Rightarrow> on_bucket bk (history_ok cfg es) w | Inr _ \<Rightarrow> on_bucket bk (uploaded_ok cfg es e) w)"
  proof (rule hoareI, frule put_law [OF calm])
    fix w r v
    assume p: "on_bucket bk (\<lambda>b. history_ok cfg es b \<and> fresh_name_for cfg b (gn_name e)) w"
      and l: "w_fs v = w_fs w \<and> (bucket bk v = bucket bk w \<and> r \<noteq> Inr () \<or>
        (\<exists>d. data_at w staged = Some d \<and> bucket bk v = (bucket bk w)(backup_prefix cfg @ gn_name e \<mapsto> d)))"
    from p have h: "history_ok cfg es (bucket bk w)" "fresh_name_for cfg (bucket bk w) (gn_name e)"
      by simp_all
    note u = upload_history [OF h] and f = fresh_entry [OF h gen]
    show "case r of Inl _ \<Rightarrow> on_bucket bk (history_ok cfg es) v | Inr _ \<Rightarrow> on_bucket bk (uploaded_ok cfg es e) v"
      using l h u f by (auto simp: uploaded_ok_def split: sum.split)
  qed
  then show ?thesis
    unfolding push_dump_def
  proof (rule hoare_bind, goal_cases)
    case (1 r)
    have fail: "hoare (on_bucket bk (history_ok cfg es)) (do { fs_remove staged; ret () }) (\<lambda>_. on_bucket bk (cycle_end cfg))"
      by (intro hoare_keep [OF remove_bucket] hoare_return) (rule history_end)
    show ?case
      using fail publish_dump_ok [OF calm keep] by (cases r) simp_all
  qed
qed

lemma ship_dump_ok:
  assumes calm: "calm abort" and keep: "0 < bc_keep cfg" and gen: "g > latest es"
  shows "hoare (on_bucket bk (\<lambda>b. history_ok cfg es b \<and> fresh_name_for cfg b name))
    (ship_dump st cfg abort es known staged name g) (\<lambda>_. on_bucket bk (cycle_end cfg))"
proof -
  have stop: "hoare (on_bucket bk (\<lambda>b. history_ok cfg es b \<and> fresh_name_for cfg b name))
      (do { fs_remove staged; ret () }) (\<lambda>_. on_bucket bk (cycle_end cfg))"
    by (intro hoare_keep [OF remove_bucket] hoare_return) (auto intro: history_end)
  have go: "hoare (on_bucket bk (\<lambda>b. history_ok cfg es b \<and> fresh_name_for cfg b name))
      (push_dump st cfg abort es staged \<lparr>gn_generation = g, gn_name = name, gn_size = n\<rparr>)
      (\<lambda>_. on_bucket bk (cycle_end cfg))" for n
    using push_dump_ok [OF calm keep, of es "\<lparr>gn_generation = g, gn_name = name, gn_size = n\<rparr>"] gen by simp
  show ?thesis
    unfolding ship_dump_def
    by (intro hoare_keep [OF local_lineage_write(2) [THEN local_bucket]] hoare_sum stop hoare_if go
      hoare_keep [OF local_op_len [THEN local_bucket]] hoare_keep [OF is_repeat_bucket])
qed

lemma take_dump_ok:
  assumes calm: "calm abort" and keep: "0 < bc_keep cfg" and gen: "g > latest es" and q: "quiet_tools bk tt"
  shows "hoare (on_bucket bk (\<lambda>b. history_ok cfg es b \<and> fresh_name_for cfg b (object_name cfg ts)))
    (take_dump tt st cfg abort es known ts g) (\<lambda>_. on_bucket bk (cycle_end cfg))"
  unfolding take_dump_def
  by (intro hoare_keep [OF sweep_staging_bucket] hoare_if hoare_keep [OF sqlite_dump_bucket [OF q]]
    ship_dump_ok calm keep gen) (auto intro!: hoare_return history_end)

lemma tick_with_ok:
  assumes calm: "calm abort" and keep: "0 < bc_keep cfg" and q: "quiet_tools bk tt"
    and sound: "sound_bucket cfg b" and fresh: "fresh_stamps tt cfg bk b"
  shows "hoare (on_bucket bk (\<lambda>c. c = b)) (tick_with tt st cfg abort) (\<lambda>_. on_bucket bk (cycle_end cfg))"
proof -
  have fin: "hoare (on_bucket bk (\<lambda>c. c = b)) (ret ()) (\<lambda>_. on_bucket bk (cycle_end cfg))"
    using sound by (auto intro!: hoare_return simp: cycle_end_def)
  have stamp: "hoare (on_bucket bk (\<lambda>c. c = b)) (timestamp tt)
      (\<lambda>ts. on_bucket bk (\<lambda>c. c = b \<and> fresh_name_for cfg b (object_name cfg ts)))"
    using fresh preserves_snd [OF timestamp_bucket [OF q, of "\<lambda>c. c = b"]]
    by (auto intro!: hoareI simp: fresh_stamps_def fresh_name_for_def object_name_dump)
      (metis snd_conv)
  have rest: "hoare (on_bucket bk (\<lambda>c. c = b)) (do {
         recorded \<leftarrow> lineage_read (bc_db_path cfg);
         if verdict (resolve_known recorded es) (latest es) = Refuse then ret ()
         else do {
           ts \<leftarrow> timestamp tt;
           case next_generation es of None \<Rightarrow> ret ()
           | Some g \<Rightarrow> take_dump tt st cfg abort es (resolve_known recorded es) ts g } })
      (\<lambda>_. on_bucket bk (cycle_end cfg))" if h: "history_ok cfg es b" for es
  proof (intro hoare_keep [OF lineage_read_bucket] hoare_if fin hoare_bind [OF stamp])
    fix recorded ts
    show "hoare (on_bucket bk (\<lambda>c. c = b \<and> fresh_name_for cfg b (object_name cfg ts)))
        (case next_generation es of None \<Rightarrow> ret ()
          | Some g \<Rightarrow> take_dump tt st cfg abort es (resolve_known recorded es) ts g)
        (\<lambda>_. on_bucket bk (cycle_end cfg))"
    proof (cases "next_generation es")
      case (Some g)
      show ?thesis
        unfolding Some option.case
        by (rule hoare_pre [OF take_dump_ok [OF calm keep next_generation_greater [OF Some] q]]) (use h in auto)
    qed (use sound in \<open>auto intro!: hoare_return simp: cycle_end_def\<close>)
  qed
  have hist: "hoare (on_bucket bk (\<lambda>c. c = b)) (bucket_history st cfg abort)
      (\<lambda>h. on_bucket bk (\<lambda>c. c = b \<and> (\<forall>es. h = Some es \<longrightarrow> history_ok cfg es b)))"
  proof -
    have "hoare (on_bucket bk (\<lambda>c. c = b)) (bucket_history st cfg abort)
        (\<lambda>h. on_bucket bk (\<lambda>b. sound_bucket cfg b \<and> (\<forall>es. h = Some es \<longrightarrow> history_ok cfg es b)))"
      by (rule hoare_pre [OF bucket_history_ok [OF calm]]) (use sound in simp)
    from hoare_conj [OF hoare_lift [OF bucket_history_bucket [OF calm, where P = "\<lambda>c. c = b"]] this]
    show ?thesis
      by (rule hoare_post) auto
  qed
  show ?thesis
    unfolding tick_with_def
  proof (rule hoare_bind [OF hist])
    fix h
    show "hoare (on_bucket bk (\<lambda>c. c = b \<and> (\<forall>es. h = Some es \<longrightarrow> history_ok cfg es b)))
      (case h of None \<Rightarrow> ret () | Some es \<Rightarrow> do {
         recorded \<leftarrow> lineage_read (bc_db_path cfg);
         if verdict (resolve_known recorded es) (latest es) = Refuse then ret ()
         else do {
           ts \<leftarrow> timestamp tt;
           case next_generation es of None \<Rightarrow> ret ()
           | Some g \<Rightarrow> take_dump tt st cfg abort es (resolve_known recorded es) ts g } })
      (\<lambda>_. on_bucket bk (cycle_end cfg))"
    proof (cases h)
      case (Some es)
      show ?thesis
      proof (cases "history_ok cfg es b")
        case True
        show ?thesis
          unfolding Some option.case by (rule hoare_pre [OF rest [OF True]]) simp
      next
        case False
        then show ?thesis by (simp add: Some hoare_def)
      qed
    qed (use sound in \<open>auto intro!: hoare_return simp: cycle_end_def\<close>)
  qed
qed

end

end
