(* ===== verification/S3Service.thy ===== *)
theory S3Service
  imports ObjectStore
begin

text \<open>
  The documented behaviour of the S3 service behind \<open>d_http\<close> as a locale, and the proof that the
  client of \<open>s3/client.rs\<close> over such a service is an \<open>object_store\<close>: the retries, the multipart
  upload and the paged listing keep the contract the callers rely on.

  \<open>bk\<close> is the bucket's content, \<open>up\<close> the parts of the open uploads. A request that is
  answered with 2xx took effect; any other outcome, a lost response included, may have taken
  effect or not. Parts of an upload may vanish (completion, abort, expiry). A listing answers the
  keys of the prefix that lie after its token and not after the next one (\<open>after\<close>).
\<close>

definition accepted_by :: "ureq_error + response \<Rightarrow> bool" where
  "accepted_by r \<longleftrightarrow> (case r of Inl _ \<Rightarrow> False | Inr rp \<Rightarrow> 200 \<le> rp_status rp \<and> rp_status rp < 300)"

definition etag_of :: "ureq_error + response \<Rightarrow> string option" where
  "etag_of r = (case r of Inl _ \<Rightarrow> None | Inr rp \<Rightarrow> rp_etag rp)"

definition parts_match :: "(nat \<Rightarrow> (string \<times> string) option) \<Rightarrow> string list \<Rightarrow> string list \<Rightarrow> bool" where
  "parts_match ps etags bs \<longleftrightarrow> length bs = length etags \<and>
     (\<forall>i < length etags. ps (i + 1) = Some (etags ! i, bs ! i))"

lemma answer_Inr: "answer r = Inr rp \<longleftrightarrow> r = Inr rp \<and> accepted_by r"
  by (auto simp: answer_def checked_def accepted_by_def split: sum.splits)

lemma no_body_ok: "no_body (answer r) = Inr () \<longleftrightarrow> accepted_by r"
  by (auto simp: no_body_def answer_def checked_def accepted_by_def split: sum.splits)

text \<open>The retry loop: failures keep \<open>P\<close>, so the one answer that leaves the loop is judged by \<open>Q\<close>.\<close>

definition fails_to :: "('s \<Rightarrow> bool) \<Rightarrow> ('a \<Rightarrow> 's \<Rightarrow> bool) \<Rightarrow> 'x + 'a \<Rightarrow> 's \<Rightarrow> bool" where
  "fails_to P Q r s \<longleftrightarrow> (case r of Inl _ \<Rightarrow> P s | Inr a \<Rightarrow> Q a s)"

lemma fails_to_simps [simp]: "fails_to P Q (Inl e) s = P s" "fails_to P Q (Inr a) s = Q a s"
  by (simp_all add: fails_to_def)

lemma hoare_retrying_any:
  assumes req: "hoare P request R"
    and keep: "preserves P (env_op (d_millis dp))" "\<And>n. preserves P (env_op (d_sleep dp n))"
    and failed: "\<And>e w. R (Inl e) w \<Longrightarrow> P w"
  shows "hoare P (retrying dp request) R"
proof -
  have "hoare P (retrying_from dp n request) R" for n
  proof (induction n)
    case (Suc n)
    have "hoare (R r) (case r of Inl e \<Rightarrow> if retryable e then do {
           ms \<leftarrow> env_op (d_millis dp);
           env_op (d_sleep dp (backoff (RETRY_ATTEMPTS - Suc n) ms));
           retrying_from dp n request }
         else ret (Inl e)
       | Inr a \<Rightarrow> ret (Inr a)) R" for r
    proof (cases r)
      case (Inl e)
      show ?thesis
        unfolding Inl sum.case
        by (intro hoare_if hoare_pre [OF hoare_keep [OF keep(1) hoare_keep [OF keep(2) Suc]]]
          hoare_return) (auto dest: failed)
    qed (auto intro: hoare_return)
    then show ?case
      unfolding retrying_from.simps by (rule hoare_bind [OF req])
  qed (simp add: req)
  then show ?thesis
    by (simp add: retrying_def)
qed

lemma hoare_retrying:
  "hoare P request (fails_to P Q) \<Longrightarrow> preserves P (env_op (d_millis dp)) \<Longrightarrow>
    (\<And>n. preserves P (env_op (d_sleep dp n))) \<Longrightarrow> hoare P (retrying dp request) (fails_to P Q)"
  by (rule hoare_retrying_any) simp_all

locale s3_service =
  fixes dp :: "'e deps" and cl :: client
    and bk :: "'e \<Rightarrow> string \<Rightarrow> string option"
    and up :: "'e \<Rightarrow> string \<Rightarrow> nat \<Rightarrow> (string \<times> string) option"
    and after :: "string option \<Rightarrow> string \<Rightarrow> bool"
  assumes quiet_law: "bk (snd (d_millis dp e)) = bk e \<and> up (snd (d_millis dp e)) = up e \<and>
      bk (snd (d_sleep dp n e)) = bk e \<and> up (snd (d_sleep dp n e)) = up e"
    and put_object_law: "d_http dp \<lparr>rq_client = cl, rq_action = PutObject, rq_key = k, rq_body = d\<rparr> e = (r, e') \<Longrightarrow>
      up e' = up e \<and> (bk e' = (bk e)(k \<mapsto> d) \<or> bk e' = bk e \<and> \<not> accepted_by r)"
    and delete_object_law: "d_http dp \<lparr>rq_client = cl, rq_action = DeleteObject, rq_key = k, rq_body = d\<rparr> e = (r, e') \<Longrightarrow>
      up e' = up e \<and> (bk e' = (bk e)(k := None) \<or> bk e' = bk e \<and> \<not> accepted_by r)"
    and get_object_law: "d_http dp \<lparr>rq_client = cl, rq_action = GetObject off, rq_key = k, rq_body = d\<rparr> e = (r, e') \<Longrightarrow>
      bk e' = bk e \<and> up e' = up e \<and> (r = Inl (StatusCode 404) \<longrightarrow> bk e k = None) \<and>
      (\<forall>rp s c. off = None \<longrightarrow> r = Inr rp \<longrightarrow> accepted_by r \<longrightarrow> read_capped c (rp_body rp) = Inr s \<longrightarrow>
        length s < c \<longrightarrow> bk e k = Some s)"
    and create_law: "d_http dp \<lparr>rq_client = cl, rq_action = CreateMultipart, rq_key = k, rq_body = d\<rparr> e = (r, e') \<Longrightarrow>
      bk e' = bk e"
    and upload_part_law: "d_http dp \<lparr>rq_client = cl, rq_action = UploadPart n u, rq_key = k, rq_body = d\<rparr> e = (r, e') \<Longrightarrow>
      bk e' = bk e \<and> (\<forall>m. m \<noteq> n \<longrightarrow> up e' u m = up e u m) \<and>
      (accepted_by r \<longrightarrow> (\<forall>t. etag_of r = Some t \<longrightarrow> up e' u n = Some (t, d)))"
    and complete_law: "d_http dp \<lparr>rq_client = cl, rq_action = CompleteMultipart u ts, rq_key = k, rq_body = d\<rparr> e = (r, e') \<Longrightarrow>
      (\<forall>m. up e' u m = up e u m \<or> up e' u m = None) \<and>
      (bk e' = bk e \<and> \<not> accepted_by r \<or> (\<exists>bs. parts_match (up e u) ts bs \<and> bk e' = (bk e)(k \<mapsto> concat bs)))"
    and abort_law: "d_http dp \<lparr>rq_client = cl, rq_action = AbortMultipart u, rq_key = k, rq_body = d\<rparr> e = (r, e') \<Longrightarrow>
      bk e' = bk e"
    and list_objects_law: "d_http dp \<lparr>rq_client = cl, rq_action = ListObjects tok, rq_key = pre, rq_body = d\<rparr> e = (r, e') \<Longrightarrow>
      bk e' = bk e \<and> up e' = up e \<and>
      (\<forall>rp s items next. r = Inr rp \<longrightarrow> accepted_by r \<longrightarrow> read_text LIST_BODY_CAP rp = Inr s \<longrightarrow>
        d_parse_list dp s = Some (items, next) \<longrightarrow>
        ri_key ` set items = {k'. prefix pre k' \<and> bk e k' \<noteq> None \<and> after tok k' \<and>
          (next = None \<or> \<not> after next k')} \<and> distinct (map ri_key items) \<and>
        (\<forall>k'. next \<noteq> None \<longrightarrow> after next k' \<longrightarrow> after tok k'))"
    and after_start: "after None k"

text \<open>What the proofs track of a world: the files, the bucket, the open parts.\<close>

definition view :: "('e \<Rightarrow> 'b) \<Rightarrow> ('e \<Rightarrow> 'u) \<Rightarrow> ((string, inode) btree \<Rightarrow> 'b \<Rightarrow> 'u \<Rightarrow> bool) \<Rightarrow> 'e world \<Rightarrow> bool" where
  "view bk up P w \<longleftrightarrow> P (w_fs w) (bk (w_env w)) (up (w_env w))"

lemma run_send: "run_state (send dp cl act key d) w = (r, v) \<Longrightarrow>
    w_fs v = w_fs w \<and> d_http dp \<lparr>rq_client = cl, rq_action = act, rq_key = key, rq_body = d\<rparr> (w_env w) = (r, w_env v)"
  by (auto simp: send_def env_op_def split: prod.splits)

lemma view_env_op: "quiet bk f \<Longrightarrow> quiet up f \<Longrightarrow> preserves (view bk up P) (env_op f)"
proof (rule preservesI)
  fix w a v
  assume q: "quiet bk f" "quiet up f" and P: "view bk up P w" and r: "run_state (env_op f) w = (a, v)"
  from r have "w_env v = snd (f (w_env w))" "w_fs v = w_fs w"
    by (auto simp: env_op_def split: prod.splits)
  with q P show "view bk up P v"
    by (simp add: quiet_def view_def)
qed

lemma hoare_view: "hoare (view bk up P) m (\<lambda>r. view bk up (Q r)) \<Longrightarrow>
    (\<And>fs b u. P' fs b u \<Longrightarrow> P fs b u) \<Longrightarrow> hoare (view bk up P') m (\<lambda>r. view bk up (Q r))"
  by (erule hoare_pre) (simp add: view_def)

text \<open>Two outcomes of a write request: the old bucket (then it was not accepted) or the new one.\<close>

definition either :: "'b \<Rightarrow> 'b \<Rightarrow> 'b \<Rightarrow> bool" where
  "either old new b \<longleftrightarrow> b = old \<or> b = new"

context s3_service
begin

definition calm :: "'e abort \<Rightarrow> bool" where
  "calm abort \<longleftrightarrow> quiet bk abort \<and> quiet up abort"

lemma view_abort: "calm abort \<Longrightarrow> preserves (view bk up P) (env_op abort)"
  by (simp add: calm_def view_env_op)

lemma view_retry:
  "preserves (view bk up P) (env_op (d_millis dp))" "preserves (view bk up P) (env_op (d_sleep dp n))"
  by (simp_all add: view_env_op quiet_def quiet_law)

lemma view_retrying: "hoare (view bk up P) request (fails_to (view bk up P) Q) \<Longrightarrow>
    hoare (view bk up P) (retrying dp request) (fails_to (view bk up P) Q)"
  by (rule hoare_retrying [OF _ view_retry])

text \<open>A write with retries: whatever was answered, the file system is the same and the bucket is
  the old or the new one; the new one if the last answer was accepted.\<close>

lemma send_put: "hoare (view bk up (\<lambda>fs b u. fs = f \<and> either old (old(k \<mapsto> d)) b)) (send dp cl PutObject k d)
    (fails_to (view bk up (\<lambda>fs b u. fs = f \<and> either old (old(k \<mapsto> d)) b))
      (\<lambda>rp. view bk up (\<lambda>fs b u. fs = f \<and> either old (old(k \<mapsto> d)) b \<and>
        (accepted_by (Inr rp) \<longrightarrow> b = old(k \<mapsto> d)))))"
  by (rule hoareI, drule run_send, elim conjE, drule put_object_law)
    (auto simp: view_def either_def fails_to_def accepted_by_def split: sum.splits)

lemma send_delete: "hoare (view bk up (\<lambda>fs b u. fs = f \<and> either old (old(k := None)) b)) (send dp cl DeleteObject k d)
    (fails_to (view bk up (\<lambda>fs b u. fs = f \<and> either old (old(k := None)) b))
      (\<lambda>rp. view bk up (\<lambda>fs b u. fs = f \<and> either old (old(k := None)) b \<and>
        (accepted_by (Inr rp) \<longrightarrow> b = old(k := None)))))"
  by (rule hoareI, drule run_send, elim conjE, drule delete_object_law)
    (auto simp: view_def either_def fails_to_def accepted_by_def split: sum.splits)

text \<open>\<open>changed f old new r\<close>: the outcome \<open>r\<close> of a write, on unchanged files \<open>f\<close>.\<close>

abbreviation changed where
  "changed f old new r \<equiv> view bk up (\<lambda>fs b u. fs = f \<and> either old new b \<and> (r = Inr () \<longrightarrow> b = new))"

abbreviation pending where
  "pending f old new \<equiv> view bk up (\<lambda>fs b u. fs = f \<and> either old new b)"

lemma hoare_answer:
  assumes "hoare P m (fails_to (pending f old new)
      (\<lambda>rp. view bk up (\<lambda>fs b u. fs = f \<and> either old new b \<and> (accepted_by (Inr rp) \<longrightarrow> b = new))))"
  shows "hoare P (do { r \<leftarrow> m; ret (no_body (answer r)) }) (changed f old new)"
  by (rule hoare_bind [OF assms]) (rule hoare_return, auto simp: view_def fails_to_def no_body_ok accepted_by_def split: sum.splits)

lemma hoare_guard_abort_either:
  "calm abort \<Longrightarrow> hoare (view bk up (\<lambda>fs b u. fs = f \<and> b = old)) m (changed f old new) \<Longrightarrow>
    hoare (view bk up (\<lambda>fs b u. fs = f \<and> b = old)) (guard_abort abort m) (changed f old new)"
  unfolding guard_abort_def
  by (intro hoare_keep view_abort hoare_if) (auto intro!: hoare_return simp: view_def either_def)

lemma put_bytes_changed: "calm abort \<Longrightarrow>
    hoare (view bk up (\<lambda>fs b u. fs = f \<and> b = old)) (s3_put_bytes dp cl k d abort) (changed f old (old(k \<mapsto> d)))"
  unfolding s3_put_bytes_def send_checked_def State_Monad.bind_assoc State_Monad.bind_left_identity
  by (intro hoare_guard_abort_either hoare_answer hoare_pre [OF view_retrying [OF send_put]])
    (auto simp: view_def either_def)

lemma delete_changed: "calm abort \<Longrightarrow>
    hoare (view bk up (\<lambda>fs b u. fs = f \<and> b = old)) (s3_delete dp cl k abort) (changed f old (old(k := None)))"
  unfolding s3_delete_def send_checked_def State_Monad.bind_assoc State_Monad.bind_left_identity
  by (intro hoare_guard_abort_either hoare_answer hoare_pre [OF view_retrying [OF send_delete]])
    (auto simp: view_def either_def)

lemma read_view: "hoare (view bk up P) (fs_read p) (\<lambda>r. view bk up (\<lambda>fs b u. P fs b u \<and>
    (\<forall>d. r = Inr d \<longrightarrow> map_option f_data (bt_get fs p) = Some d)))"
  by (rule hoareI) (auto simp: view_def fs_read_def dest!: run_next_fault split: prod.splits if_splits option.splits)

lemma put_request_view:
  assumes "map_option f_data (bt_get f path) = Some d"
  shows "hoare (pending f old (old(k \<mapsto> d))) (put_request dp cl k path)
    (fails_to (pending f old (old(k \<mapsto> d)))
      (\<lambda>rp. view bk up (\<lambda>fs b u. fs = f \<and> either old (old(k \<mapsto> d)) b \<and> (accepted_by (Inr rp) \<longrightarrow> b = old(k \<mapsto> d)))))"
  unfolding put_request_def
proof (rule hoare_bind [OF read_view], goal_cases)
  case (1 r)
  show ?case
  proof (cases r)
    case (Inr d')
    show ?thesis
    proof (cases "d' = d")
      case True
      show ?thesis
        unfolding Inr sum.case True by (rule hoare_pre [OF send_put]) (simp add: view_def)
    next
      case False
      then show ?thesis
        unfolding Inr sum.case using assms by (intro hoareI) (auto simp: view_def)
    qed
  qed (auto intro!: hoare_return simp: view_def)
qed

text \<open>Multipart: the parts acknowledged so far spell out the file read so far.\<close>

lemma send_part: "hoare (view bk up (\<lambda>fs b u. fs = f \<and> b = old \<and> parts_match (u U) ts bs))
    (send dp cl (UploadPart (length ts + 1) U) k d)
    (fails_to (view bk up (\<lambda>fs b u. fs = f \<and> b = old \<and> parts_match (u U) ts bs))
      (\<lambda>rp. view bk up (\<lambda>fs b u. fs = f \<and> b = old \<and> (accepted_by (Inr rp) \<longrightarrow>
        (\<forall>t. rp_etag rp = Some t \<longrightarrow> parts_match (u U) (ts @ [t]) (bs @ [d]))))))"
  by (rule hoareI, drule run_send, elim conjE, drule upload_part_law)
    (auto simp: view_def fails_to_def etag_of_def parts_match_def nth_append less_Suc_eq split: sum.splits)

lemma put_part_view: "hoare (view bk up (\<lambda>fs b u. fs = f \<and> b = old \<and> parts_match (u U) ts bs))
    (put_part dp cl k U (length ts + 1) d)
    (fails_to (view bk up (\<lambda>fs b u. fs = f \<and> b = old))
      (\<lambda>t. view bk up (\<lambda>fs b u. fs = f \<and> b = old \<and> parts_match (u U) (ts @ [t]) (bs @ [d]))))"
  unfolding put_part_def send_checked_def State_Monad.bind_assoc State_Monad.bind_left_identity
  by (rule hoare_bind [OF view_retrying [OF send_part]], rule hoare_return)
    (auto simp: view_def fails_to_def answer_def checked_def accepted_by_def split: sum.splits option.splits if_splits)

definition spelled :: "string \<Rightarrow> nat \<Rightarrow> string \<Rightarrow> string list \<Rightarrow> (string \<Rightarrow> nat \<Rightarrow> (string \<times> string) option) \<Rightarrow> bool" where
  "spelled d offset U ts u \<longleftrightarrow> (\<exists>bs. parts_match (u U) ts bs \<and> concat bs = take offset d)"

lemma hoare_Ex: "(\<And>x. hoare (P x) m Q) \<Longrightarrow> hoare (\<lambda>s. \<exists>x. P x s) m Q"
  by (rule hoareI) (metis hoareD)

lemma put_part_spelled:
  assumes "chunk = take n (drop offset d)"
  shows "hoare (view bk up (\<lambda>fs b u. fs = f \<and> b = old \<and> spelled d offset U ts u))
    (put_part dp cl k U (length ts + 1) chunk)
    (fails_to (view bk up (\<lambda>fs b u. fs = f \<and> b = old))
      (\<lambda>t. view bk up (\<lambda>fs b u. fs = f \<and> b = old \<and> spelled d (offset + n) U (ts @ [t]) u)))"
proof -
  have "hoare (view bk up (\<lambda>fs b u. fs = f \<and> b = old \<and> parts_match (u U) ts bs \<and> concat bs = take offset d))
    (put_part dp cl k U (length ts + 1) chunk)
    (fails_to (view bk up (\<lambda>fs b u. fs = f \<and> b = old))
      (\<lambda>t. view bk up (\<lambda>fs b u. fs = f \<and> b = old \<and> spelled d (offset + n) U (ts @ [t]) u)))" for bs
  proof (cases "concat bs = take offset d")
    case True
    then have c: "concat (bs @ [chunk]) = take (offset + n) d"
      by (simp add: assms take_add)
    show ?thesis
      by (rule hoare_weaken [OF put_part_view [where bs = bs]])
        (use c in \<open>auto simp: view_def fails_to_def spelled_def split: sum.splits\<close>)
  qed (auto intro!: hoareI simp: view_def)
  then have "hoare (\<lambda>w. \<exists>bs. view bk up (\<lambda>fs b u. fs = f \<and> b = old \<and> parts_match (u U) ts bs \<and> concat bs = take offset d) w)
    (put_part dp cl k U (length ts + 1) chunk)
    (fails_to (view bk up (\<lambda>fs b u. fs = f \<and> b = old))
      (\<lambda>t. view bk up (\<lambda>fs b u. fs = f \<and> b = old \<and> spelled d (offset + n) U (ts @ [t]) u)))"
    by (rule hoare_Ex)
  then show ?thesis
    by (rule hoare_pre) (auto simp: view_def spelled_def)
qed

lemma view_next_fault: "preserves (view bk up P) next_fault"
  by (rule preservesI) (auto simp: view_def dest!: run_next_fault)

lemma hoare_fails_bind:
  "hoare P m (fails_to R S) \<Longrightarrow> (\<And>e. hoare R (f e) Q) \<Longrightarrow> (\<And>a. hoare (S a) (g a) Q) \<Longrightarrow>
    hoare P (State_Monad.bind m (\<lambda>r. case r of Inl e \<Rightarrow> f e | Inr a \<Rightarrow> g a)) Q"
  by (rule hoare_bind, assumption) (fastforce simp: hoare_def fails_to_def split: sum.split)

lemma put_parts_from_view:
  assumes calm: "calm abort" and "fsize \<le> length d" and ps: "0 < ps"
  shows "hoare (view bk up (\<lambda>fs b u. fs = f \<and> b = old \<and> spelled d offset U ts u))
    (put_parts_from dp cl k d fsize ps U abort offset ts)
    (fails_to (view bk up (\<lambda>fs b u. fs = f \<and> b = old))
      (\<lambda>ts. view bk up (\<lambda>fs b u. fs = f \<and> b = old \<and> (0 < ps \<longrightarrow> (\<exists>n \<ge> fsize. spelled d n U ts u)))))"
proof (induction "fsize - offset" arbitrary: offset ts rule: less_induct)
  case less
  show ?case
  proof (cases "offset < fsize")
    case False
    then have "offset \<ge> fsize" by simp
    then show ?thesis
      unfolding put_parts_from.simps [of dp cl k d fsize ps U abort offset ts] if_not_P [OF False]
      by (intro hoare_return) (auto simp: view_def)
  next
    case True
    have IH: "hoare (view bk up (\<lambda>fs b u. fs = f \<and> b = old \<and> spelled d (offset + min (fsize - offset) ps) U (ts @ [t]) u))
      (put_parts_from dp cl k d fsize ps U abort (offset + min (fsize - offset) ps) (ts @ [t]))
      (fails_to (view bk up (\<lambda>fs b u. fs = f \<and> b = old))
        (\<lambda>ts. view bk up (\<lambda>fs b u. fs = f \<and> b = old \<and> (0 < ps \<longrightarrow> (\<exists>n \<ge> fsize. spelled d n U ts u)))))" for t
      by (rule less) (use True ps in auto)
    have fail: "hoare (view bk up P) (ret (Inl e)) (fails_to (view bk up (\<lambda>fs b u. fs = f \<and> b = old)) Q)"
      if "\<And>fs b u. P fs b u \<Longrightarrow> fs = f \<and> b = old" for P e and Q :: "string list \<Rightarrow> 'e world \<Rightarrow> bool"
      using that by (auto intro!: hoare_return simp: view_def)
    show ?thesis
      unfolding put_parts_from.simps [of dp cl k d fsize ps U abort offset ts] if_P [OF True] guard_abort_def Let_def
      by (intro hoare_keep [OF view_abort [OF calm]] hoare_keep [OF view_next_fault] hoare_if
        hoare_fails_bind [OF put_part_spelled [OF refl]] fail IH) auto
  qed
qed

lemma send_complete:
  "hoare (view bk up (\<lambda>fs b u. fs = f \<and> either old (old(k \<mapsto> d)) b \<and> (\<forall>bs. parts_match (u U) ts bs \<longrightarrow> concat bs = d)))
    (send dp cl (CompleteMultipart U ts) k x)
    (fails_to (view bk up (\<lambda>fs b u. fs = f \<and> either old (old(k \<mapsto> d)) b \<and> (\<forall>bs. parts_match (u U) ts bs \<longrightarrow> concat bs = d)))
      (\<lambda>rp. view bk up (\<lambda>fs b u. fs = f \<and> either old (old(k \<mapsto> d)) b \<and> (accepted_by (Inr rp) \<longrightarrow> b = old(k \<mapsto> d)))))"
proof (rule hoareI, drule run_send, elim conjE, drule complete_law)
  fix w r v
  assume pre: "view bk up (\<lambda>fs b u. fs = f \<and> either old (old(k \<mapsto> d)) b \<and> (\<forall>bs. parts_match (u U) ts bs \<longrightarrow> concat bs = d)) w"
    and fs: "w_fs v = w_fs w"
    and law: "(\<forall>m. up (w_env v) U m = up (w_env w) U m \<or> up (w_env v) U m = None) \<and>
      (bucket bk v = bucket bk w \<and> \<not> accepted_by r \<or>
        (\<exists>bs. parts_match (up (w_env w) U) ts bs \<and> bucket bk v = (bucket bk w)(k \<mapsto> concat bs)))"
  have sub: "parts_match (up (w_env v) U) ts bs \<Longrightarrow> parts_match (up (w_env w) U) ts bs" for bs
    using law unfolding parts_match_def by (metis option.distinct(1))
  have "either old (old(k \<mapsto> d)) (bucket bk v) \<and> (accepted_by r \<longrightarrow> bucket bk v = old(k \<mapsto> d))"
    using pre law by (auto simp: view_def either_def)
  with pre fs sub show "fails_to (view bk up (\<lambda>fs b u. fs = f \<and> either old (old(k \<mapsto> d)) b \<and> (\<forall>bs. parts_match (u U) ts bs \<longrightarrow> concat bs = d)))
      (\<lambda>rp. view bk up (\<lambda>fs b u. fs = f \<and> either old (old(k \<mapsto> d)) b \<and> (accepted_by (Inr rp) \<longrightarrow> b = old(k \<mapsto> d)))) r v"
    by (auto simp: view_def fails_to_def split: sum.splits)
qed

lemma abort_upload_view: "preserves (view bk up (\<lambda>fs b u. P fs b)) (abort_upload dp cl k U)"
  unfolding abort_upload_def
  by (rule preserves_bind, rule preservesI, drule run_send, elim conjE, drule abort_law)
    (auto simp: view_def)

lemma parts_match_unique: "parts_match p ts bs \<Longrightarrow> parts_match p ts cs \<Longrightarrow> bs = cs"
  by (rule nth_equalityI) (auto simp: parts_match_def)

lemma complete_changed:
  assumes "fsize = length d" "fsize \<le> n"
  shows "hoare (view bk up (\<lambda>fs b u. fs = f \<and> b = old \<and> spelled d n U ts u))
    (complete_upload dp cl k U ts) (changed f old (old(k \<mapsto> d)))"
proof -
  have "hoare (view bk up (\<lambda>fs b u. fs = f \<and> either old (old(k \<mapsto> d)) b \<and> (\<forall>bs. parts_match (u U) ts bs \<longrightarrow> concat bs = d)))
      (complete_upload dp cl k U ts) (changed f old (old(k \<mapsto> d)))"
    unfolding complete_upload_def
  proof (rule hoare_fails_bind [OF view_retrying [OF send_complete]], goal_cases)
    case (2 rp)
    have "preserves (view bk up (\<lambda>fs b u. fs = f \<and> either old (old(k \<mapsto> d)) b)) (abort_upload dp cl k U)"
      by (rule abort_upload_view)
    then have "hoare (view bk up (\<lambda>fs b u. fs = f \<and> either old (old(k \<mapsto> d)) b))
        (do { abort_upload dp cl k U; ret (Inl e) }) (changed f old (old(k \<mapsto> d)))" for e
      by (rule hoare_keep) (auto intro!: hoare_return simp: view_def)
    then have A: "hoare (view bk up (\<lambda>fs b u. fs = f \<and> either old (old(k \<mapsto> d)) b \<and> (accepted_by (Inr rp) \<longrightarrow> b = old(k \<mapsto> d))))
        (do { abort_upload dp cl k U; ret (Inl e) }) (changed f old (old(k \<mapsto> d)))" for e
      by (rule hoare_pre) (auto simp: view_def)
    show ?case
    proof (cases "checked rp")
      case (Inl e)
      show ?thesis unfolding Inl sum.case by (rule A)
    qed (auto intro!: hoare_return simp: view_def checked_def accepted_by_def split: if_splits)
  qed (auto intro!: hoare_return simp: view_def)
  then show ?thesis
    by (rule hoare_pre) (use assms in \<open>auto simp: view_def either_def spelled_def dest: parts_match_unique\<close>)
qed

lemma send_create: "hoare (view bk up (\<lambda>fs b u. P fs b)) (send dp cl CreateMultipart k x)
    (fails_to (view bk up (\<lambda>fs b u. P fs b)) (\<lambda>_. view bk up (\<lambda>fs b u. P fs b)))"
  by (rule hoareI, drule run_send, elim conjE, drule create_law)
    (auto simp: view_def fails_to_def split: sum.splits)

lemma create_upload_view: "preserves (view bk up (\<lambda>fs b u. P fs b)) (create_upload dp cl k)"
  unfolding preserves_def create_upload_def send_checked_def State_Monad.bind_assoc State_Monad.bind_left_identity
  by (rule hoare_bind [OF view_retrying [OF send_create]])
    (rule hoare_return, auto simp: fails_to_def split: sum.splits)

lemma put_parts_view:
  assumes "calm abort" and ps: "0 < ps" and d: "map_option f_data (bt_get f path) = Some d"
  shows "hoare (view bk up (\<lambda>fs b u. fs = f \<and> b = old))
    (put_parts dp cl k path (length d) ps U abort)
    (fails_to (view bk up (\<lambda>fs b u. fs = f \<and> b = old))
      (\<lambda>ts. view bk up (\<lambda>fs b u. fs = f \<and> b = old \<and> (0 < ps \<longrightarrow> (\<exists>n \<ge> length d. spelled d n U ts u)))))"
  unfolding put_parts_def
proof (rule hoare_bind [OF read_view], goal_cases)
  case (1 r)
  show ?case
  proof (cases r)
    case (Inr d')
    show ?thesis
    proof (cases "d' = d")
      case True
      show ?thesis
        unfolding Inr sum.case True
        by (rule hoare_pre [OF put_parts_from_view [OF assms(1) order_refl ps]])
          (auto simp: view_def spelled_def parts_match_def)
    next
      case False
      then show ?thesis
        unfolding Inr sum.case using d by (intro hoareI) (auto simp: view_def)
    qed
  qed (auto intro!: hoare_return simp: view_def)
qed

lemma put_multipart_changed:
  assumes calm: "calm abort" and "map_option f_data (bt_get f path) = Some d" and "0 < ps"
  shows "hoare (view bk up (\<lambda>fs b u. fs = f \<and> b = old))
    (put_multipart dp cl k path (length d) ps abort) (changed f old (old(k \<mapsto> d)))"
proof -
  have fail: "hoare (view bk up (\<lambda>fs b u. fs = f \<and> b = old)) (ret (Inl e)) (changed f old (old(k \<mapsto> d)))" for e
    by (auto intro!: hoare_return simp: view_def either_def)
  have fin: "hoare (view bk up (\<lambda>fs b u. fs = f \<and> b = old \<and> (0 < ps \<longrightarrow> (\<exists>n \<ge> length d. spelled d n U ts u))))
      (complete_upload dp cl k U ts) (changed f old (old(k \<mapsto> d)))" for U ts
  proof (rule hoare_pre [OF hoare_Ex])
    fix n
    show "hoare (\<lambda>w. length d \<le> n \<and> view bk up (\<lambda>fs b u. fs = f \<and> b = old \<and> spelled d n U ts u) w)
        (complete_upload dp cl k U ts) (changed f old (old(k \<mapsto> d)))"
      using complete_changed [OF refl, of d n f old U ts k] by (auto simp: hoare_def)
  qed (use assms(3) in \<open>auto simp: view_def\<close>)
  show ?thesis
    unfolding put_multipart_def
    by (intro hoare_guard_abort_either calm hoare_keep [OF create_upload_view] hoare_sum fail
      hoare_fails_bind [OF put_parts_view [OF assms(1,3,2)]] hoare_keep [OF abort_upload_view] fin)
qed

lemma put_small_changed:
  assumes "map_option f_data (bt_get f path) = Some d"
  shows "hoare (view bk up (\<lambda>fs b u. fs = f \<and> b = old))
    (do { r \<leftarrow> retrying dp (put_request dp cl k path); ret (no_body (answer r)) }) (changed f old (old(k \<mapsto> d)))"
  by (intro hoare_answer hoare_pre [OF view_retrying [OF put_request_view [OF assms]]])
    (auto simp: view_def either_def)

text \<open>An upload leaves the bucket as it was, or with the file's content under its key.\<close>

lemma put_changed:
  assumes calm: "calm abort" and d: "map_option f_data (bt_get f path) = Some d"
  shows "hoare (view bk up (\<lambda>fs b u. fs = f \<and> b = old)) (s3_put dp cl k path abort)
    (changed f old (old(k \<mapsto> d)))"
  unfolding s3_put_def fs_len_def State_Monad.bind_assoc State_Monad.bind_left_identity
proof (intro hoare_guard_abort_either calm, rule hoare_bind [OF read_view], goal_cases)
  case (1 r)
  show ?case
  proof (cases r)
    case (Inr d')
    show ?thesis
    proof (cases "d' = d")
      case True
      show ?thesis
        unfolding Inr sum.case True
        by (intro hoare_if hoare_pre [OF put_small_changed [OF d]]
          hoare_pre [OF put_multipart_changed [OF calm d]]) (auto simp: view_def PART_SIZE_def)
    next
      case False
      then show ?thesis
        unfolding Inr sum.case using d by (intro hoareI) (auto simp: view_def)
    qed
  qed (auto intro!: hoare_return simp: view_def either_def)
qed

lemma put_missing:
  assumes calm: "calm abort" and "bt_get f path = None"
  shows "hoare (view bk up (\<lambda>fs b u. fs = f \<and> b = old)) (s3_put dp cl k path abort)
    (\<lambda>r. view bk up (\<lambda>fs b u. fs = f \<and> b = old \<and> r \<noteq> Inr ()))"
  unfolding s3_put_def fs_len_def State_Monad.bind_assoc State_Monad.bind_left_identity guard_abort_def
proof (intro hoare_keep [OF view_abort [OF calm]] hoare_if, goal_cases)
  case 2
  show ?case
  proof (rule hoare_bind [OF read_view], goal_cases)
    case (1 r)
    show ?case
      by (cases r) (use assms(2) in \<open>auto intro!: hoare_return hoareI simp: view_def\<close>)
  qed
qed (auto intro!: hoare_return simp: view_def)

subsubsection \<open>Reads\<close>

lemma get_bucket:
  assumes "calm abort"
  shows "preserves (\<lambda>w. bucket bk w = b) (s3_get dp cl k path ex abort)"
proof (rule s3_get_env)
  show "preserves (\<lambda>w. bucket bk w = b) (env_op abort)"
    using assms by (auto simp: calm_def intro: env_op_quiet)
  show "preserves (\<lambda>w. bucket bk w = b) (send dp cl (GetObject off) k [])" for off
    by (rule preservesI, drule run_send, elim conjE, drule get_object_law) auto
qed

lemma send_get: "hoare (view bk up (\<lambda>fs b u. fs = f \<and> b = old)) (send dp cl (GetObject None) k x)
    (\<lambda>r. view bk up (\<lambda>fs b u. fs = f \<and> b = old \<and> (\<forall>t. optional_text n r = Inr t \<longrightarrow> old k = t)))"
proof (rule hoareI, drule run_send, elim conjE, drule get_object_law)
  fix w r v
  assume "view bk up (\<lambda>fs b u. fs = f \<and> b = old) w" "w_fs v = w_fs w"
    "bucket bk v = bucket bk w \<and> up (w_env v) = up (w_env w) \<and>
      (r = Inl (StatusCode 404) \<longrightarrow> bucket bk w k = None) \<and>
      (\<forall>rp s c. None = None \<longrightarrow> r = Inr rp \<longrightarrow> accepted_by r \<longrightarrow> read_capped c (rp_body rp) = Inr s \<longrightarrow>
        length s < c \<longrightarrow> bucket bk w k = Some s)"
  then show "view bk up (\<lambda>fs b u. fs = f \<and> b = old \<and> (\<forall>t. optional_text n r = Inr t \<longrightarrow> old k = t)) v"
    by (auto simp: view_def optional_text_def read_text_def checked_def accepted_by_def
      split: sum.splits ureq_error.splits if_splits)
qed

lemma get_text_view:
  assumes "calm abort"
  shows "hoare (view bk up (\<lambda>fs b u. fs = f \<and> b = old)) (get_optional_text dp cl k n abort)
    (\<lambda>r. view bk up (\<lambda>fs b u. fs = f \<and> b = old \<and> (\<forall>t. r = Inr t \<longrightarrow> old k = t)))"
proof -
  have "hoare (view bk up (\<lambda>fs b u. fs = f \<and> b = old)) (retrying dp (send dp cl (GetObject None) k []))
    (\<lambda>r. view bk up (\<lambda>fs b u. fs = f \<and> b = old \<and> (\<forall>t. optional_text n r = Inr t \<longrightarrow> old k = t)))"
    by (rule hoare_retrying_any [OF send_get view_retry]) (simp add: view_def)
  then show ?thesis
    unfolding get_optional_text_def guard_abort_def
    by (intro hoare_keep [OF view_abort [OF assms]] hoare_if)
      (auto elim!: hoare_bind intro!: hoare_return simp: view_def)
qed

definition listed_upto :: "string \<Rightarrow> string option \<Rightarrow> (string \<Rightarrow> string option) \<Rightarrow> listed list \<Rightarrow> bool" where
  "listed_upto pre tok b ls \<longleftrightarrow> li_key ` set ls = {k. prefix pre k \<and> b k \<noteq> None \<and> \<not> after tok k} \<and>
     distinct (map li_key ls)"

lemma send_list: "hoare (view bk up (\<lambda>fs b u. fs = f \<and> b = old)) (send dp cl (ListObjects tok) pre x)
    (fails_to (view bk up (\<lambda>fs b u. fs = f \<and> b = old))
      (\<lambda>rp. view bk up (\<lambda>fs b u. fs = f \<and> b = old \<and> (\<forall>s items next. accepted_by (Inr rp) \<longrightarrow>
        read_text LIST_BODY_CAP rp = Inr s \<longrightarrow> d_parse_list dp s = Some (items, next) \<longrightarrow>
        ri_key ` set items = {k'. prefix pre k' \<and> old k' \<noteq> None \<and> after tok k' \<and>
          (next = None \<or> \<not> after next k')} \<and> distinct (map ri_key items) \<and>
        (\<forall>k'. next \<noteq> None \<longrightarrow> after next k' \<longrightarrow> after tok k')))))"
  by (rule hoareI, drule run_send, elim conjE, drule list_objects_law)
    (auto simp: view_def fails_to_def split: sum.splits)

end

lemma page_items_keys: "page_items cs = Inr ls \<Longrightarrow> map li_key ls = map ri_key cs"
  by (induction cs arbitrary: ls) (auto split: option.splits sum.splits)

lemma last_page:
  assumes "li_key ` set names = {k. prefix pre k \<and> b k \<noteq> None \<and> \<not> after tok k}"
    and "li_key ` set ls = {k. prefix pre k \<and> b k \<noteq> None \<and> after tok k}"
    and "distinct (map li_key names)" "distinct (map li_key ls)"
  shows "li_key ` set (sort_key li_key (names @ ls)) = {k. prefix pre k \<and> b k \<noteq> None} \<and>
    sorted (map li_key (sort_key li_key (names @ ls))) \<and> distinct (map li_key (sort_key li_key (names @ ls)))"
proof -
  have "distinct (map li_key (names @ ls))"
    unfolding map_append distinct_append set_map assms(1,2) using assms(3,4) by auto
  then have "distinct (map li_key (sort_key li_key (names @ ls)))"
    by (simp only: distinct_map distinct_sort set_sort)
  moreover have "li_key ` set (sort_key li_key (names @ ls)) = {k. prefix pre k \<and> b k \<noteq> None}"
    unfolding set_sort set_append image_Un assms(1,2) by auto
  ultimately show ?thesis by simp
qed

context s3_service
begin

lemma list_page_view: "hoare (view bk up (\<lambda>fs b u. fs = f \<and> b = old)) (list_page dp cl pre tok)
    (fails_to (view bk up (\<lambda>fs b u. fs = f \<and> b = old))
      (\<lambda>(ls, next). view bk up (\<lambda>fs b u. fs = f \<and> b = old \<and>
        li_key ` set ls = {k'. prefix pre k' \<and> old k' \<noteq> None \<and> after tok k' \<and>
          (next = None \<or> \<not> after next k')} \<and> distinct (map li_key ls) \<and>
        (\<forall>k'. next \<noteq> None \<longrightarrow> after next k' \<longrightarrow> after tok k'))))"
proof -
  have *: "li_key ` set ls = ri_key ` set items \<and> map li_key ls = map ri_key items"
    if "page_items items = Inr ls" for items ls
    using page_items_keys [OF that] by (metis list.set_map)
  show ?thesis
    unfolding list_page_def send_checked_def State_Monad.bind_assoc State_Monad.bind_left_identity
    by (rule hoare_bind [OF view_retrying [OF send_list]], rule hoare_return)
      (auto simp: view_def fails_to_def answer_def checked_def accepted_by_def * split: sum.splits option.splits if_splits prod.splits)
qed

lemma list_from_view:
  assumes calm: "calm abort"
  shows "hoare (view bk up (\<lambda>fs b u. fs = f \<and> b = old \<and> listed_upto pre tok old names))
    (list_from dp cl pre abort n tok names)
    (fails_to (view bk up (\<lambda>fs b u. fs = f \<and> b = old))
      (\<lambda>ls. view bk up (\<lambda>fs b u. fs = f \<and> b = old \<and>
        li_key ` set ls = {k. prefix pre k \<and> old k \<noteq> None} \<and> sorted (map li_key ls) \<and> distinct (map li_key ls) \<and> length ls \<le> MAX_LIST_KEYS)))"
proof (induction n arbitrary: tok names)
  case 0
  show ?case
    unfolding list_from.simps guard_abort_def
    by (intro hoare_keep [OF view_abort [OF calm]] hoare_if hoare_return) (auto simp: view_def)
next
  case (Suc n)
  show ?case
  proof (cases "listed_upto pre tok old names")
    case True
    have pg: "hoare (view bk up (\<lambda>fs b u. fs = f \<and> b = old \<and>
        li_key ` set (fst r) = {k'. prefix pre k' \<and> old k' \<noteq> None \<and> after tok k' \<and>
          (snd r = None \<or> \<not> after (snd r) k')} \<and> distinct (map li_key (fst r)) \<and> (\<forall>k'. snd r \<noteq> None \<longrightarrow> after (snd r) k' \<longrightarrow> after tok k')))
      (case r of (ls, next) \<Rightarrow>
         if MAX_LIST_KEYS < length (names @ ls) then ret (Inl TooManyKeys)
         else case next of None \<Rightarrow> ret (Inr (sort_key li_key (names @ ls)))
         | Some t \<Rightarrow> if tok = Some t then ret (Inl RepeatedToken)
             else list_from dp cl pre abort n (Some t) (names @ ls))
      (fails_to (view bk up (\<lambda>fs b u. fs = f \<and> b = old))
        (\<lambda>ls. view bk up (\<lambda>fs b u. fs = f \<and> b = old \<and>
          li_key ` set ls = {k. prefix pre k \<and> old k \<noteq> None} \<and> sorted (map li_key ls) \<and> distinct (map li_key ls) \<and> length ls \<le> MAX_LIST_KEYS)))" for r
    proof (cases r)
      case (Pair ls nxt)
      show ?thesis
      proof (cases nxt)
        case None
        show ?thesis
          unfolding Pair None prod.case option.case fst_conv snd_conv
        proof (intro hoare_if hoare_return, goal_cases)
          case (2 s)
          then show ?case
            using True last_page [of names pre old after tok ls]
            by (simp add: view_def listed_upto_def del: not_None_eq)
        qed (simp add: view_def)
      next
        case (Some t)
        show ?thesis
          unfolding Pair Some prod.case option.case fst_conv snd_conv
        proof (intro hoare_if)
          show "hoare (view bk up (\<lambda>fs b u. fs = f \<and> b = old \<and>
              li_key ` set ls = {k'. prefix pre k' \<and> old k' \<noteq> None \<and> after tok k' \<and>
                (Some t = None \<or> \<not> after (Some t) k')} \<and> distinct (map li_key ls) \<and>
              (\<forall>k'. Some t \<noteq> None \<longrightarrow> after (Some t) k' \<longrightarrow> after tok k')))
            (list_from dp cl pre abort n (Some t) (names @ ls))
            (fails_to (view bk up (\<lambda>fs b u. fs = f \<and> b = old))
              (\<lambda>ls. view bk up (\<lambda>fs b u. fs = f \<and> b = old \<and>
                li_key ` set ls = {k. prefix pre k \<and> old k \<noteq> None} \<and> sorted (map li_key ls) \<and> distinct (map li_key ls) \<and> length ls \<le> MAX_LIST_KEYS)))"
            by (rule hoare_pre [OF Suc])
              (use True in \<open>auto simp: view_def listed_upto_def image_Un\<close>)
        qed (auto intro!: hoare_return simp: view_def)
      qed
    qed
    have "hoare (view bk up (\<lambda>fs b u. fs = f \<and> b = old)) (list_from dp cl pre abort (Suc n) tok names)
      (fails_to (view bk up (\<lambda>fs b u. fs = f \<and> b = old))
        (\<lambda>ls. view bk up (\<lambda>fs b u. fs = f \<and> b = old \<and>
          li_key ` set ls = {k. prefix pre k \<and> old k \<noteq> None} \<and> sorted (map li_key ls) \<and> distinct (map li_key ls) \<and> length ls \<le> MAX_LIST_KEYS)))"
      unfolding list_from.simps guard_abort_def
      by (intro hoare_keep [OF view_abort [OF calm]] hoare_if hoare_fails_bind [OF list_page_view]
        hoare_pre [OF pg]) (auto intro!: hoare_return simp: view_def split: prod.splits)
    then show ?thesis
      by (rule hoare_pre) (simp add: view_def)
  qed (auto simp: hoare_def view_def)
qed

lemma list_view:
  assumes "calm abort"
  shows "hoare (view bk up (\<lambda>fs b u. fs = f \<and> b = old)) (s3_list dp cl pre abort)
    (fails_to (view bk up (\<lambda>fs b u. fs = f \<and> b = old))
      (\<lambda>ls. view bk up (\<lambda>fs b u. fs = f \<and> b = old \<and>
        li_key ` set ls = {k. prefix pre k \<and> old k \<noteq> None} \<and> sorted (map li_key ls) \<and> distinct (map li_key ls) \<and> length ls \<le> MAX_LIST_KEYS)))"
  unfolding s3_list_def
  by (rule hoare_pre [OF list_from_view [OF assms]]) (auto simp: view_def listed_upto_def after_start)

lemma run_view: "hoare (view bk up (\<lambda>fs b u. fs = w_fs w \<and> b = bucket bk w)) m Q \<Longrightarrow>
    run_state m w = (r, v) \<Longrightarrow> Q r v"
  by (erule hoareD) (simp_all add: view_def)

lemma s3_put_law: "calm abort \<Longrightarrow> run_state (s3_put dp cl k path abort) w = (r, v) \<Longrightarrow>
    w_fs v = w_fs w \<and> (bucket bk v = bucket bk w \<and> r \<noteq> Inr () \<or>
      (\<exists>d. data_at w path = Some d \<and> bucket bk v = (bucket bk w)(k \<mapsto> d)))"
proof (cases "file_at w path")
  case None
  assume "calm abort" "run_state (s3_put dp cl k path abort) w = (r, v)"
  from run_view [OF put_missing [OF this(1) None] this(2)] show ?thesis
    by (simp add: view_def)
next
  case (Some x)
  assume a: "calm abort" "run_state (s3_put dp cl k path abort) w = (r, v)"
  have "map_option f_data (file_at w path) = Some (f_data x)" by (simp add: Some)
  from run_view [OF put_changed [OF a(1) this] a(2)] Some show ?thesis
    by (auto simp: view_def either_def data_at_def)
qed

end

sublocale s3_service \<subseteq> store: object_store "client_store dp cl" bk calm
proof (unfold_locales, unfold client_store_simps)
  fix abort :: "'e abort"
  assume c: "calm abort"
  then show "quiet bk abort" by (simp add: calm_def)
  fix w v :: "'e world"
  fix key path bytes r
  show "run_state (s3_put dp cl key path abort) w = (r, v) \<Longrightarrow> w_fs v = w_fs w \<and>
      (bucket bk v = bucket bk w \<and> r \<noteq> Inr () \<or> (\<exists>d. data_at w path = Some d \<and> bucket bk v = (bucket bk w)(key \<mapsto> d)))"
    by (rule s3_put_law [OF c])
  show "run_state (s3_put_bytes dp cl key bytes abort) w = (r, v) \<Longrightarrow> w_fs v = w_fs w \<and>
      (bucket bk v = bucket bk w \<and> r \<noteq> Inr () \<or> bucket bk v = (bucket bk w)(key \<mapsto> bytes))"
    by (drule run_view [OF put_bytes_changed [OF c]]) (auto simp: view_def either_def)
  show "run_state (s3_delete dp cl key abort) w = (r, v) \<Longrightarrow> w_fs v = w_fs w \<and>
      (bucket bk v = bucket bk w \<and> r \<noteq> Inr () \<or> bucket bk v = (bucket bk w)(key := None))"
    by (drule run_view [OF delete_changed [OF c]]) (auto simp: view_def either_def)
  show "run_state (s3_get dp cl key path ex abort) w = (r, v) \<Longrightarrow> bucket bk v = bucket bk w \<and>
      (\<forall>q. q \<noteq> path \<longrightarrow> q \<noteq> part_of path \<longrightarrow> file_at v q = file_at w q) \<and> (r \<noteq> Inr () \<longrightarrow> file_at v path = file_at w path)" for ex
  proof (intro conjI allI impI)
    assume run: "run_state (s3_get dp cl key path ex abort) w = (r, v)"
    show "bucket bk v = bucket bk w"
      by (rule preservesD [OF get_bucket [OF c] _ run]) simp
    show "file_at v q = file_at w q" if "q \<noteq> path" "q \<noteq> part_of path" for q
      by (rule preservesD [OF s3_get_other [OF that, of "\<lambda>x. x = file_at w q"] _ run]) simp
    show "file_at v path = file_at w path" if "r \<noteq> Inr ()"
      using hoareD [OF s3_get_err [where path = path and P = "\<lambda>x. x = file_at w path"] _ run] that
      by (auto simp: on_err_def split: sum.splits)
  qed
  show "run_state (get_optional_text dp cl key cap abort) w = (rt, v) \<Longrightarrow> w_fs v = w_fs w \<and>
      bucket bk v = bucket bk w \<and> (\<forall>t. rt = Inr t \<longrightarrow> bucket bk w key = t)" for cap rt
    by (drule run_view [OF get_text_view [OF c]]) (auto simp: view_def)
  show "run_state (s3_list dp cl pre abort) w = (rl, v) \<Longrightarrow> w_fs v = w_fs w \<and> bucket bk v = bucket bk w \<and>
      (\<forall>ls. rl = Inr ls \<longrightarrow> li_key ` set ls = {k. prefix pre k \<and> bucket bk w k \<noteq> None} \<and> sorted (map li_key ls) \<and>
        distinct (map li_key ls) \<and> length ls \<le> MAX_LIST_KEYS)" for pre rl
    by (drule run_view [OF list_view [OF c]]) (auto simp: view_def fails_to_def split: sum.splits)
qed

context s3_service
begin

lemma client_is_store: "object_store (client_store dp cl) bk calm"
  by (rule store.object_store_axioms)

end

end
