(* ===== verification/FakeServer.thy ===== *)
theory FakeServer
  imports S3Service
begin

text \<open>
  An in-memory S3 server, as the client's and the sync's tests run one: a bucket, the parts of the
  open uploads, and a stop flag. It satisfies the laws of \<open>s3_service\<close>, so the client of
  \<open>s3/client.rs\<close> over it is an \<open>object_store\<close>; the concrete runs of the other theories use it.
  A fault schedule of its own (\<open>fk_http\<close>) makes a request fail before or after it took effect.
\<close>

datatype http_fault = Served | Refused | Lost

record fake =
  fk_bucket :: "(string, string) btree"
  fk_parts :: "((string \<times> nat) \<times> (string \<times> string)) list"
  fk_http :: "http_fault list"
  fk_stop :: bool
  fk_clock :: nat

text \<open>The listing body: each character marked \<open>x\<close>, one \<open>z\<close> per byte of the size, \<open>y\<close> after an entry.\<close>

definition enc_item :: "string \<times> string \<Rightarrow> string" where
  "enc_item e = concat (map (\<lambda>c. [CHR ''x'', c]) (fst e)) @ replicate (length (snd e)) (CHR ''z'') @ ''y''"

fun dec_items :: "string \<Rightarrow> nat \<Rightarrow> string \<Rightarrow> raw_item list option" where
  "dec_items k n [] = (if k = [] \<and> n = 0 then Some [] else None)"
| "dec_items k n (a # cs) =
     (if a = CHR ''y'' then map_option ((#) \<lparr>ri_key = k, ri_size = Some n, ri_modified = Some ''m''\<rparr>)
        (dec_items [] 0 cs)
      else if a = CHR ''z'' then dec_items k (Suc n) cs
      else case cs of [] \<Rightarrow> None
        | b # ds \<Rightarrow> if a = CHR ''x'' then dec_items (k @ [b]) n ds else None)"

definition ok_response :: "string \<Rightarrow> ureq_error + response" where
  "ok_response body = Inr \<lparr>rp_status = 200, rp_etag = Some ''t'', rp_length = None, rp_body = [Inr body]\<rparr>"

definition found_parts :: "fake \<Rightarrow> string \<Rightarrow> string list \<Rightarrow> (string \<times> string) option list" where
  "found_parts e u ts = map (\<lambda>i. map_of (fk_parts e) (u, i + 1)) [0..<length ts]"

definition tags_match :: "(string \<times> string) option list \<Rightarrow> string list \<Rightarrow> bool" where
  "tags_match ps ts \<longleftrightarrow> list_all2 (\<lambda>p t. map_option fst p = Some t) ps ts"

definition listing :: "string \<Rightarrow> (string, string) btree \<Rightarrow> (string \<times> string) list" where
  "listing pre b = map (\<lambda>k. (k, the (bt_get b k))) (filter (prefix pre) (remdups (map fst b)))"

definition fake_apply :: "request \<Rightarrow> fake \<Rightarrow> (ureq_error + response) \<times> fake" where
  "fake_apply rq e = (let k = rq_key rq; b = fk_bucket e in case rq_action rq of
     PutObject \<Rightarrow> (ok_response [], e\<lparr>fk_bucket := bt_insert k (rq_body rq) b\<rparr>)
   | GetObject off \<Rightarrow> (case bt_get b k of None \<Rightarrow> (Inl (StatusCode 404), e) | Some d \<Rightarrow> (ok_response d, e))
   | DeleteObject \<Rightarrow> (ok_response [], e\<lparr>fk_bucket := bt_remove k b\<rparr>)
   | CreateMultipart \<Rightarrow> (ok_response ''u'', e)
   | UploadPart n u \<Rightarrow> (ok_response [], e\<lparr>fk_parts := ((u, n), (''t'', rq_body rq)) # fk_parts e\<rparr>)
   | CompleteMultipart u ts \<Rightarrow>
       (let ps = found_parts e u ts in
        if tags_match ps ts
        then (ok_response [], e\<lparr>fk_bucket := bt_insert k (concat (map (\<lambda>p. snd (the p)) ps)) b\<rparr>)
        else (Inl (StatusCode 400), e))
   | AbortMultipart u \<Rightarrow> (ok_response [], e)
   | ListObjects tok \<Rightarrow>
       (let body = concat (map enc_item (listing k b)) in
        if tok = None \<and> length body < LIST_BODY_CAP then (ok_response body, e)
        else (Inl (StatusCode 500), e)))"

definition fake_http :: "request \<Rightarrow> fake \<Rightarrow> (ureq_error + response) \<times> fake" where
  "fake_http rq e = (case fk_http e of
     [] \<Rightarrow> fake_apply rq e
   | Served # fs \<Rightarrow> fake_apply rq (e\<lparr>fk_http := fs\<rparr>)
   | Refused # fs \<Rightarrow> (Inl Transport, e\<lparr>fk_http := fs\<rparr>)
   | Lost # fs \<Rightarrow> (Inl Transport, snd (fake_apply rq (e\<lparr>fk_http := fs\<rparr>))))"

definition fake_deps :: "(string \<Rightarrow> string) \<Rightarrow> fake deps" where
  "fake_deps digest = \<lparr>d_http = fake_http, d_sleep = (\<lambda>n e. ((), e\<lparr>fk_clock := fk_clock e + n\<rparr>)),
     d_millis = (\<lambda>e. (fk_clock e, e)), d_parse_create = Some,
     d_parse_list = (\<lambda>s. map_option (\<lambda>is. (is, None)) (dec_items [] 0 s)),
     d_parse_url = (\<lambda>s. Some (None, s)), d_bucket_ok = (\<lambda>_. True), d_sha256 = digest\<rparr>"

definition fake_abort :: "fake abort" where
  "fake_abort e = (fk_stop e, e)"

definition fake_bk :: "fake \<Rightarrow> string \<Rightarrow> string option" where
  "fake_bk e k = bt_get (fk_bucket e) k"

definition fake_up :: "fake \<Rightarrow> string \<Rightarrow> nat \<Rightarrow> (string \<times> string) option" where
  "fake_up e u n = map_of (fk_parts e) (u, n)"

definition fake_after :: "string option \<Rightarrow> string \<Rightarrow> bool" where
  "fake_after tok k \<longleftrightarrow> tok = None"

lemma dec_key: "dec_items k n (concat (map (\<lambda>c. [CHR ''x'', c]) s) @ t) = dec_items (k @ s) n t"
  by (induction s arbitrary: k) auto

lemma dec_size: "dec_items k n (replicate m (CHR ''z'') @ t) = dec_items k (n + m) t"
  by (induction m arbitrary: n) simp_all

lemma dec_enc: "dec_items [] 0 (concat (map enc_item es)) =
    Some (map (\<lambda>e. \<lparr>ri_key = fst e, ri_size = Some (length (snd e)), ri_modified = Some ''m''\<rparr>) es)"
  by (induction es) (simp_all add: enc_item_def dec_key dec_size)

text \<open>The server keeps the laws, whatever its fault schedule.\<close>

lemma fake_http_cases:
  assumes "fake_http rq e = (r, e')"
  obtains (applied) q where "fake_apply rq (e\<lparr>fk_http := q\<rparr>) = (r, e')"
    | (lost) q x where "fake_apply rq (e\<lparr>fk_http := q\<rparr>) = (x, e')" "r = Inl Transport"
    | (refused) q where "r = Inl Transport" "e' = e\<lparr>fk_http := q\<rparr>"
proof (cases "fk_http e")
  case Nil
  then have "e\<lparr>fk_http := []\<rparr> = e" by (cases e) simp
  with Nil assms applied [of "[]"] show ?thesis by (simp add: fake_http_def)
next
  case (Cons f fs)
  with assms show ?thesis
    using applied [of fs] refused [of fs] lost [of fs "fst (fake_apply rq (e\<lparr>fk_http := fs\<rparr>))"]
    by (cases f) (auto simp: fake_http_def)
qed

lemma fake_bk_simps [simp]:
  "fake_bk (e\<lparr>fk_http := q\<rparr>) = fake_bk e" "fake_bk (e\<lparr>fk_clock := c\<rparr>) = fake_bk e"
  "fake_bk (e\<lparr>fk_parts := ps\<rparr>) = fake_bk e"
  "fake_bk (e\<lparr>fk_bucket := bt_insert k d (fk_bucket e)\<rparr>) = (fake_bk e)(k \<mapsto> d)"
  "fake_bk (e\<lparr>fk_bucket := bt_remove k (fk_bucket e)\<rparr>) = (fake_bk e)(k := None)"
  by (auto simp: fake_bk_def fun_eq_iff)

lemma fake_up_simps [simp]:
  "fake_up (e\<lparr>fk_http := q\<rparr>) = fake_up e" "fake_up (e\<lparr>fk_clock := c\<rparr>) = fake_up e"
  "fake_up (e\<lparr>fk_bucket := b\<rparr>) = fake_up e"
  "fake_up (e\<lparr>fk_parts := ((u, n), x) # fk_parts e\<rparr>) v m = (if v = u \<and> m = n then Some x else fake_up e v m)"
  by (auto simp: fake_up_def fun_eq_iff)

lemma accepted_Transport [simp]: "\<not> accepted_by (Inl e)"
  by (simp add: accepted_by_def)

lemma apply_put: "fake_apply \<lparr>rq_client = cl, rq_action = PutObject, rq_key = k, rq_body = d\<rparr> e = (r, e') \<Longrightarrow>
    fake_up e' = fake_up e \<and> fake_bk e' = (fake_bk e)(k \<mapsto> d)"
  by (auto simp: fake_apply_def)

lemma apply_delete: "fake_apply \<lparr>rq_client = cl, rq_action = DeleteObject, rq_key = k, rq_body = d\<rparr> e = (r, e') \<Longrightarrow>
    fake_up e' = fake_up e \<and> fake_bk e' = (fake_bk e)(k := None)"
  by (auto simp: fake_apply_def)

lemma read_capped_short: "read_capped c [Inr b] = Inr s \<Longrightarrow> length s < c \<Longrightarrow> s = b"
  by (auto split: if_splits)

lemma read_capped_below: "length b < c \<Longrightarrow> read_capped c [Inr b] = Inr b"
  by simp

lemma apply_get: "fake_apply \<lparr>rq_client = cl, rq_action = GetObject off, rq_key = k, rq_body = d\<rparr> e = (r, e') \<Longrightarrow>
    e' = e \<and> r = (case fake_bk e k of None \<Rightarrow> Inl (StatusCode 404) | Some d \<Rightarrow> ok_response d)"
  by (auto simp: fake_apply_def fake_bk_def split: option.splits)

lemma apply_multipart:
  "fake_apply \<lparr>rq_client = cl, rq_action = CreateMultipart, rq_key = k, rq_body = d\<rparr> e = (r, e') \<Longrightarrow> e' = e"
  "fake_apply \<lparr>rq_client = cl, rq_action = AbortMultipart u, rq_key = k, rq_body = d\<rparr> e = (r, e') \<Longrightarrow> e' = e"
  "fake_apply \<lparr>rq_client = cl, rq_action = UploadPart n u, rq_key = k, rq_body = d\<rparr> e = (r, e') \<Longrightarrow>
    fake_bk e' = fake_bk e \<and> r = ok_response [] \<and>
    fake_up e' = (fake_up e)(u := (fake_up e u)(n \<mapsto> (''t'', d)))"
  by (auto simp: fake_apply_def fun_eq_iff)

lemma apply_complete:
  assumes "fake_apply \<lparr>rq_client = cl, rq_action = CompleteMultipart u ts, rq_key = k, rq_body = d\<rparr> e = (r, e')"
  shows "fake_up e' = fake_up e \<and> (fake_bk e' = fake_bk e \<and> \<not> accepted_by r \<or>
    (\<exists>bs. parts_match (fake_up e u) ts bs \<and> fake_bk e' = (fake_bk e)(k \<mapsto> concat bs)))"
proof (cases "tags_match (found_parts e u ts) ts")
  case True
  then have "parts_match (fake_up e u) ts (map (\<lambda>p. snd (the p)) (found_parts e u ts))"
    by (fastforce simp: parts_match_def tags_match_def found_parts_def fake_up_def list_all2_conv_all_nth)
  then show ?thesis
    using assms True by (auto simp: fake_apply_def Let_def)
next
  case False
  then show ?thesis
    using assms by (auto simp: fake_apply_def Let_def)
qed

lemma apply_list:
  assumes "fake_apply \<lparr>rq_client = cl, rq_action = ListObjects tok, rq_key = pre, rq_body = d\<rparr> e = (r, e')"
    and r: "r = Inr rp" "read_text LIST_BODY_CAP rp = Inr s"
  shows "tok = None \<and> s = concat (map enc_item (listing pre (fk_bucket e)))"
  using assms
  by (auto simp: fake_apply_def Let_def ok_response_def read_text_def simp del: read_capped.simps
    simp: read_capped_below split: if_splits sum.splits)

lemma fake_map_of: "fake_bk e k \<noteq> None \<longleftrightarrow> k \<in> fst ` set (fk_bucket e)"
  by (simp add: fake_bk_def map_of_eq_None_iff)

lemma fake_put_law: "fake_http \<lparr>rq_client = cl, rq_action = PutObject, rq_key = k, rq_body = d\<rparr> e = (r, e') \<Longrightarrow>
    fake_up e' = fake_up e \<and> (fake_bk e' = (fake_bk e)(k \<mapsto> d) \<or> fake_bk e' = fake_bk e \<and> \<not> accepted_by r)"
  by (elim fake_http_cases; (drule apply_put)?) auto

lemma fake_delete_law: "fake_http \<lparr>rq_client = cl, rq_action = DeleteObject, rq_key = k, rq_body = d\<rparr> e = (r, e') \<Longrightarrow>
    fake_up e' = fake_up e \<and> (fake_bk e' = (fake_bk e)(k := None) \<or> fake_bk e' = fake_bk e \<and> \<not> accepted_by r)"
  by (elim fake_http_cases; (drule apply_delete)?) auto

lemma fake_get_law:
  assumes "fake_http \<lparr>rq_client = cl, rq_action = GetObject off, rq_key = k, rq_body = d\<rparr> e = (r, e')"
  shows "fake_bk e' = fake_bk e \<and> fake_up e' = fake_up e \<and> (r = Inl Transport \<or>
      r = (case fake_bk e k of None \<Rightarrow> Inl (StatusCode 404) | Some d \<Rightarrow> ok_response d))"
  using assms
proof (cases rule: fake_http_cases)
  case (applied q)
  from apply_get [OF this] show ?thesis by simp
next
  case (lost q x)
  from apply_get [OF lost(1)] lost(2) show ?thesis by simp
qed auto

lemma fake_create_law: "fake_http \<lparr>rq_client = cl, rq_action = CreateMultipart, rq_key = k, rq_body = d\<rparr> e = (r, e') \<Longrightarrow>
    fake_bk e' = fake_bk e"
  by (elim fake_http_cases; (drule apply_multipart(1))?) auto

lemma fake_abort_law: "fake_http \<lparr>rq_client = cl, rq_action = AbortMultipart u, rq_key = k, rq_body = d\<rparr> e = (r, e') \<Longrightarrow>
    fake_bk e' = fake_bk e"
  by (elim fake_http_cases; (drule apply_multipart(2))?) auto

lemma fake_part_law: "fake_http \<lparr>rq_client = cl, rq_action = UploadPart n u, rq_key = k, rq_body = d\<rparr> e = (r, e') \<Longrightarrow>
    fake_bk e' = fake_bk e \<and> (r = Inl Transport \<or> r = ok_response []) \<and>
      (fake_up e' = fake_up e \<and> r = Inl Transport \<or> fake_up e' = (fake_up e)(u := (fake_up e u)(n \<mapsto> (''t'', d))))"
  by (elim fake_http_cases; (drule apply_multipart(3))?) auto

lemma fake_complete_law: "fake_http \<lparr>rq_client = cl, rq_action = CompleteMultipart u ts, rq_key = k, rq_body = d\<rparr> e = (r, e') \<Longrightarrow>
    fake_up e' = fake_up e \<and> (fake_bk e' = fake_bk e \<and> \<not> accepted_by r \<or>
      (\<exists>bs. parts_match (fake_up e u) ts bs \<and> fake_bk e' = (fake_bk e)(k \<mapsto> concat bs)))"
  by (elim fake_http_cases; (drule apply_complete)?) auto

lemma apply_list_state: "fake_apply \<lparr>rq_client = cl, rq_action = ListObjects tok, rq_key = pre, rq_body = d\<rparr> e = (r, e') \<Longrightarrow> e' = e"
  by (auto simp: fake_apply_def Let_def split: if_splits)

lemma fake_list_law:
  assumes "fake_http \<lparr>rq_client = cl, rq_action = ListObjects tok, rq_key = pre, rq_body = d\<rparr> e = (r, e')"
  shows "fake_bk e' = fake_bk e \<and> fake_up e' = fake_up e \<and> (\<forall>rp s. r = Inr rp \<longrightarrow>
      read_text LIST_BODY_CAP rp = Inr s \<longrightarrow>
      tok = None \<and> s = concat (map enc_item (listing pre (fk_bucket e))))"
  using assms
proof (cases rule: fake_http_cases)
  case (applied q)
  from apply_list_state [OF this] apply_list [OF this] show ?thesis by auto
next
  case (lost q x)
  from apply_list_state [OF lost(1)] lost(2) show ?thesis by auto
qed auto

lemma fake_items: "dec_items [] 0 (concat (map enc_item (listing pre (fk_bucket e)))) = Some items \<Longrightarrow>
    ri_key ` set items = {k. prefix pre k \<and> fake_bk e k \<noteq> None} \<and> distinct (map ri_key items)"
proof -
  assume "dec_items [] 0 (concat (map enc_item (listing pre (fk_bucket e)))) = Some items"
  then have "map ri_key items = filter (prefix pre) (remdups (map fst (fk_bucket e)))"
    unfolding dec_enc by (auto simp: listing_def o_def)
  then show ?thesis
    unfolding fake_map_of set_map [symmetric] by (simp only: set_filter set_remdups) auto
qed

interpretation fake: s3_service "fake_deps digest" cl fake_bk fake_up fake_after for digest cl
proof (unfold_locales, goal_cases)
  case (1 e n)
  show ?case by (simp add: fake_deps_def)
next
  case (2 k d e r e')
  then show ?case by (simp add: fake_deps_def fake_put_law)
next
  case (3 k d e r e')
  then show ?case by (simp add: fake_deps_def fake_delete_law)
next
  case (4 off k d e r e')
  then have "fake_http \<lparr>rq_client = cl, rq_action = GetObject off, rq_key = k, rq_body = d\<rparr> e = (r, e')"
    by (simp add: fake_deps_def)
  from fake_get_law [OF this] show ?case
    by (auto simp: ok_response_def dest: read_capped_short simp del: read_capped.simps split: option.splits)
next
  case (5 k d e r e')
  then show ?case by (simp add: fake_deps_def fake_create_law)
next
  case (6 n u k d e r e')
  then have "fake_http \<lparr>rq_client = cl, rq_action = UploadPart n u, rq_key = k, rq_body = d\<rparr> e = (r, e')"
    by (simp add: fake_deps_def)
  from fake_part_law [OF this] show ?case
    by (auto simp: ok_response_def etag_of_def)
next
  case (7 u ts k d e r e')
  then have "fake_http \<lparr>rq_client = cl, rq_action = CompleteMultipart u ts, rq_key = k, rq_body = d\<rparr> e = (r, e')"
    by (simp add: fake_deps_def)
  from fake_complete_law [OF this] show ?case by auto
next
  case (8 u k d e r e')
  then show ?case by (simp add: fake_deps_def fake_abort_law)
next
  case (9 tok pre d e r e')
  then have "fake_http \<lparr>rq_client = cl, rq_action = ListObjects tok, rq_key = pre, rq_body = d\<rparr> e = (r, e')"
    by (simp add: fake_deps_def)
  from fake_list_law [OF this] show ?case
    by (clarsimp simp: fake_deps_def fake_after_def simp del: not_None_eq) (erule fake_items)
next
  case (10 k)
  show ?case by (simp add: fake_after_def)
qed

lemma fake_calm [simp]: "fake.calm fake_abort"
  by (simp add: fake.calm_def quiet_def fake_abort_def)

end
