(* ===== verification/BackupTick.thy ===== *)
theory BackupTick
  imports BackupSafety FakeServer
begin

text \<open>
  A whole backup cycle as \<open>dump.rs\<close> runs it (\<open>tick\<close>): the guards that precede the bucket, then
  the cycle over the S3 client, which is an \<open>object_store\<close> wherever the server is an
  \<open>s3_service\<close>. The last part is a small concrete world to run cycles in.
\<close>

subsection \<open>Refusals\<close>

text \<open>The record beside the database knows the bucket's newest generation or a later one.\<close>

definition owns :: "backup_config \<Rightarrow> generations \<Rightarrow> 'e world \<Rightarrow> bool" where
  "owns cfg es w \<longleftrightarrow> (\<exists>text g. data_at w (sidecar_path (bc_db_path cfg)) = Some text \<and>
     resolve_known (parse_sidecar text) es = Some g \<and> g \<ge> latest es)"

lemma run_lineage_read:
  assumes "run_state (lineage_read p) w = (k, v)"
  shows "k = None \<or> (\<exists>text. data_at w (sidecar_path p) = Some text \<and> k = parse_sidecar text)"
  using assms
  by (auto simp: lineage_read_def fs_read_to_string_def fs_read_def data_at_def dest!: run_next_fault
      split: prod.splits sum.splits if_splits option.splits)

lemma lineage_read_refuses:
  "latest es \<noteq> 0 \<Longrightarrow> hoare (\<lambda>w. \<not> owns cfg es w) (lineage_read (bc_db_path cfg))
     (\<lambda>k _. verdict (resolve_known k es) (latest es) = Refuse)"
proof (rule hoareI)
  fix w k v
  assume l: "latest es \<noteq> 0" and o: "\<not> owns cfg es w" and r: "run_state (lineage_read (bc_db_path cfg)) w = (k, v)"
  from run_lineage_read [OF r] o have "resolve_known k es = None \<or> (\<exists>g. resolve_known k es = Some g \<and> \<not> g \<ge> latest es)"
    by (auto simp: owns_def resolve_known_def)
  with l show "verdict (resolve_known k es) (latest es) = Refuse"
    by (auto simp: verdict_def)
qed

definition bucket_newer :: "backup_config \<Rightarrow> generations \<Rightarrow> (string \<Rightarrow> string option) \<Rightarrow> bool" where
  "bucket_newer cfg es b \<longleftrightarrow> (\<exists>text. b (backup_manifest_key cfg) = Some text \<and> generations_parse text = Inr es)"

context object_store
begin

lemma bucket_history_newer:
  assumes "calm abort"
  shows "hoare (\<lambda>w. bucket_newer cfg es (bucket bk w) \<and> \<not> owns cfg es w) (bucket_history st cfg abort)
     (\<lambda>h w. (h = None \<or> h = Some es) \<and> \<not> owns cfg es w)"
proof -
  have "hoare (\<lambda>w. bucket_newer cfg es (bucket bk w) \<and> \<not> owns cfg es w) (load_generations st cfg abort)
      (\<lambda>m w. (m = Inr (Some es) \<or> (\<exists>e. m = Inl e)) \<and> \<not> owns cfg es w)"
  proof (rule hoareI)
    fix w m v
    assume p: "bucket_newer cfg es (bucket bk w) \<and> \<not> owns cfg es w"
      and r: "run_state (load_generations st cfg abort) w = (m, v)"
    obtain rt u where g: "run_state (st_get_text st (backup_manifest_key cfg) MAX_BACKUP_MANIFEST_BYTES abort) w = (rt, u)"
      by (cases "run_state (st_get_text st (backup_manifest_key cfg) MAX_BACKUP_MANIFEST_BYTES abort) w")
    note law = get_text_law [OF assms g]
    from r g have "m = read_generations rt" "v = u"
      by (simp_all add: load_generations_def)
    with law p show "(m = Inr (Some es) \<or> (\<exists>e. m = Inl e)) \<and> \<not> owns cfg es v"
      by (cases rt) (auto simp: read_generations_def bucket_newer_def owns_def data_at_def)
  qed
  then show ?thesis
    unfolding bucket_history_def
    by (rule hoare_bind) (rule hoareI, auto)
qed

lemma tick_with_refuses:
  assumes "calm abort" and "latest es \<noteq> 0"
  shows "hoare (\<lambda>w. bucket bk w = b \<and> bucket_newer cfg es b \<and> \<not> owns cfg es w) (tick_with tt st cfg abort)
     (\<lambda>_ w. bucket bk w = b)"
proof -
  have hist: "hoare (\<lambda>w. bucket bk w = b \<and> bucket_newer cfg es b \<and> \<not> owns cfg es w) (bucket_history st cfg abort)
      (\<lambda>h w. bucket bk w = b \<and> (h = None \<or> h = Some es) \<and> \<not> owns cfg es w)"
    by (rule hoare_both [OF bucket_history_bucket [OF assms(1), where P = "\<lambda>c. c = b"] bucket_history_newer [OF assms(1), of cfg es]]) auto
  have read: "hoare (\<lambda>w. bucket bk w = b \<and> \<not> owns cfg es w) (lineage_read (bc_db_path cfg))
      (\<lambda>k w. bucket bk w = b \<and> verdict (resolve_known k es) (latest es) = Refuse)"
    by (rule hoare_both [OF lineage_read_bucket [where P = "\<lambda>c. c = b"] lineage_read_refuses [OF assms(2), of cfg]]) auto
  show ?thesis
    unfolding tick_with_def
  proof (rule hoare_bind [OF hist])
    fix h
    show "hoare (\<lambda>w. bucket bk w = b \<and> (h = None \<or> h = Some es) \<and> \<not> owns cfg es w)
      (case h of None \<Rightarrow> ret () | Some es \<Rightarrow> do {
         recorded \<leftarrow> lineage_read (bc_db_path cfg);
         if verdict (resolve_known recorded es) (latest es) = Refuse then ret ()
         else do {
           ts \<leftarrow> timestamp tt;
           case next_generation es of None \<Rightarrow> ret ()
           | Some g \<Rightarrow> take_dump tt st cfg abort es (resolve_known recorded es) ts g } })
      (\<lambda>_ w. bucket bk w = b)"
    proof (cases h)
      case (Some es')
      show ?thesis
      proof (cases "es' = es")
        case True
        show ?thesis
          unfolding Some True option.case
          by (rule hoare_bind [OF hoare_pre [OF read]]) (auto simp: hoare_def)
      qed (simp add: Some hoare_def)
    qed (simp add: hoare_def)
  qed
qed

end

subsection \<open>The cycle over the S3 client\<close>

text \<open>The server behind the configured remote is an S3 service.\<close>

definition served :: "'e deps \<Rightarrow> sync_config \<Rightarrow> ('e \<Rightarrow> string \<Rightarrow> string option) \<Rightarrow>
    ('e \<Rightarrow> string \<Rightarrow> nat \<Rightarrow> (string \<times> string) option) \<Rightarrow> (string option \<Rightarrow> string \<Rightarrow> bool) \<Rightarrow> bool" where
  "served dp sc bk up after \<longleftrightarrow> (\<forall>cl. connect dp (sc_target sc) = Inr cl \<longrightarrow> s3_service dp cl bk up after)"

lemma calm_quiet: "s3_service dp cl bk up after \<Longrightarrow> s3_service.calm bk up abort = (quiet bk abort \<and> quiet up abort)"
  by (rule s3_service.calm_def)

lemma tick_lift:
  assumes served: "served (tl_deps tt) (bc_sync cfg) bk up after" and q: "quiet bk abort" "quiet up abort" "quiet_tools bk tt"
    and pre: "\<And>w. P w \<Longrightarrow> Q w" and keeps: "\<And>f. quiet bk f \<Longrightarrow> preserves P (env_op f :: ('e world, bool) state)"
      "preserves P (is_empty tt (bc_db_path cfg))"
    and go: "\<And>cl. object_store (client_store (tl_deps tt) cl) bk (s3_service.calm bk up) \<Longrightarrow> s3_service.calm bk up abort \<Longrightarrow>
      hoare P (tick_with tt (client_store (tl_deps tt) cl) cfg abort) (\<lambda>_. Q)"
  shows "hoare P (tick tt cfg abort) (\<lambda>_. Q)"
proof -
  have stop: "hoare P (ret ()) (\<lambda>_. Q)"
    by (rule hoare_return) (rule pre)
  have go': "hoare P (case connect (tl_deps tt) (sc_target (bc_sync cfg)) of
      Inl _ \<Rightarrow> ret () | Inr cl \<Rightarrow> tick_with tt (client_store (tl_deps tt) cl) cfg abort) (\<lambda>_. Q)"
  proof (rule hoare_sum, rule stop)
    fix cl assume "connect (tl_deps tt) (sc_target (bc_sync cfg)) = Inr cl"
    with served have s: "s3_service (tl_deps tt) cl bk up after"
      by (simp add: served_def)
    show "hoare P (tick_with tt (client_store (tl_deps tt) cl) cfg abort) (\<lambda>_. Q)"
      by (rule go [OF s3_service.client_is_store [OF s]]) (simp add: calm_quiet [OF s] q)
  qed
  show ?thesis
    unfolding tick_def
    by (intro hoare_keep [OF keeps(1) [OF q(1)]] hoare_if stop hoare_keep [OF keeps(2)] hoare_sum)
      (auto intro: stop go' split: bool.split)
qed

subsection \<open>The two facts about a cycle\<close>

lemma tick_bucket_ok:
  assumes "served (tl_deps tt) (bc_sync cfg) bk up after" "quiet bk abort" "quiet up abort" "quiet_tools bk tt"
    and "0 < bc_keep cfg" "sound_bucket cfg b" "fresh_stamps tt cfg bk b"
  shows "hoare (\<lambda>w. bucket bk w = b) (tick tt cfg abort) (\<lambda>_. on_bucket bk (cycle_end cfg))"
proof (rule tick_lift [OF assms(1-4)])
  show "cycle_end cfg (bucket bk w)" if "bucket bk w = b" for w :: "'a world"
    using that assms(6) by (simp add: cycle_end_def)
  show "preserves (\<lambda>w. bucket bk w = b) (env_op f :: ('a world, bool) state)" if "quiet bk f" for f
    by (rule env_op_quiet [OF that])
  show "preserves (\<lambda>w. bucket bk w = b) (is_empty tt (bc_db_path cfg))"
    by (rule is_empty_bucket [OF assms(4)])
  show "hoare (\<lambda>w. bucket bk w = b) (tick_with tt (client_store (tl_deps tt) cl) cfg abort)
      (\<lambda>_. on_bucket bk (cycle_end cfg))"
    if "object_store (client_store (tl_deps tt) cl) bk (s3_service.calm bk up)" "s3_service.calm bk up abort" for cl
    by (rule object_store.tick_with_ok [OF that assms(5,4,6,7)])
qed

lemma run_env_op_fs: "preserves (\<lambda>w. P (w_fs w)) (env_op f)"
  by (rule env_op_preserves_fs)

lemma is_empty_fs: "preserves (\<lambda>w. P (w_fs w)) (is_empty tt path)"
  unfolding is_empty_def db_files_def
  by (intro preserves_rules run_env_op_fs) (auto intro!: preservesI simp: fs_exists_def split: list.splits)

lemma owns_fs: "owns cfg es w = (\<exists>text g. map_option f_data (bt_get (w_fs w) (sidecar_path (bc_db_path cfg))) = Some text \<and>
     resolve_known (parse_sidecar text) es = Some g \<and> g \<ge> latest es)"
  by (simp add: owns_def data_at_def)

lemma tick_refuses:
  assumes "served (tl_deps tt) (bc_sync cfg) bk up after" "quiet bk abort" "quiet up abort" "quiet_tools bk tt"
    and "latest es \<noteq> 0" "bucket_newer cfg es b"
  shows "hoare (\<lambda>w. bucket bk w = b \<and> \<not> owns cfg es w) (tick tt cfg abort) (\<lambda>_ w. bucket bk w = b)"
proof (rule tick_lift [OF assms(1-4)])
  show "preserves (\<lambda>w. bucket bk w = b \<and> \<not> owns cfg es w) (env_op f :: ('a world, bool) state)" if "quiet bk f" for f
    unfolding owns_fs by (intro preserves_conj env_op_quiet that run_env_op_fs)
  show "preserves (\<lambda>w. bucket bk w = b \<and> \<not> owns cfg es w) (is_empty tt (bc_db_path cfg))"
    unfolding owns_fs by (intro preserves_conj is_empty_bucket assms is_empty_fs)
  show "hoare (\<lambda>w. bucket bk w = b \<and> \<not> owns cfg es w) (tick_with tt (client_store (tl_deps tt) cl) cfg abort)
      (\<lambda>_ w. bucket bk w = b)"
    if "object_store (client_store (tl_deps tt) cl) bk (s3_service.calm bk up)" "s3_service.calm bk up abort" for cl
    by (rule hoare_pre [OF object_store.tick_with_refuses [OF that assms(5)]]) (use assms(6) in simp)
qed simp

subsection \<open>A concrete world\<close>

definition fake_tools :: "fake tools" where
  "fake_tools = \<lparr>tl_deps = fake_deps (\<lambda>d. d), tl_count = (\<lambda>d wal e. (Some (length d), e)),
     tl_integrity = (\<lambda>d e. (''ok'', e)), tl_vacuum = (\<lambda>d wal e. ((True, Some d), e)),
     tl_random = (\<lambda>e. (Some ''abcd'', e)), tl_nanos = (\<lambda>e. (7, e)),
     tl_stamp = (\<lambda>e. (''20260101T000000Z'', e))\<rparr>"

definition demo_remote :: remote_spec where
  "demo_remote = \<lparr>rs_bucket = ''b'', rs_prefix = [], rs_key_id = ''i'', rs_key_secret = ''k'', rs_endpoint = ''h''\<rparr>"

definition demo_client :: client where
  "demo_client = \<lparr>cl_bucket = ''b'', cl_path = ''h/'', cl_region = AUTO_REGION, cl_key_id = ''i'', cl_key_secret = ''k''\<rparr>"

definition demo_sync :: sync_config where
  "demo_sync = \<lparr>sc_remote = ''s3:b'', sc_target = demo_remote, sc_interval = 60, sc_state_file = None\<rparr>"

definition demo_backup :: backup_config where
  "demo_backup = \<lparr>bc_sync = demo_sync, bc_db_path = ''/data/db.sqlite3'', bc_periodic = True,
     bc_interval = 60, bc_keep = 1, bc_restore = True, bc_staging = ''/data/db-backups''\<rparr>"

definition fake_server :: "(string \<times> string) list \<Rightarrow> http_fault list \<Rightarrow> fake" where
  "fake_server b faults = \<lparr>fk_bucket = b, fk_parts = [], fk_http = faults, fk_stop = False, fk_clock = 0\<rparr>"

definition demo_world :: "(string \<times> string) list \<Rightarrow> fake \<Rightarrow> fake world" where
  "demo_world files e = \<lparr>w_fs = map (\<lambda>(p, d). (p, \<lparr>f_data = d, f_private = True, f_mtime = 1, f_ctime = 1\<rparr>)) files,
     w_faults = [], w_stat = [], w_now = 2, w_env = e\<rparr>"

lemma fake_served: "served (fake_deps digest) sc fake_bk fake_up fake_after"
  by (simp add: served_def fake.s3_service_axioms)

lemma fake_quiet: "quiet fake_bk fake_abort" "quiet fake_up fake_abort" "quiet_tools fake_bk fake_tools"
  by (simp_all add: quiet_def fake_abort_def quiet_tools_def fake_tools_def)

lemma fake_tools_deps: "tl_deps fake_tools = fake_deps (\<lambda>d. d)"
  by (simp add: fake_tools_def)

definition demo_name :: string where
  "demo_name = ''sqlite-20260101T000000Z-61626364.sqlite3''"

lemma hex_demo: "hex ''abcd'' = ''61626364''"
  by code_simp

lemma demo_stamp: "run_state (timestamp fake_tools) w = (ts, v) \<Longrightarrow> object_name cfg ts = demo_name"
  by (auto simp: timestamp_def fake_tools_def env_op_def object_name_def db_label_def db_ext_def demo_name_def
      hex_demo split: prod.splits)

lemma demo_name_ok: "field_ok demo_name"
  by (simp add: field_ok_def demo_name_def find_seq_def ws_seqs_def)

lemma demo_fresh: "b (backup_prefix cfg @ demo_name) = None \<Longrightarrow> fresh_stamps fake_tools cfg bk b"
  using demo_name_ok by (auto simp: fresh_stamps_def demo_stamp)

subsection \<open>A lost response of the manifest write\<close>

text \<open>
  Every attempt of the manifest write takes effect and its answer is lost: the write reports a
  failure, and the cycle takes the dump back although the manifest in the bucket names it.
\<close>

lemma lost_put:
  assumes "w_env w = e" "fk_http e = [Lost, Lost, Lost]" "\<not> fk_stop e"
    and "run_state (s3_put_bytes (fake_deps digest) cl key bytes fake_abort) w = (r, v)"
  shows "r = Inl (Http Transport) \<and> fake_bk (w_env v) = (fake_bk e)(key \<mapsto> bytes) \<and>
    fk_http (w_env v) = [] \<and> \<not> fk_stop (w_env v)"
proof -
  have "RETRY_ATTEMPTS - 1 = Suc (Suc 0)"
    by (simp add: RETRY_ATTEMPTS_def)
  with assms show ?thesis
    by (auto simp: s3_put_bytes_def guard_abort_def send_checked_def retrying_def env_op_def fake_abort_def
        retryable_def fake_deps_def fake_http_def fake_apply_def send_def Let_def no_body_def answer_def
        fake_bk_def fun_eq_iff split: prod.splits)
qed

lemma plain_delete:
  assumes "w_env w = e" "fk_http e = []" "\<not> fk_stop e"
    and "run_state (s3_delete (fake_deps digest) cl key fake_abort) w = (r, v)"
  shows "fake_bk (w_env v) = (fake_bk e)(key := None)"
proof -
  have "RETRY_ATTEMPTS - 1 = Suc (Suc 0)"
    by (simp add: RETRY_ATTEMPTS_def)
  with assms show ?thesis
    by (auto simp: s3_delete_def guard_abort_def send_checked_def retrying_def env_op_def fake_abort_def
        fake_deps_def fake_http_def fake_apply_def send_def Let_def no_body_def answer_def ok_response_def
        fake_bk_def fun_eq_iff split: prod.splits)
qed

definition lost_env :: "(string \<Rightarrow> string option) \<Rightarrow> http_fault list \<Rightarrow> fake world \<Rightarrow> bool" where
  "lost_env b fs w \<longleftrightarrow> fake_bk (w_env w) = b \<and> fk_http (w_env w) = fs \<and> \<not> fk_stop (w_env w)"

lemma lost_store:
  "length (generations_render es) \<le> MAX_BACKUP_MANIFEST_BYTES \<Longrightarrow>
    hoare (lost_env b [Lost, Lost, Lost]) (store_generations (client_store (fake_deps digest) cl) cfg es fake_abort)
     (\<lambda>r w. (\<exists>e. r = Inl e) \<and> lost_env (b(backup_manifest_key cfg \<mapsto> generations_render es)) [] w)"
  by (rule hoareI)
    (auto simp: store_generations_def client_store_simps lost_env_def dest!: lost_put [OF refl] split: prod.splits)

lemma lost_delete: "hoare (lost_env b []) (s3_delete (fake_deps digest) cl key fake_abort)
    (\<lambda>_ w. fake_bk (w_env w) = b(key := None))"
  by (rule hoareI) (auto simp: lost_env_def dest!: plain_delete [OF refl])

lemma remove_env: "preserves (\<lambda>w. P (w_env w)) (fs_remove p)"
  by (rule local_preserves_env [OF local_op_remove [of _ UNIV]]) simp

lemma publish_dump_lost:
  assumes keep: "retain (bc_keep cfg) (push_generation e es) = (kept, ev)"
    and small: "length (generations_render kept) \<le> MAX_BACKUP_MANIFEST_BYTES"
  shows "hoare (lost_env b [Lost, Lost, Lost])
    (publish_dump (client_store (fake_deps digest) cl) cfg fake_abort es staged e)
    (\<lambda>_ w. fake_bk (w_env w) = (b(backup_manifest_key cfg \<mapsto> generations_render kept))(backup_prefix cfg @ gn_name e := None))"
  unfolding publish_dump_def keep prod.case
proof (rule hoare_bind [OF lost_store [OF small]])
  fix r
  let ?b = "b(backup_manifest_key cfg \<mapsto> generations_render kept)"
  have take_back: "hoare (lost_env ?b []) (do {
       fs_remove staged; st_delete (client_store (fake_deps digest) cl) (backup_prefix cfg @ gn_name e) fake_abort; ret () })
      (\<lambda>_ w. fake_bk (w_env w) = ?b(backup_prefix cfg @ gn_name e := None))"
    unfolding client_store_simps
    by (rule hoare_keep [OF remove_env [of "\<lambda>e. fake_bk e = ?b \<and> fk_http e = [] \<and> \<not> fk_stop e", folded lost_env_def]])
      (rule hoare_bind [OF lost_delete], rule hoare_return)
  show "hoare (\<lambda>w. (\<exists>e. r = Inl e) \<and> lost_env ?b [] w) (case r of
      Inl _ \<Rightarrow> do { fs_remove staged; st_delete (client_store (fake_deps digest) cl) (backup_prefix cfg @ gn_name e) fake_abort; ret () }
    | Inr _ \<Rightarrow> do { lineage_write (bc_db_path cfg) (gn_generation e); retain_dump staged (bc_db_path cfg);
        prune (client_store (fake_deps digest) cl) cfg ev fake_abort })
      (\<lambda>_ w. fake_bk (w_env w) = ?b(backup_prefix cfg @ gn_name e := None))"
    by (cases r) (use take_back in \<open>auto simp: hoare_def\<close>)
qed

lemma demo_manifest_key: "backup_manifest_key demo_backup = ''db/manifest''"
  by (simp add: backup_manifest_key_def backup_prefix_def sync_prefix_def demo_backup_def demo_sync_def demo_remote_def)

lemma demo_sidecar: "sidecar_path (bc_db_path demo_backup) = ''/data/db-backups.state''"
  by code_simp

lemma demo_prefix: "backup_prefix demo_backup = ''db/''"
  by (simp add: backup_prefix_def sync_prefix_def demo_backup_def demo_sync_def demo_remote_def)

lemma demo_keep: "bc_keep demo_backup = 1"
  by (simp add: demo_backup_def)

end
