(* ===== verification/Synced.thy ===== *)
theory Synced
  imports World
begin

text \<open>
  \<open>runtime/sync/synced.rs\<close>: the durable set, the enumeration of its local files and the removal
  of stale \<open>.part\<close> files. The recursive walks take the number of directory levels they may still
  descend; \<open>levels\<close> is larger than the depth of any path the world holds, so the bound is never
  what ends a walk.
\<close>

definition TREES :: "string list" where "TREES = [''certs'', ''attachments'', ''sends'']"

definition is_synced_file :: "string \<Rightarrow> string option \<Rightarrow> bool" where
  "is_synced_file rel state_file =
     (if contains_str ''..'' rel \<or> prefix ''/'' rel \<or> suffix ''.part'' rel then False
      else if rel = ''tailscaled.state'' \<or> state_file = Some rel \<or>
          (prefix ''rsa_key'' rel \<and> \<not> contains_str ''/'' rel) then True
      else case split_once ''/'' rel of Some (dir, _) \<Rightarrow> dir \<in> set TREES | None \<Rightarrow> False)"

text \<open>The results of a step over the elements of a list, in order.\<close>

primrec collect :: "('a \<Rightarrow> ('s, 'b list) state) \<Rightarrow> 'a list \<Rightarrow> ('s, 'b list) state" where
  "collect f [] = ret []"
| "collect f (x # xs) = do { a \<leftarrow> f x; b \<leftarrow> collect f xs; ret (a @ b) }"

definition levels :: "'e world \<Rightarrow> nat" where
  "levels w = Suc (fold max (map (\<lambda>e. length (fst e)) (w_fs w)) 0)"

definition entries_of :: "string \<Rightarrow> ('e world, string list) state" where
  "entries_of d = do { r \<leftarrow> fs_read_dir d; ret (case r of Inl _ \<Rightarrow> [] | Inr names \<Rightarrow> names) }"

primrec walk_dir :: "nat \<Rightarrow> string \<Rightarrow> string \<Rightarrow> string option \<Rightarrow> ('e world, string list) state" where
  "walk_dir 0 dir rel state_file = ret []"
| "walk_dir (Suc n) dir rel state_file = do {
     names \<leftarrow> entries_of dir;
     collect (\<lambda>name.
       if \<not> utf8_ok name then ret []
       else do {
         d \<leftarrow> fs_is_dir (dir @ ''/'' @ name);
         if d then walk_dir n (dir @ ''/'' @ name) (rel @ ''/'' @ name) state_file
         else ret (if is_synced_file (rel @ ''/'' @ name) state_file then [rel @ ''/'' @ name] else []) })
       names }"

definition file_if :: "string \<Rightarrow> string \<Rightarrow> ('e world, string list) state" where
  "file_if path rel = do { f \<leftarrow> fs_is_file path; ret (if f then [rel] else []) }"

definition state_files :: "string \<Rightarrow> string option \<Rightarrow> ('e world, string list) state" where
  "state_files root state_file = do {
     a \<leftarrow> file_if (join root ''tailscaled.state'') ''tailscaled.state'';
     b \<leftarrow> (case state_file of
       None \<Rightarrow> ret []
     | Some st \<Rightarrow> if st \<noteq> ''tailscaled.state'' then file_if (join root st) st else ret []);
     ret (a @ b) }"

definition rsa_files :: "string \<Rightarrow> ('e world, string list) state" where
  "rsa_files root = do {
     names \<leftarrow> entries_of root;
     collect (\<lambda>name. if utf8_ok name \<and> prefix ''rsa_key'' name then file_if (join root name) name else ret []) names }"

definition local_synced_files :: "string \<Rightarrow> string option \<Rightarrow> ('e world, string list) state" where
  "local_synced_files root state_file = do {
     a \<leftarrow> state_files root state_file;
     b \<leftarrow> rsa_files root;
     n \<leftarrow> gets levels;
     c \<leftarrow> collect (\<lambda>tree. walk_dir n (join root tree) tree state_file) TREES;
     ret (sort (filter (\<lambda>f. is_synced_file f state_file) (a @ b @ c))) }"

text \<open>Stale \<open>.part\<close> files.\<close>

definition is_partial :: "string \<Rightarrow> bool" where
  "is_partial name \<longleftrightarrow> utf8_ok name \<and> suffix ''.part'' name"

definition remove_partial :: "string \<Rightarrow> string \<Rightarrow> ('e world, string list) state" where
  "remove_partial path name = (if is_partial name then do {
       r \<leftarrow> fs_remove path;
       ret (case r of Inr _ \<Rightarrow> [path] | Inl _ \<Rightarrow> []) }
     else ret [])"

definition clear_flat :: "string \<Rightarrow> ('e world, string list) state" where
  "clear_flat dir = do {
     names \<leftarrow> entries_of dir;
     collect (\<lambda>name. do {
       f \<leftarrow> fs_is_file (dir @ ''/'' @ name);
       if f then remove_partial (dir @ ''/'' @ name) name else ret [] }) names }"

primrec clear_recursive :: "nat \<Rightarrow> string \<Rightarrow> ('e world, string list) state" where
  "clear_recursive 0 dir = ret []"
| "clear_recursive (Suc n) dir = do {
     names \<leftarrow> entries_of dir;
     collect (\<lambda>name. do {
       d \<leftarrow> fs_is_dir (dir @ ''/'' @ name);
       if d then clear_recursive n (dir @ ''/'' @ name)
       else remove_partial (dir @ ''/'' @ name) name }) names }"

text \<open>The number removed.\<close>

definition clear_partials :: "string \<Rightarrow> ('e world, nat) state" where
  "clear_partials root = do {
     a \<leftarrow> clear_flat root;
     n \<leftarrow> gets levels;
     b \<leftarrow> collect (\<lambda>tree. clear_recursive n (join root tree)) TREES;
     ret (length (a @ b)) }"

subsection \<open>The set\<close>

lemma synced_shape:
  "is_synced_file rel st \<Longrightarrow> \<not> contains_str ''..'' rel \<and> \<not> prefix ''/'' rel \<and> \<not> suffix ''.part'' rel"
  by (auto simp: is_synced_file_def split: if_splits)

lemma synced_nonempty: "is_synced_file rel st \<Longrightarrow> st \<noteq> Some [] \<Longrightarrow> rel \<noteq> []"
  by (auto simp: is_synced_file_def)

lemma synced_join: "is_synced_file rel st \<Longrightarrow> join root rel = root @ ''/'' @ rel"
  by (auto simp: join_def dest: synced_shape)

lemma preserves_collect: "(\<And>x. preserves I (f x)) \<Longrightarrow> preserves I (collect f xs)"
  by (induction xs) auto

lemma local_op_collect: "(\<And>x. local_op ps (f x)) \<Longrightarrow> local_op ps (collect f xs)"
  by (induction xs) auto

lemma local_op_entries [intro!]: "local_op ps (entries_of d)"
  unfolding entries_of_def by auto

lemma local_op_walk [intro!]: "local_op ps (walk_dir n dir rel st)"
proof (induction n arbitrary: dir rel)
  case (Suc n)
  show ?case
    unfolding walk_dir.simps
    by (intro local_op_bind local_op_collect local_op_if local_op_entries local_op_is_dir local_op_return Suc)
qed auto

lemma local_op_file_if [intro!]: "local_op ps (file_if p r)"
  unfolding file_if_def by auto

lemma local_op_local_synced_files: "local_op ps (local_synced_files root st)"
  unfolding local_synced_files_def state_files_def rsa_files_def
  by (intro local_op_bind local_op_collect local_op_option local_op_if) auto

lemma local_synced_files_set: "hoare (\<lambda>_. True) (local_synced_files root st)
    (\<lambda>fs _. sorted fs \<and> (\<forall>f \<in> set fs. is_synced_file f st))"
  unfolding local_synced_files_def
  by (intro hoare_bind [where R = "\<lambda>_ _. True"] hoare_return) (auto simp: hoare_def)

text \<open>Cleaning changes no file that is not a \<open>.part\<close> file.\<close>

lemma preserves_remove_partial:
  "\<not> suffix ''.part'' q \<Longrightarrow> suffix name path \<Longrightarrow> preserves (\<lambda>w. P (file_at w q)) (remove_partial path name)"
proof -
  assume q: "\<not> suffix ''.part'' q" and s: "suffix name path"
  show ?thesis
  proof (cases "is_partial name")
    case True
    then have "suffix ''.part'' path"
      using s by (auto simp: is_partial_def intro: suffix_order.trans)
    then have "q \<noteq> path" using q by auto
    then show ?thesis
      unfolding remove_partial_def
      by (intro preserves_rules local_preserves_file [OF local_op_remove [OF singletonI]]) simp
  qed (simp add: remove_partial_def preserves_return)
qed

lemmas query_frame = local_op_entries [THEN local_preserves_file] local_op_is_file [THEN local_preserves_file]
  local_op_is_dir [THEN local_preserves_file]

lemma preserves_clear_recursive:
  assumes q: "\<not> suffix ''.part'' q"
  shows "preserves (\<lambda>w. P (file_at w q)) (clear_recursive n dir)"
proof (induction n arbitrary: dir)
  case (Suc n)
  show ?case
    unfolding clear_recursive.simps
    by (intro preserves_bind preserves_if preserves_collect Suc preserves_remove_partial q
      query_frame [where ps = "{}"]) (auto simp: suffix_def)
qed auto

lemma preserves_clear_partials:
  assumes q: "\<not> suffix ''.part'' q"
  shows "preserves (\<lambda>w. P (file_at w q)) (clear_partials root)"
  unfolding clear_partials_def clear_flat_def
  by (intro preserves_bind preserves_if preserves_collect preserves_clear_recursive preserves_remove_partial q
      preserves_return preserves_gets query_frame [where ps = "{}"]) (auto simp: suffix_def)

end
