(* ===== verification/SyncState.thy ===== *)
theory SyncState
  imports ObjectStore SyncManifest Synced
begin

text \<open>
  \<open>runtime/sync/state.rs\<close>: the pull at boot (\<open>restore_state_at\<close>, with the reconciliation of
  objects the manifest does not name) and the push (\<open>sync_state_at\<close>), over a client's operations.
  Each loop body is a definition of its own; the loops stop where the code's \<open>abort\<close> checks stop
  them.
\<close>

datatype sync_error = Remote s3_error | Malformed manifest_error | TooBig

definition manifest_key :: "sync_config \<Rightarrow> string" where
  "manifest_key cfg = sync_prefix cfg @ MANIFEST_NAME"

definition read_manifest :: "s3_error + string option \<Rightarrow> sync_error + manifest option" where
  "read_manifest r = (case r of Inl e \<Rightarrow> Inl (Remote e) | Inr None \<Rightarrow> Inr None
     | Inr (Some text) \<Rightarrow> (case manifest_parse text of Inl e \<Rightarrow> Inl (Malformed e) | Inr m \<Rightarrow> Inr (Some m)))"

definition load_manifest :: "'e store \<Rightarrow> sync_config \<Rightarrow> 'e abort \<Rightarrow>
    ('e world, sync_error + manifest option) state" where
  "load_manifest st cfg abort = do {
     r \<leftarrow> st_get_text st (manifest_key cfg) MAX_MANIFEST_BYTES abort;
     ret (read_manifest r) }"

definition store_manifest :: "'e store \<Rightarrow> sync_config \<Rightarrow> manifest \<Rightarrow> 'e abort \<Rightarrow>
    ('e world, sync_error + unit) state" where
  "store_manifest st cfg m abort =
     (if MAX_MANIFEST_BYTES < length (manifest_render m) then ret (Inl TooBig)
      else do {
        r \<leftarrow> st_put_bytes st (manifest_key cfg) (manifest_render m) abort;
        ret (case r of Inl e \<Rightarrow> Inl (Remote e) | Inr _ \<Rightarrow> Inr ()) })"

definition should_pull :: "string \<Rightarrow> ('e world, bool) state" where
  "should_pull target = do { there \<leftarrow> fs_exists target; ret (\<not> there) }"

definition object_key :: "string \<Rightarrow> string \<Rightarrow> string" where
  "object_key rel sha = ''objects/'' @ rel @ ''/'' @ sha"

definition split_object_key :: "string \<Rightarrow> string \<Rightarrow> (string \<times> string) option" where
  "split_object_key key pre = (case strip_prefix pre key of None \<Rightarrow> None
     | Some rest \<Rightarrow> (case strip_prefix ''objects/'' rest of None \<Rightarrow> None
       | Some r \<Rightarrow> (case rsplit_once (CHR ''/'') r of None \<Rightarrow> None
         | Some (rel, sha) \<Rightarrow> if sha_ok sha \<and> rel \<noteq> [] then Some (rel, sha) else None)))"

record version =
  ve_sha256 :: string
  ve_size :: nat
  ve_modified :: string

fun adjacent_equal :: "string list \<Rightarrow> bool" where
  "adjacent_equal (a # b # xs) = (a = b \<or> adjacent_equal (b # xs))"
| "adjacent_equal _ = False"

definition newest :: "version list \<Rightarrow> version option" where
  "newest vs = (if length vs = 1 then Some (hd vs)
     else let stamps = sort (map ve_modified vs) in
       if vs = [] \<or> list_ex (\<lambda>s. s = []) stamps \<or> adjacent_equal stamps then None
       else find (\<lambda>v. ve_modified v = last stamps) vs)"

definition add_version :: "(string, version list) btree \<Rightarrow> string \<times> version \<Rightarrow> (string, version list) btree" where
  "add_version m rv = (case rv of (rel, v) \<Rightarrow>
     bt_insert rel ((case bt_get m rel of None \<Rightarrow> [] | Some vs \<Rightarrow> vs) @ [v]) m)"

definition choose_newest :: "(string \<times> version) list \<Rightarrow> (string, version) btree" where
  "choose_newest versions = List.map_filter (\<lambda>(rel, vs). map_option (Pair rel) (newest vs))
     (foldl add_version [] versions)"

subsection \<open>The local lists\<close>

definition repair_path :: "string \<Rightarrow> string" where
  "repair_path root = join root ''.sync-repair''"

definition read_repair :: "string \<Rightarrow> ('e world, string bset) state" where
  "read_repair root = do {
     r \<leftarrow> fs_read_to_string (repair_path root);
     ret (case r of Inl _ \<Rightarrow> [] | Inr text \<Rightarrow> bs_of_list (str_lines text)) }"

definition repair_text :: "string bset \<Rightarrow> string" where
  "repair_text rels = concat (map (\<lambda>rel. if NL \<in> set rel then [] else rel @ [NL]) (bs_elems rels))"

definition write_repair :: "string \<Rightarrow> string bset \<Rightarrow> ('e world, unit) state" where
  "write_repair root rels =
     (if rels = [] then do { fs_remove (repair_path root); ret () }
      else do { fs_write (repair_path root) (repair_text rels); ret () })"

definition shadow_path :: "string \<Rightarrow> string" where
  "shadow_path root = join root ''.sync-pending-manifest''"

definition load_shadow :: "string \<Rightarrow> ('e world, manifest option) state" where
  "load_shadow root = do {
     r \<leftarrow> fs_read_to_string (shadow_path root);
     ret (case r of Inl _ \<Rightarrow> None
       | Inr text \<Rightarrow> (case manifest_parse text of Inl _ \<Rightarrow> None | Inr m \<Rightarrow> Some m)) }"

definition store_shadow :: "string \<Rightarrow> manifest \<Rightarrow> ('e world, unit) state" where
  "store_shadow root m = do { fs_write (shadow_path root) (manifest_render m); ret () }"

definition remove_shadow :: "string \<Rightarrow> ('e world, unit) state" where
  "remove_shadow root = do { fs_remove (shadow_path root); ret () }"

subsection \<open>What the bucket holds and the volume does not\<close>

definition rel_of_key :: "string \<Rightarrow> sync_config \<Rightarrow> string option" where
  "rel_of_key key cfg = (case split_object_key key (sync_prefix cfg) of
     Some (rel, _) \<Rightarrow> Some rel | None \<Rightarrow> strip_prefix (sync_prefix cfg) key)"

definition missing_rel :: "sync_config \<Rightarrow> string \<Rightarrow> listed \<Rightarrow> ('e world, string list) state" where
  "missing_rel cfg root item = (case rel_of_key (li_key item) cfg of None \<Rightarrow> ret []
     | Some rel \<Rightarrow>
         if rel = MANIFEST_NAME \<or> \<not> is_synced_file rel (sc_state_file cfg) then ret []
         else do {
           there \<leftarrow> fs_exists (join root rel);
           ret (if there then [] else [rel]) })"

definition remote_only_files :: "'e store \<Rightarrow> sync_config \<Rightarrow> string \<Rightarrow> 'e abort \<Rightarrow>
    ('e world, string list option) state" where
  "remote_only_files st cfg root abort = do {
     r \<leftarrow> st_list st (sync_prefix cfg) abort;
     case r of Inl _ \<Rightarrow> ret None
     | Inr listed \<Rightarrow> do {
         missing \<leftarrow> collect (missing_rel cfg root) listed;
         ret (Some (remdups_adj (sort missing))) } }"

definition candidate :: "sync_config \<Rightarrow> manifest option \<Rightarrow> listed \<Rightarrow> (string \<times> version) option" where
  "candidate cfg m item = (case split_object_key (li_key item) (sync_prefix cfg) of None \<Rightarrow> None
     | Some (rel, sha) \<Rightarrow>
         if \<not> is_synced_file rel (sc_state_file cfg) then None
         else if (case m of None \<Rightarrow> False | Some mf \<Rightarrow> manifest_get mf rel \<noteq> None) then None
         else Some (rel, \<lparr>ve_sha256 = sha, ve_size = li_size item, ve_modified = li_modified item\<rparr>))"

definition expect_of :: "nat option \<Rightarrow> string option \<Rightarrow> expect" where
  "expect_of sz sha = \<lparr>ex_size = sz, ex_sha256 = sha, ex_max = MAX_SYNC_OBJECT_BYTES\<rparr>"

definition recover_one :: "'e store \<Rightarrow> sync_config \<Rightarrow> string \<Rightarrow> 'e abort \<Rightarrow> string \<times> version \<Rightarrow>
    ('e world, nat) state" where
  "recover_one st cfg root abort rv = (case rv of (rel, v) \<Rightarrow> do {
     there \<leftarrow> fs_exists (join root rel);
     if there then ret 0
     else do {
       d \<leftarrow> fs_dir_op;
       case d of Inl _ \<Rightarrow> ret 0
       | Inr _ \<Rightarrow> do {
           r \<leftarrow> st_get st (sync_prefix cfg @ object_key rel (ve_sha256 v)) (join root rel)
             (expect_of (Some (ve_size v)) (Some (ve_sha256 v))) abort;
           ret (case r of Inl _ \<Rightarrow> 0 | Inr _ \<Rightarrow> 1) } } })"

primrec recover_all :: "'e store \<Rightarrow> sync_config \<Rightarrow> string \<Rightarrow> 'e abort \<Rightarrow> (string \<times> version) list \<Rightarrow>
    ('e world, nat) state" where
  "recover_all st cfg root abort [] = ret 0"
| "recover_all st cfg root abort (x # xs) = do {
     stop \<leftarrow> env_op abort;
     if stop then ret 0 else do {
       n \<leftarrow> recover_one st cfg root abort x;
       m \<leftarrow> recover_all st cfg root abort xs;
       ret (n + m) } }"

text \<open>\<open>held\<close>: the bucket lists the entry's object, or its legacy key, at the recorded size.\<close>

definition present_map :: "listed list \<Rightarrow> (string, nat) btree" where
  "present_map listed = foldl (\<lambda>m i. bt_insert (li_key i) (li_size i) m) [] listed"

definition held :: "sync_config \<Rightarrow> (string, nat) btree \<Rightarrow> string \<Rightarrow> entry \<Rightarrow> bool" where
  "held cfg present rel e \<longleftrightarrow>
     bt_get present (sync_prefix cfg @ object_key rel (en_sha256 e)) = Some (unat (en_size e)) \<or>
     bt_get present (sync_prefix cfg @ rel) = Some (unat (en_size e))"

definition check_entry :: "sync_config \<Rightarrow> string \<Rightarrow> (string, nat) btree \<Rightarrow> string \<times> entry \<Rightarrow> string bset \<Rightarrow>
    ('e world, string bset) state" where
  "check_entry cfg root present re repair = (case re of (rel, e) \<Rightarrow>
     if held cfg present rel e then ret (bt_remove rel repair)
     else do {
       there \<leftarrow> fs_exists (join root rel);
       ret (if there then bs_insert rel repair else repair) })"

primrec check_entries :: "sync_config \<Rightarrow> string \<Rightarrow> 'e abort \<Rightarrow> (string, nat) btree \<Rightarrow>
    (string \<times> entry) list \<Rightarrow> string bset \<Rightarrow> ('e world, string bset) state" where
  "check_entries cfg root abort present [] repair = ret repair"
| "check_entries cfg root abort present (x # xs) repair = do {
     stop \<leftarrow> env_op abort;
     if stop then ret repair else do {
       repair' \<leftarrow> check_entry cfg root present x repair;
       check_entries cfg root abort present xs repair' } }"

definition reconcile_listed :: "'e store \<Rightarrow> sync_config \<Rightarrow> string \<Rightarrow> manifest option \<Rightarrow> 'e abort \<Rightarrow> listed list \<Rightarrow>
    ('e world, nat) state" where
  "reconcile_listed st cfg root m abort listed = do {
     n \<leftarrow> recover_all st cfg root abort (choose_newest (List.map_filter (candidate cfg m) listed));
     repair \<leftarrow> read_repair root;
     repair' \<leftarrow> check_entries cfg root abort (present_map listed)
       (case m of None \<Rightarrow> [] | Some mf \<Rightarrow> mf) repair;
     write_repair root repair';
     ret n }"

definition reconcile_objects :: "'e store \<Rightarrow> sync_config \<Rightarrow> string \<Rightarrow> manifest option \<Rightarrow> 'e abort \<Rightarrow>
    ('e world, nat) state" where
  "reconcile_objects st cfg root m abort = do {
     r \<leftarrow> st_list st (sync_prefix cfg) abort;
     case r of Inl _ \<Rightarrow> ret 0 | Inr listed \<Rightarrow> reconcile_listed st cfg root m abort listed }"

subsection \<open>The pull\<close>

record target =
  tg_rel :: string
  tg_size :: "nat option"
  tg_sha256 :: "string option"

definition manifest_targets :: "manifest \<Rightarrow> target list" where
  "manifest_targets m = map (\<lambda>(rel, e). \<lparr>tg_rel = rel, tg_size = Some (unat (en_size e)),
     tg_sha256 = Some (en_sha256 e)\<rparr>) m"

definition listed_target :: "sync_config \<Rightarrow> listed \<Rightarrow> target option" where
  "listed_target cfg item = (case strip_prefix (sync_prefix cfg) (li_key item) of None \<Rightarrow> None
     | Some rel \<Rightarrow> if rel = MANIFEST_NAME \<or> prefix ''objects/'' rel then None
         else Some \<lparr>tg_rel = rel, tg_size = Some (li_size item), tg_sha256 = None\<rparr>)"

text \<open>The keys a target is fetched from: its own, and the legacy one on a miss.\<close>

definition legacy_key :: "sync_config \<Rightarrow> target \<Rightarrow> string" where
  "legacy_key cfg t = sync_prefix cfg @ tg_rel t"

definition primary_key :: "sync_config \<Rightarrow> target \<Rightarrow> string" where
  "primary_key cfg t = (case tg_sha256 t of
     Some sha \<Rightarrow> sync_prefix cfg @ object_key (tg_rel t) sha | None \<Rightarrow> legacy_key cfg t)"

definition fetch :: "'e store \<Rightarrow> sync_config \<Rightarrow> string \<Rightarrow> 'e abort \<Rightarrow> target \<Rightarrow>
    ('e world, s3_error + unit) state" where
  "fetch st cfg local abort t = do {
     r \<leftarrow> st_get st (primary_key cfg t) local (expect_of (tg_size t) (tg_sha256 t)) abort;
     case r of Inr u \<Rightarrow> ret (Inr u)
     | Inl e \<Rightarrow> if tg_sha256 t \<noteq> None \<and> primary_key cfg t \<noteq> legacy_key cfg t
         then st_get st (legacy_key cfg t) local (expect_of (tg_size t) (tg_sha256 t)) abort
         else ret (Inl e) }"

datatype pulled = Pulled | Kept | PullFailed

definition pull_one :: "'e store \<Rightarrow> sync_config \<Rightarrow> string \<Rightarrow> 'e abort \<Rightarrow> target \<Rightarrow>
    ('e world, pulled) state" where
  "pull_one st cfg root abort t =
     (if \<not> is_synced_file (tg_rel t) (sc_state_file cfg) then ret PullFailed
      else do {
        pull \<leftarrow> should_pull (join root (tg_rel t));
        if \<not> pull then ret Kept
        else do {
          d \<leftarrow> fs_dir_op;
          case d of Inl _ \<Rightarrow> ret PullFailed
          | Inr _ \<Rightarrow> do {
              r \<leftarrow> fetch st cfg (join root (tg_rel t)) abort t;
              ret (case r of Inl _ \<Rightarrow> PullFailed | Inr _ \<Rightarrow> Pulled) } } })"

text \<open>\<open>None\<close>: the abort check ended the pull (and the function, with \<open>true\<close>).\<close>

primrec pull_all :: "'e store \<Rightarrow> sync_config \<Rightarrow> string \<Rightarrow> 'e abort \<Rightarrow> target list \<Rightarrow> bool \<Rightarrow>
    ('e world, bool option) state" where
  "pull_all st cfg root abort [] ok = ret (Some ok)"
| "pull_all st cfg root abort (t # ts) ok = do {
     stop \<leftarrow> env_op abort;
     if stop then ret None else do {
       p \<leftarrow> pull_one st cfg root abort t;
       pull_all st cfg root abort ts (ok \<and> p \<noteq> PullFailed) } }"

definition pull_targets :: "'e store \<Rightarrow> sync_config \<Rightarrow> manifest option \<Rightarrow> 'e abort \<Rightarrow>
    ('e world, target list option) state" where
  "pull_targets st cfg m abort = (case m of
     Some mf \<Rightarrow> ret (Some (manifest_targets mf))
   | None \<Rightarrow> do {
       r \<leftarrow> st_list st (sync_prefix cfg) abort;
       ret (case r of Inl _ \<Rightarrow> None
         | Inr listed \<Rightarrow> Some (List.map_filter (listed_target cfg) listed)) })"

definition restore_with :: "'e store \<Rightarrow> sync_config \<Rightarrow> string \<Rightarrow> 'e abort \<Rightarrow> ('e world, bool) state" where
  "restore_with st cfg root abort = do {
     clear_partials root;
     l \<leftarrow> load_manifest st cfg abort;
     let m = (case l of Inl _ \<Rightarrow> None | Inr m \<Rightarrow> m) in do {
       ts \<leftarrow> pull_targets st cfg m abort;
       case ts of None \<Rightarrow> ret False
       | Some targets \<Rightarrow> do {
           done \<leftarrow> pull_all st cfg root abort targets True;
           case done of None \<Rightarrow> ret True
           | Some ok \<Rightarrow> do { reconcile_objects st cfg root m abort; ret ok } } } }"

text \<open>An unusable S3 configuration is a failed run.\<close>

definition restore_state :: "'e deps \<Rightarrow> sync_config \<Rightarrow> 'e abort \<Rightarrow> ('e world, bool) state" where
  "restore_state dp cfg abort = (case connect dp (sc_target cfg) of Inl _ \<Rightarrow> ret False
     | Inr cl \<Rightarrow> restore_with (client_store dp cl) cfg ''/data'' abort)"

subsection \<open>The push\<close>

definition mtime_nanos :: "inode \<Rightarrow> u64" where
  "mtime_nanos i = of_nat (f_mtime i)"

text \<open>Saturating, as the seconds and nanoseconds of \<open>st_ctime\<close> are combined.\<close>

definition ctime_nanos :: "inode \<Rightarrow> u64" where
  "ctime_nanos i = of_nat (min (f_ctime i) (2 ^ 64 - 1))"

definition fs_metadata :: "string \<Rightarrow> ('e world, io_error + inode) state" where
  "fs_metadata p = do {
     f \<leftarrow> next_fault;
     if f \<noteq> Fine then ret (Inl OtherIo)
     else gets (\<lambda>w. case file_at w p of None \<Rightarrow> Inl NotFound | Some x \<Rightarrow> Inr x) }"

record push_state =
  ps_manifest :: manifest
  ps_repair :: "string bset"
  ps_cache :: cache
  ps_pushed :: nat
  ps_failed :: bool

definition recorded :: "manifest \<Rightarrow> string \<Rightarrow> string \<Rightarrow> u64 \<Rightarrow> bool" where
  "recorded m rel sha sz \<longleftrightarrow> manifest_get m rel = Some \<lparr>en_size = sz, en_sha256 = sha\<rparr>"

definition cache_says_unchanged :: "push_state \<Rightarrow> string \<Rightarrow> inode \<Rightarrow> bool" where
  "cache_says_unchanged ps rel i \<longleftrightarrow> (case hash_of (ps_cache ps) rel (of_nat (length (f_data i)))
       (mtime_nanos i) (ctime_nanos i) of
     None \<Rightarrow> False | Some h \<Rightarrow> recorded (ps_manifest ps) rel h (of_nat (length (f_data i))))"

definition remember :: "string \<Rightarrow> inode \<Rightarrow> string \<Rightarrow> push_state \<Rightarrow> push_state" where
  "remember rel i h ps = ps\<lparr>ps_cache := cache_record rel (of_nat (length (f_data i))) (mtime_nanos i)
     (ctime_nanos i) h (ps_cache ps)\<rparr>"

definition uploaded :: "string \<Rightarrow> inode \<Rightarrow> string \<Rightarrow> push_state \<Rightarrow> push_state" where
  "uploaded rel i h ps = (remember rel i h ps)\<lparr>
     ps_manifest := manifest_insert rel \<lparr>en_size = of_nat (length (f_data i)), en_sha256 = h\<rparr> (ps_manifest ps),
     ps_repair := bt_remove rel (ps_repair ps), ps_pushed := ps_pushed ps + 1\<rparr>"

definition push_key :: "sync_config \<Rightarrow> bool \<Rightarrow> string \<Rightarrow> string \<Rightarrow> string" where
  "push_key cfg pub rel h = sync_prefix cfg @ (if pub then object_key rel h else rel)"

definition mark_failed :: "push_state \<Rightarrow> push_state" where
  "mark_failed ps = ps\<lparr>ps_failed := True\<rparr>"

text \<open>Hash, compare, upload: a file the cache does not vouch for.\<close>

definition push_changed :: "'e deps \<Rightarrow> 'e store \<Rightarrow> sync_config \<Rightarrow> string \<Rightarrow> bool \<Rightarrow> 'e abort \<Rightarrow> string \<Rightarrow> inode \<Rightarrow>
    push_state \<Rightarrow> ('e world, push_state) state" where
  "push_changed dp st cfg root pub abort rel i ps = do {
     h \<leftarrow> sha256_file dp (join root rel);
     case h of Inl _ \<Rightarrow> ret (mark_failed ps)
     | Inr hash \<Rightarrow>
         if \<not> bs_mem (ps_repair ps) rel \<and> recorded (ps_manifest ps) rel hash (of_nat (length (f_data i)))
         then ret (remember rel i hash ps)
         else do {
           r \<leftarrow> st_put st (push_key cfg pub rel hash) (join root rel) abort;
           ret (case r of Inl _ \<Rightarrow> mark_failed ps | Inr _ \<Rightarrow> uploaded rel i hash ps) } }"

definition push_one :: "'e deps \<Rightarrow> 'e store \<Rightarrow> sync_config \<Rightarrow> string \<Rightarrow> bool \<Rightarrow> 'e abort \<Rightarrow> string \<Rightarrow>
    push_state \<Rightarrow> ('e world, push_state) state" where
  "push_one dp st cfg root pub abort rel ps = do {
     meta \<leftarrow> fs_metadata (join root rel);
     case meta of Inl _ \<Rightarrow> ret (mark_failed ps)
     | Inr i \<Rightarrow>
         if \<not> bs_mem (ps_repair ps) rel \<and> cache_says_unchanged ps rel i then ret ps
         else push_changed dp st cfg root pub abort rel i ps }"

primrec push_all :: "'e deps \<Rightarrow> 'e store \<Rightarrow> sync_config \<Rightarrow> string \<Rightarrow> bool \<Rightarrow> 'e abort \<Rightarrow> string list \<Rightarrow>
    push_state \<Rightarrow> ('e world, push_state option) state" where
  "push_all dp st cfg root pub abort [] ps = ret (Some ps)"
| "push_all dp st cfg root pub abort (rel # rels) ps = do {
     stop \<leftarrow> env_op abort;
     if stop then ret None else do {
       ps' \<leftarrow> push_one dp st cfg root pub abort rel ps;
       push_all dp st cfg root pub abort rels ps' } }"

definition publish_manifest :: "'e store \<Rightarrow> sync_config \<Rightarrow> string \<Rightarrow> bool \<Rightarrow> 'e abort \<Rightarrow> push_state \<Rightarrow>
    ('e world, bool) state" where
  "publish_manifest st cfg root pub abort ps =
     (if ps_pushed ps = 0 then ret (ps_failed ps)
      else if pub then do {
        r \<leftarrow> store_manifest st cfg (ps_manifest ps) abort;
        case r of Inr _ \<Rightarrow> do { remove_shadow root; ret (ps_failed ps) } | Inl _ \<Rightarrow> ret True }
      else do { store_shadow root (ps_manifest ps); ret (ps_failed ps) })"

definition finish_push :: "string \<Rightarrow> string list \<Rightarrow> push_state \<Rightarrow> ('e world, unit) state" where
  "finish_push root files ps = do {
     write_repair root (filter (\<lambda>e. fst e \<in> set files) (ps_repair ps));
     cache_save (ps_cache ps) }"

definition push_files :: "'e deps \<Rightarrow> 'e store \<Rightarrow> sync_config \<Rightarrow> string \<Rightarrow> 'e abort \<Rightarrow> string list \<Rightarrow> bool \<Rightarrow> manifest \<Rightarrow>
    ('e world, bool) state" where
  "push_files dp st cfg root abort files pub m = do {
     repair \<leftarrow> read_repair root;
     cache \<leftarrow> cache_load;
     r \<leftarrow> push_all dp st cfg root pub abort files
       \<lparr>ps_manifest = m, ps_repair = repair, ps_cache = cache, ps_pushed = 0, ps_failed = False\<rparr>;
     case r of None \<Rightarrow> ret False
     | Some ps \<Rightarrow> do {
         failed \<leftarrow> publish_manifest st cfg root pub abort ps;
         finish_push root files ps;
         ret (\<not> failed) } }"

text \<open>
  Without a loaded manifest, a new one is published only when the bucket holds nothing the volume
  lacks; otherwise the local shadow stands in for it.
\<close>

definition may_publish :: "'e store \<Rightarrow> sync_config \<Rightarrow> string \<Rightarrow> 'e abort \<Rightarrow> bool \<Rightarrow> ('e world, bool) state" where
  "may_publish st cfg root abort loaded = (if loaded then ret True else do {
     r \<leftarrow> remote_only_files st cfg root abort;
     ret (r = Some []) })"

definition base_manifest :: "string \<Rightarrow> bool \<Rightarrow> manifest \<Rightarrow> ('e world, manifest) state" where
  "base_manifest root pub bucket_manifest = (if pub then ret bucket_manifest else do {
     s \<leftarrow> load_shadow root;
     ret (case s of None \<Rightarrow> [] | Some m \<Rightarrow> m) })"

definition sync_with :: "'e deps \<Rightarrow> 'e store \<Rightarrow> sync_config \<Rightarrow> string \<Rightarrow> 'e abort \<Rightarrow> ('e world, bool) state" where
  "sync_with dp st cfg root abort = do {
     files \<leftarrow> local_synced_files root (sc_state_file cfg);
     if files = [] then ret True
     else do {
       l \<leftarrow> load_manifest st cfg abort;
       let loaded = (case l of Inr (Some m) \<Rightarrow> Some m | _ \<Rightarrow> None) in do {
         pub \<leftarrow> may_publish st cfg root abort (loaded \<noteq> None);
         m \<leftarrow> base_manifest root pub (case loaded of Some m \<Rightarrow> m | None \<Rightarrow> []);
         push_files dp st cfg root abort files pub m } } }"

definition sync_state :: "'e deps \<Rightarrow> sync_config \<Rightarrow> 'e abort \<Rightarrow> ('e world, bool) state" where
  "sync_state dp cfg abort = (case connect dp (sc_target cfg) of Inl _ \<Rightarrow> ret False
     | Inr cl \<Rightarrow> sync_with dp (client_store dp cl) cfg ''/data'' abort)"

end
