(* ===== verification/S3Frames.thy ===== *)
theory S3Frames
  imports S3Get
begin

text \<open>
  Which files the client's operations may touch, whatever the service answers: an upload, a
  listing or a delete none, a download its target and the temp beside it.
\<close>

lemma framed_send [intro!]: "framed ps (send dp cl act key d)"
  unfolding send_def by (rule framed_env_op)

lemma framed_guard_abort [intro]: "framed ps m \<Longrightarrow> framed ps (guard_abort abort m)"
  unfolding guard_abort_def by (intro framed_rules)

lemma framed_retrying: "framed ps request \<Longrightarrow> framed ps (retrying dp request)"
proof -
  assume request: "framed ps request"
  have "framed ps (retrying_from dp n request)" for n
  proof (induction n)
    case (Suc n)
    show ?case
      unfolding retrying_from.simps by (intro framed_rules request Suc)
  qed (simp add: request)
  then show ?thesis
    by (simp add: retrying_def)
qed

lemmas framed_fs = local_op_read [THEN local_op_framed] local_op_len [THEN local_op_framed]
  local_op_next_fault [THEN local_op_framed] local_op_dir_op [THEN local_op_framed]
  local_op_exists [THEN local_op_framed]

lemma framed_send_checked [intro!]: "framed ps (send_checked dp cl act key d)"
  unfolding send_checked_def by (intro framed_rules framed_retrying framed_send)

lemma framed_abort_upload [intro!]: "framed ps (abort_upload dp cl key u)"
  unfolding abort_upload_def by (intro framed_rules framed_send)

lemma framed_put_part [intro!]: "framed ps (put_part dp cl key u n chunk)"
  unfolding put_part_def by (intro framed_rules framed_send_checked)

lemma framed_put_parts_from [intro!]:
  "framed ps (put_parts_from dp cl key d fsize part_size u abort offset etags)"
proof (induction dp cl key d fsize part_size u abort offset etags rule: put_parts_from.induct)
  case (1 dp cl key d fsize part_size u abort offset etags)
  show ?case
    unfolding put_parts_from.simps [of dp cl key d fsize part_size u abort offset etags] Let_def
    by (intro framed_rules framed_guard_abort framed_fs framed_put_part)
      (rule 1 [OF _ _ refl refl]; assumption)
qed

lemma framed_put_multipart [intro!]: "framed ps (put_multipart dp cl key path fsize part_size abort)"
  unfolding put_multipart_def create_upload_def put_parts_def complete_upload_def
  by (intro framed_rules framed_guard_abort framed_send_checked framed_fs framed_put_parts_from
    framed_abort_upload framed_retrying framed_send)

lemma framed_put [intro!]: "framed ps (s3_put dp cl key path abort)"
  unfolding s3_put_def put_request_def
  by (intro framed_rules framed_guard_abort framed_fs framed_retrying framed_send framed_put_multipart)

lemma framed_put_bytes [intro!]: "framed ps (s3_put_bytes dp cl key d abort)"
  unfolding s3_put_bytes_def by (intro framed_rules framed_guard_abort framed_send_checked)

lemma framed_delete [intro!]: "framed ps (s3_delete dp cl key abort)"
  unfolding s3_delete_def by (intro framed_rules framed_guard_abort framed_send_checked)

lemma framed_get_optional_text [intro!]: "framed ps (get_optional_text dp cl key n abort)"
  unfolding get_optional_text_def
  by (intro framed_rules framed_guard_abort framed_retrying framed_send)

lemma framed_list_from: "framed ps (list_from dp cl pre abort n token names)"
proof (induction n arbitrary: token names)
  case (Suc n)
  show ?case
    unfolding list_from.simps list_page_def
    by (intro framed_rules framed_guard_abort framed_send_checked Suc)
qed auto

lemma framed_list [intro!]: "framed ps (s3_list dp cl pre abort)"
  unfolding s3_list_def by (rule framed_list_from)

subsection \<open>Downloads\<close>

lemmas framed_temp = local_op_open_temp [OF singletonI, THEN local_op_framed]
  local_op_write_all [OF singletonI, THEN local_op_framed]

lemma framed_stream_body: "framed {tmp} (stream_body tmp ex abort got cs)"
proof (induction tmp ex abort got cs rule: stream_body.induct)
  case (3 tmp ex abort got b cs)
  show ?case
    unfolding stream_body.simps
    by (intro framed_rules framed_guard_abort framed_temp) (rule 3; assumption)
qed auto

lemma framed_attempt_once: "framed {tmp} (attempt_once dp cl key tmp ex abort final offset)"
  unfolding attempt_once_def receive_def finish_stream_def after_failure_def Let_def
  by (intro framed_rules framed_send framed_temp framed_stream_body framed_fs)

lemma framed_attempt [intro]:
  "(\<And>r. framed ps (f r)) \<Longrightarrow> (\<And>k. framed ps (g k)) \<Longrightarrow>
    framed ps (case x of Done r \<Rightarrow> f r | Again k \<Rightarrow> g k)"
  by (cases x) auto

lemma framed_attempts: "framed {tmp} (attempts dp cl key tmp ex abort n offset)"
proof (induction n arbitrary: offset)
  case 0
  show ?case
    unfolding attempts.simps by (intro framed_rules framed_attempt framed_attempt_once)
next
  case (Suc n)
  show ?case
    unfolding attempts.simps by (intro framed_rules framed_attempt framed_attempt_once Suc)
qed

lemma framed_get: "framed {path, part_of path} (s3_get dp cl key path ex abort)"
proof -
  have a: "framed {path, part_of path} (attempts dp cl key (part_of path) ex abort n offset)" for n offset
    by (rule framed_mono [OF framed_attempts]) simp
  have r: "framed {path, part_of path} (fs_rename (part_of path) path)"
    by (rule local_op_framed [OF local_op_rename]) simp_all
  have d: "framed {path, part_of path} (fs_remove (part_of path))"
    by (rule local_op_framed [OF local_op_remove]) simp
  show ?thesis
    unfolding s3_get_def resumed_offset_def staged_publish_def publish_def check_sha_def sha256_file_def cleanup_def
    by (intro framed_rules framed_guard_abort framed_fs a r d)
qed

end
