(* ===== verification/SyncSafety.thy ===== *)
theory SyncSafety
  imports SyncState S3Frames
begin

text \<open>
  What a pull may do to the data volume, whatever the bucket holds and whatever the service
  answers: it writes only files of the durable set and only where nothing was, and what it writes
  from a manifest has the manifest's hash and size.
\<close>

subsection \<open>The volume's own files stay\<close>

definition stays :: "string \<Rightarrow> inode \<Rightarrow> 'e world \<Rightarrow> bool" where
  "stays q x w \<longleftrightarrow> w_stat w = [] \<and> file_at w q = Some x"

lemma framed_stays: "framed ps m \<Longrightarrow> q \<notin> ps \<Longrightarrow> preserves (stays q x) m"
  by (rule preservesI) (auto simp: stays_def frame_def dest!: framedD)

lemma run_exists: "w_stat w = [] \<Longrightarrow> run_state (fs_exists p) w = (file_at w p \<noteq> None \<or> is_dir w p, w)"
  by (simp add: fs_exists_def)

text \<open>A step that is only taken where nothing exists leaves every existing file alone.\<close>

lemma fill_gap_stays:
  assumes m: "preserves (stays q x) m" and n: "framed {p, part_of p} n" and q: "q \<noteq> part_of p"
  shows "preserves (stays q x) (do { there \<leftarrow> fs_exists p; if there then m else n })"
proof (cases "p = q")
  case True
  show ?thesis
  proof (rule preservesI)
    fix w a v
    assume w: "stays q x w" and "run_state (do { there \<leftarrow> fs_exists p; if there then m else n }) w = (a, v)"
    then have "run_state m w = (a, v)"
      using True by (simp add: run_exists stays_def)
    with m w show "stays q x v"
      by (blast dest: preservesD)
  qed
next
  case False
  with q have "q \<notin> {p, part_of p}" by simp
  then have "preserves (stays q x) n" "preserves (stays q x) (fs_exists p)"
    using n by (auto intro: framed_stays local_op_framed local_op_exists)
  then show ?thesis
    using m by auto
qed

lemma framed_collect: "(\<And>x. framed ps (f x)) \<Longrightarrow> framed ps (collect f xs)"
  by (induction xs) auto

lemmas framed_queries = local_op_entries [THEN local_op_framed] local_op_is_file [THEN local_op_framed]
  local_op_is_dir [THEN local_op_framed] local_op_read_to_string [THEN local_op_framed]

definition parts :: "string set" where
  "parts = {q. suffix ''.part'' q}"

lemma framed_remove_partial: "suffix name path \<Longrightarrow> framed parts (remove_partial path name)"
  unfolding remove_partial_def
  by (intro framed_rules local_op_framed [OF local_op_remove])
    (auto simp: parts_def is_partial_def intro: suffix_order.trans)

lemma framed_clear_recursive: "framed parts (clear_recursive n dir)"
proof (induction n arbitrary: dir)
  case (Suc n)
  show ?case
    unfolding clear_recursive.simps
    by (intro framed_rules framed_collect Suc framed_remove_partial framed_queries) (auto simp: suffix_def)
qed auto

lemma framed_clear_partials: "framed parts (clear_partials root)"
  unfolding clear_partials_def clear_flat_def
  by (intro framed_rules framed_collect framed_clear_recursive framed_remove_partial framed_queries)
    (auto simp: suffix_def)

lemma framed_write_repair: "framed {repair_path root} (write_repair root rels)"
  unfolding write_repair_def
  by (intro framed_rules local_op_framed [OF local_op_remove] local_op_framed [OF local_op_write]) simp_all

lemma framed_check_entries: "framed ps (check_entries cfg root abort present es repair)"
proof (induction es arbitrary: repair)
  case (Cons e es)
  show ?case
    unfolding check_entries.simps check_entry_def
    by (intro framed_rules framed_fs Cons)
qed auto

lemma framed_read_repair: "framed ps (read_repair root)"
  unfolding read_repair_def by (intro framed_rules framed_queries)

lemma framed_load_manifest: "framed ps (load_manifest (client_store dp cl) cfg abort)"
  unfolding load_manifest_def client_store_simps by (intro framed_rules framed_get_optional_text)

lemma framed_pull_targets: "framed ps (pull_targets (client_store dp cl) cfg m abort)"
  unfolding pull_targets_def client_store_simps by (intro framed_rules framed_list)

lemma framed_fetch: "framed {local, part_of local} (fetch (client_store dp cl) cfg local abort t)"
  unfolding fetch_def client_store_simps by (intro framed_rules framed_get)

lemma part_suffix: "suffix ''.part'' (part_of p)"
  by (auto simp: part_of_def suffix_def)

lemma pull_one_stays:
  assumes "\<not> suffix ''.part'' q"
  shows "preserves (stays q x) (pull_one (client_store dp cl) cfg root abort t)"
proof -
  let ?p = "join root (tg_rel t)"
  have q: "q \<noteq> part_of ?p"
    using assms part_suffix by metis
  have n: "framed {?p, part_of ?p} (do {
          d \<leftarrow> fs_dir_op;
          case d of Inl _ \<Rightarrow> ret PullFailed
          | Inr _ \<Rightarrow> do {
              r \<leftarrow> fetch (client_store dp cl) cfg ?p abort t;
              ret (case r of Inl _ \<Rightarrow> PullFailed | Inr _ \<Rightarrow> Pulled) } })"
    by (intro framed_rules framed_fs framed_fetch)
  show ?thesis
    unfolding pull_one_def should_pull_def State_Monad.bind_assoc State_Monad.bind_left_identity if_not_P
    using fill_gap_stays [OF _ n q, of x "ret Kept"]
    by (auto simp: if_distrib cong: if_cong)
qed

lemma recover_one_stays:
  assumes "\<not> suffix ''.part'' q"
  shows "preserves (stays q x) (recover_one (client_store dp cl) cfg root abort rv)"
proof (cases rv)
  case (Pair rel v)
  let ?p = "join root rel"
  have q: "q \<noteq> part_of ?p"
    using assms part_suffix by metis
  show ?thesis
    unfolding recover_one_def Pair prod.case client_store_simps
    by (intro fill_gap_stays q framed_rules framed_fs framed_get preserves_return)
qed

lemma recover_all_stays:
  "\<not> suffix ''.part'' q \<Longrightarrow> preserves (stays q x) (recover_all (client_store dp cl) cfg root abort rvs)"
proof (induction rvs)
  case (Cons rv rvs)
  then show ?case
    unfolding recover_all.simps
    by (intro preserves_rules recover_one_stays framed_stays [OF framed_env_op, of q "{}"]) auto
qed auto

lemma pull_all_stays:
  "\<not> suffix ''.part'' q \<Longrightarrow> preserves (stays q x) (pull_all (client_store dp cl) cfg root abort ts ok)"
proof (induction ts arbitrary: ok)
  case (Cons t ts)
  then show ?case
    unfolding pull_all.simps
    by (intro preserves_rules pull_one_stays framed_stays [OF framed_env_op, of q "{}"]) auto
qed auto

lemma restore_stays:
  assumes q: "\<not> suffix ''.part'' q" "q \<noteq> repair_path ''/data''"
  shows "preserves (stays q x) (restore_state dp cfg abort)"
proof -
  have p: "q \<notin> parts" "q \<notin> {repair_path ''/data''}" "q \<notin> {}"
    using q by (simp_all add: parts_def)
  show ?thesis
    unfolding restore_state_def restore_with_def reconcile_objects_def reconcile_listed_def Let_def client_store_simps
    by (intro preserves_rules pull_all_stays recover_all_stays q
      framed_stays [OF framed_clear_partials p(1)] framed_stays [OF framed_load_manifest p(3)]
      framed_stays [OF framed_pull_targets p(3)] framed_stays [OF framed_list p(3)]
      framed_stays [OF framed_read_repair p(3)] framed_stays [OF framed_check_entries p(3)]
      framed_stays [OF framed_write_repair p(2)])
qed

subsection \<open>Nothing outside the durable set is written\<close>

definition may_write :: "sync_config \<Rightarrow> string set" where
  "may_write cfg = {join ''/data'' rel | rel. is_synced_file rel (sc_state_file cfg)} \<union> parts \<union>
     {repair_path ''/data''}"

lemma may_write_get: "is_synced_file rel (sc_state_file cfg) \<Longrightarrow>
    {join ''/data'' rel, part_of (join ''/data'' rel)} \<subseteq> may_write cfg"
  using part_suffix by (auto simp: may_write_def parts_def)

lemma framed_pull_all: "framed (may_write cfg) (pull_all (client_store dp cl) cfg ''/data'' abort ts ok)"
proof (induction ts arbitrary: ok)
  case (Cons t ts)
  show ?case
    unfolding pull_all.simps pull_one_def should_pull_def
    by (intro framed_rules framed_fs Cons framed_mono [OF framed_fetch may_write_get]) simp
qed auto

lemma framed_recover_all:
  "list_all (\<lambda>rv. is_synced_file (fst rv) (sc_state_file cfg)) rvs \<Longrightarrow>
    framed (may_write cfg) (recover_all (client_store dp cl) cfg ''/data'' abort rvs)"
proof (induction rvs)
  case (Cons rv rvs)
  obtain rel v where rv: "rv = (rel, v)" by (cases rv)
  with Cons.prems have "is_synced_file rel (sc_state_file cfg)" and
    rest: "framed (may_write cfg) (recover_all (client_store dp cl) cfg ''/data'' abort rvs)"
    using Cons.IH by simp_all
  note get = framed_mono [OF framed_get may_write_get [OF this(1)]]
  show ?case
    unfolding recover_all.simps recover_one_def client_store_simps rv prod.case
    by (intro framed_return framed_env_op framed_bind framed_if framed_sum framed_fs rest get)
qed auto

lemma add_version_keys: "fst ` set (add_version m rv) = insert (fst rv) (fst ` set m)"
  by (cases rv) (simp only: add_version_def prod.case bt_keys_insert fst_conv)

lemma foldl_add_keys: "fst ` set (foldl add_version m rvs) = fst ` set m \<union> fst ` set rvs"
  by (induction rvs arbitrary: m) (simp_all add: add_version_keys Un_commute)

lemma map_filter_set: "x \<in> set (List.map_filter f xs) \<longleftrightarrow> (\<exists>y \<in> set xs. f y = Some x)"
  by (induction xs) (auto simp: List.map_filter_def)

lemma choose_newest_keys: "fst ` set (choose_newest rvs) \<subseteq> fst ` set rvs"
proof -
  have "fst ` set (choose_newest rvs) \<subseteq> fst ` set (foldl add_version [] rvs)"
    by (force simp: choose_newest_def List.map_filter_def split: prod.splits)
  then show ?thesis
    by (simp add: foldl_add_keys)
qed

lemma candidate_synced: "candidate cfg m item = Some rv \<Longrightarrow> is_synced_file (fst rv) (sc_state_file cfg)"
  by (auto simp: candidate_def split: option.splits prod.splits if_splits)

lemma recovered_synced:
  "list_all (\<lambda>rv. is_synced_file (fst rv) (sc_state_file cfg)) (choose_newest (List.map_filter (candidate cfg m) ls))"
  unfolding list_all_iff
proof
  fix rv
  assume "rv \<in> set (choose_newest (List.map_filter (candidate cfg m) ls))"
  then have "fst rv \<in> fst ` set (List.map_filter (candidate cfg m) ls)"
    using choose_newest_keys by blast
  then obtain r item where "fst rv = fst r" "candidate cfg m item = Some r"
    by (auto simp: map_filter_set)
  then show "is_synced_file (fst rv) (sc_state_file cfg)"
    using candidate_synced by metis
qed

lemma restore_framed: "framed (may_write cfg) (restore_state dp cfg abort)"
proof -
  have sub: "parts \<subseteq> may_write cfg" "{repair_path ''/data''} \<subseteq> may_write cfg"
    by (auto simp: may_write_def)
  show ?thesis
    unfolding restore_state_def restore_with_def reconcile_objects_def reconcile_listed_def Let_def client_store_simps
    by (intro framed_rules framed_pull_all framed_recover_all recovered_synced framed_load_manifest
      framed_mono [OF framed_clear_partials sub(1)] framed_pull_targets framed_list framed_read_repair
      framed_check_entries framed_mono [OF framed_write_repair sub(2)])
qed

subsection \<open>What a pull publishes is verified\<close>

lemma fetch_ok: "hoare (\<lambda>_. True) (fetch (client_store dp cl) cfg local abort t)
    (on_ok (\<lambda>_ w. meets dp (expect_of (tg_size t) (tg_sha256 t)) (file_at w local)))"
  unfolding fetch_def client_store_simps
proof (rule hoare_bind [OF s3_get_ok], goal_cases)
  case (1 r)
  then show ?case
    by (cases r) (auto intro!: hoare_if hoare_pre [OF s3_get_ok] hoare_error hoare_return)
qed

lemma pull_one_ok: "hoare (\<lambda>_. True) (pull_one (client_store dp cl) cfg root abort t)
    (\<lambda>p w. p = Pulled \<longrightarrow> is_synced_file (tg_rel t) (sc_state_file cfg) \<and>
      meets dp (expect_of (tg_size t) (tg_sha256 t)) (file_at w (join root (tg_rel t))))"
proof (cases "is_synced_file (tg_rel t) (sc_state_file cfg)")
  case True
  have f: "hoare (\<lambda>_. True) (do {
        r \<leftarrow> fetch (client_store dp cl) cfg (join root (tg_rel t)) abort t;
        ret (case r of Inl _ \<Rightarrow> PullFailed | Inr _ \<Rightarrow> Pulled) })
      (\<lambda>p w. p = Pulled \<longrightarrow> meets dp (expect_of (tg_size t) (tg_sha256 t)) (file_at w (join root (tg_rel t))))"
    by (rule hoare_bind [OF fetch_ok]) (auto intro!: hoare_return simp: on_ok_def split: sum.splits)
  have any: "hoare (\<lambda>_. True) m (\<lambda>_ _. True)" for m :: "('b world, 'c) state"
    by (simp add: hoare_def split: prod.split)
  show ?thesis
    unfolding pull_one_def should_pull_def
    using True by (auto intro!: hoare_bind [OF any] hoare_if hoare_sum f hoare_return)
qed (simp add: pull_one_def hoare_return)

subsection \<open>What a push writes\<close>

definition push_files_of :: "string \<Rightarrow> string set" where
  "push_files_of root = {repair_path root, shadow_path root, CACHE_PATH}"

lemma framed_cache_save: "framed {CACHE_PATH} (cache_save c)"
  unfolding cache_save_def
  by (intro framed_rules local_op_framed [OF local_op_write] local_op_framed [OF local_op_make_private]) simp_all

lemma framed_shadow: "framed {shadow_path root} (store_shadow root m)" "framed {shadow_path root} (remove_shadow root)"
  unfolding store_shadow_def remove_shadow_def
  by (intro framed_rules local_op_framed [OF local_op_write] local_op_framed [OF local_op_remove]; simp)+

lemma framed_metadata: "framed ps (fs_metadata p)"
  unfolding fs_metadata_def by (intro framed_rules local_op_framed [OF local_op_next_fault])

lemma framed_sha256_file: "framed ps (sha256_file dp p)"
  unfolding sha256_file_def by (intro framed_rules framed_fs)

lemma framed_push_all: "framed ps (push_all dp (client_store dp cl) cfg root pub abort rels st)"
proof (induction rels arbitrary: st)
  case (Cons r rels)
  show ?case
    unfolding push_all.simps push_one_def push_changed_def client_store_simps
    by (intro framed_rules framed_metadata framed_sha256_file framed_put Cons)
qed auto

lemma framed_remote_only: "framed ps (remote_only_files (client_store dp cl) cfg root abort)"
  unfolding remote_only_files_def client_store_simps missing_rel_def
  by (intro framed_rules framed_list framed_collect framed_fs)

lemma sync_framed: "framed (push_files_of ''/data'') (sync_state dp cfg abort)"
proof -
  let ?W = "push_files_of ''/data''"
  have w: "{repair_path ''/data''} \<subseteq> ?W" "{shadow_path ''/data''} \<subseteq> ?W" "{CACHE_PATH} \<subseteq> ?W"
    by (auto simp: push_files_of_def)
  have pub: "framed ?W (publish_manifest (client_store dp cl) cfg ''/data'' pub abort ps)" for cl pub ps
    unfolding publish_manifest_def store_manifest_def client_store_simps
    by (intro framed_rules framed_put_bytes framed_mono [OF framed_shadow(1) w(2)] framed_mono [OF framed_shadow(2) w(2)])
  have fin: "framed ?W (finish_push ''/data'' files ps)" for files ps
    unfolding finish_push_def
    by (intro framed_rules framed_mono [OF framed_write_repair w(1)] framed_mono [OF framed_cache_save w(3)])
  have loads: "framed ?W cache_load" "framed ?W (load_shadow ''/data'')"
    unfolding cache_load_def load_shadow_def by (intro framed_rules framed_queries)+
  show ?thesis
    unfolding sync_state_def sync_with_def push_files_def may_publish_def base_manifest_def Let_def
    by (intro framed_rules framed_load_manifest framed_remote_only framed_read_repair framed_push_all pub fin loads
      local_op_framed [OF local_op_local_synced_files])
qed

end
