(* ===== verification/Maintenance.thy ===== *)
theory Maintenance
  imports Poll BackupTick SyncSafety
begin

text \<open>
  \<open>runtime/maintenance.rs\<close>: the reactor thread with its periodic tasks and final flushes, and
  the wait of the main thread for it. The token's flags, the command channel and the state of the
  thread are parameters. The loops that only a command or the thread's end stop carry fuel, and
  the lemmas hold for every amount.
\<close>

subsection \<open>Tasks\<close>

definition BACKUP_FIRST_DELAY :: nat where "BACKUP_FIRST_DELAY = 60000"
definition SYNC_FIRST_DELAY :: nat where "SYNC_FIRST_DELAY = 60000"
definition SYNC_TIMEOUT :: nat where "SYNC_TIMEOUT = 60000"
definition DRAIN_POLL :: nat where "DRAIN_POLL = 100"

record 'e task =
  ta_name :: string
  ta_first_delay :: nat
  ta_cadence :: "nat option"
  ta_run :: "'e abort \<Rightarrow> ('e world, unit) state"
  ta_finish :: "('e abort \<Rightarrow> ('e world, unit) state) option"

definition backup_task :: "'e tools \<Rightarrow> backup_config \<Rightarrow> 'e task" where
  "backup_task tt cfg = \<lparr>ta_name = ''db backup'', ta_first_delay = BACKUP_FIRST_DELAY,
     ta_cadence = Some (1000 * unat (bc_interval cfg)), ta_run = tick tt cfg, ta_finish = Some (tick tt cfg)\<rparr>"

definition push_once :: "'e deps \<Rightarrow> sync_config \<Rightarrow> 'e abort \<Rightarrow> ('e world, unit) state" where
  "push_once dp cfg abort = do { sync_state dp cfg abort; ret () }"

definition sync_task :: "'e deps \<Rightarrow> sync_config \<Rightarrow> 'e task" where
  "sync_task dp cfg = \<lparr>ta_name = ''state sync'', ta_first_delay = SYNC_FIRST_DELAY,
     ta_cadence = (if sc_interval cfg = 0 then None else Some (1000 * unat (sc_interval cfg))),
     ta_run = push_once dp cfg, ta_finish = Some (push_once dp cfg)\<rparr>"

subsection \<open>The reactor\<close>

datatype reactor_wait = Drain nat nat | WaitTimeout | Closed

record 'e reactor_os =
  ro_clock :: "'e clock"
  ro_stopping :: "'e abort"
  ro_forced :: "'e abort"
  ro_recv :: "nat option \<Rightarrow> 'e \<Rightarrow> reactor_wait \<times> 'e"
  ro_finished :: "'e abort"
  ro_request_stop :: "'e \<Rightarrow> unit \<times> 'e"
  ro_force :: "'e \<Rightarrow> unit \<times> 'e"
  ro_send :: "nat \<Rightarrow> nat \<Rightarrow> 'e \<Rightarrow> unit \<times> 'e"

type_synonym 'e schedule = "('e task \<times> nat option) list"

primrec first_due :: "'e reactor_os \<Rightarrow> 'e task list \<Rightarrow> ('e world, 'e schedule) state" where
  "first_due ro [] = ret []"
| "first_due ro (t # ts) = do {
     d \<leftarrow> (case ta_cadence t of None \<Rightarrow> ret None
       | Some _ \<Rightarrow> do { now \<leftarrow> env_op (ck_now (ro_clock ro)); ret (Some (now + ta_first_delay t)) });
     rest \<leftarrow> first_due ro ts;
     ret ((t, d) # rest) }"

definition next_due :: "'e reactor_os \<Rightarrow> 'e task \<Rightarrow> ('e world, nat option) state" where
  "next_due ro t = (case ta_cadence t of None \<Rightarrow> ret None
     | Some c \<Rightarrow> do { now \<leftarrow> env_op (ck_now (ro_clock ro)); ret (Some (now + c)) })"

text \<open>One turn: each due task gets its next due time and, unless a stop was observed, runs.\<close>

primrec fire_due :: "'e reactor_os \<Rightarrow> nat \<Rightarrow> 'e schedule \<Rightarrow> ('e world, 'e schedule) state" where
  "fire_due ro now [] = ret []"
| "fire_due ro now (td # tds) =
     (case snd td of
       Some at \<Rightarrow>
         if at \<le> now then do {
           d \<leftarrow> next_due ro (fst td);
           stop \<leftarrow> env_op (ro_stopping ro);
           (if stop then ret () else ta_run (fst td) (ro_stopping ro));
           rest \<leftarrow> fire_due ro now tds;
           ret ((fst td, d) # rest) }
         else do { rest \<leftarrow> fire_due ro now tds; ret (td # rest) }
     | None \<Rightarrow> do { rest \<leftarrow> fire_due ro now tds; ret (td # rest) })"

definition earliest :: "'e schedule \<Rightarrow> nat option" where
  "earliest tds = (case List.map_filter snd tds of [] \<Rightarrow> None | d # ds \<Rightarrow> Some (fold min ds d))"

definition flush_abort :: "'e reactor_os \<Rightarrow> nat \<Rightarrow> nat \<Rightarrow> 'e abort" where
  "flush_abort ro deadline forced_deadline e = (case ck_now (ro_clock ro) e of (now, e1) \<Rightarrow>
     (case ro_forced ro e1 of (forced, e2) \<Rightarrow>
       ((if forced then forced_deadline else deadline) \<le> now, e2)))"

primrec flush_each :: "'e abort \<Rightarrow> 'e task list \<Rightarrow> ('e world, unit) state" where
  "flush_each abort [] = ret ()"
| "flush_each abort (t # ts) = (case ta_finish t of None \<Rightarrow> flush_each abort ts
     | Some finish \<Rightarrow> do {
         late \<leftarrow> env_op abort;
         (if late then ret () else finish abort);
         flush_each abort ts })"

definition flush :: "'e reactor_os \<Rightarrow> 'e task list \<Rightarrow> nat \<Rightarrow> nat \<Rightarrow> ('e world, unit) state" where
  "flush ro tasks budget forced_budget = do {
     now \<leftarrow> env_op (ck_now (ro_clock ro));
     forced_now \<leftarrow> env_op (ck_now (ro_clock ro));
     flush_each (flush_abort ro (now + budget) (forced_now + forced_budget)) tasks }"

primrec reactor_loop :: "nat \<Rightarrow> 'e reactor_os \<Rightarrow> 'e schedule \<Rightarrow> ('e world, unit) state" where
  "reactor_loop 0 ro tds = ret ()"
| "reactor_loop (Suc n) ro tds = do {
     now \<leftarrow> env_op (ck_now (ro_clock ro));
     tds \<leftarrow> fire_due ro now tds;
     timeout \<leftarrow> (case earliest tds of None \<Rightarrow> ret None
       | Some at \<Rightarrow> do { now \<leftarrow> env_op (ck_now (ro_clock ro)); ret (Some (at - now)) });
     cmd \<leftarrow> env_op (ro_recv ro timeout);
     case cmd of Drain budget forced_budget \<Rightarrow> flush ro (map fst tds) budget forced_budget
     | WaitTimeout \<Rightarrow> reactor_loop n ro tds
     | Closed \<Rightarrow> ret () }"

definition reactor_run :: "nat \<Rightarrow> 'e reactor_os \<Rightarrow> 'e task list \<Rightarrow> ('e world, unit) state" where
  "reactor_run n ro tasks = do { tds \<leftarrow> first_due ro tasks; reactor_loop n ro tds }"

subsection \<open>The drain\<close>

definition drain_bound :: "nat \<Rightarrow> nat \<Rightarrow> nat option \<Rightarrow> nat" where
  "drain_bound hard_stop forced_budget forced_at = (case forced_at of
     Some at \<Rightarrow> at + forced_budget + SYNC_TIMEOUT | None \<Rightarrow> hard_stop)"

text \<open>\<open>Some True\<close>: joined; \<open>Some False\<close>: left behind at the bound; \<open>None\<close>: fuel.\<close>

primrec drain_loop :: "nat \<Rightarrow> 'e reactor_os \<Rightarrow> nat \<Rightarrow> nat \<Rightarrow> 'e abort \<Rightarrow> nat option \<Rightarrow> ('e world, bool option) state" where
  "drain_loop 0 ro hard_stop forced_budget hurry forced_at = ret None"
| "drain_loop (Suc n) ro hard_stop forced_budget hurry forced_at = do {
     fin \<leftarrow> env_op (ro_finished ro);
     if fin then ret (Some True)
     else do {
       h \<leftarrow> env_op hurry;
       (if h then env_op (ro_force ro) else ret ());
       forced \<leftarrow> env_op (ro_forced ro);
       forced_at \<leftarrow> (if forced \<and> forced_at = None
         then do { now \<leftarrow> env_op (ck_now (ro_clock ro)); ret (Some now) } else ret forced_at);
       now \<leftarrow> env_op (ck_now (ro_clock ro));
       if drain_bound hard_stop forced_budget forced_at \<le> now then ret (Some False)
       else do {
         env_op (ck_sleep (ro_clock ro) DRAIN_POLL);
         drain_loop n ro hard_stop forced_budget hurry forced_at } } }"

definition drain_with :: "nat \<Rightarrow> 'e reactor_os \<Rightarrow> nat \<Rightarrow> nat \<Rightarrow> 'e abort \<Rightarrow> ('e world, bool option) state" where
  "drain_with n ro budget forced_budget hurry = do {
     env_op (ro_request_stop ro);
     env_op (ro_send ro budget forced_budget);
     now \<leftarrow> env_op (ck_now (ro_clock ro));
     drain_loop n ro (now + budget + SYNC_TIMEOUT) forced_budget hurry None }"

subsection \<open>No periodic work after a stop\<close>

text \<open>
  \<open>stopped e\<close> describes the environments in which the monotonic flag is set: it reads as set
  and no operation of the reactor clears it.
\<close>

definition stop_sticks :: "'e reactor_os \<Rightarrow> ('e \<Rightarrow> bool) \<Rightarrow> bool" where
  "stop_sticks ro stopped \<longleftrightarrow> (\<forall>e. stopped e \<longrightarrow> fst (ro_stopping ro e) \<and> stopped (snd (ro_stopping ro e)) \<and>
     stopped (snd (ck_now (ro_clock ro) e)))"

lemma sticks:
  assumes "stop_sticks ro stopped" "stopped e"
  shows "fst (ro_stopping ro e)" "stopped (snd (ro_stopping ro e))" "stopped (snd (ck_now (ro_clock ro) e))"
  using assms unfolding stop_sticks_def by blast+

lemma run_next_due:
  assumes "stop_sticks ro stopped" "stopped (w_env w)" "run_state (next_due ro t) w = (d, v)"
  shows "stopped (w_env v)"
  using assms(3) assms(2) sticks(3) [OF assms(1,2)]
  by (cases "ta_cadence t") (auto simp: next_due_def run_env_op)

lemma run_stopping:
  assumes "stop_sticks ro stopped" "stopped (w_env w)" "run_state (env_op (ro_stopping ro)) w = (b, v)"
  shows "b \<and> stopped (w_env v)"
  using assms(3) sticks(1,2) [OF assms(1,2)] by (auto simp: run_env_op)

definition idle_task :: "'e task \<Rightarrow> 'e task" where
  "idle_task t = t\<lparr>ta_run := \<lambda>_. ret ()\<rparr>"

lemma idle_next_due [simp]: "next_due ro (idle_task t) = next_due ro t"
  by (simp add: next_due_def idle_task_def)

text \<open>Once the stop is observed, a turn does what it would do if no task had any work.\<close>

lemma fire_due_stopped:
  assumes "stop_sticks ro stopped"
  shows "stopped (w_env w) \<Longrightarrow> run_state (fire_due ro now (map (map_prod idle_task id) tds)) w =
     map_prod (map (map_prod idle_task id)) id (run_state (fire_due ro now tds) w)"
proof (induction tds arbitrary: w)
  case (Cons td tds)
  obtain t d where td: "td = (t, d)" by (cases td)
  show ?case
  proof (cases "\<exists>at. d = Some at \<and> at \<le> now")
    case True
    then obtain at where at: "d = Some at" "at \<le> now" by blast
    obtain d' u where u: "run_state (next_due ro t) w = (d', u)" by fastforce
    obtain b v where v: "run_state (env_op (ro_stopping ro)) u = (b, v)" by fastforce
    have "b" "stopped (w_env v)"
      using run_stopping [OF assms run_next_due [OF assms Cons.prems u] v] by simp_all
    with Cons.IH [of v] show ?thesis
      by (simp add: td at u v split: prod.split)
  next
    case False
    then show ?thesis
      using Cons.IH [OF Cons.prems] by (auto simp: td split: option.split prod.split)
  qed
qed simp

subsection \<open>The flush\<close>

definition done_task :: "'e task \<Rightarrow> 'e task" where
  "done_task t = t\<lparr>ta_finish := map_option (\<lambda>_ _. ret ()) (ta_finish t)\<rparr>"

text \<open>Once the deadlines have passed, a flush does what it would do if no task had anything to flush.\<close>

lemma flush_each_late:
  assumes "\<And>e. late e \<Longrightarrow> fst (abort e) \<and> late (snd (abort e))"
  shows "late (w_env w) \<Longrightarrow> run_state (flush_each abort (map done_task ts)) w = run_state (flush_each abort ts) w"
proof (induction ts arbitrary: w)
  case (Cons t ts)
  have "fst (abort (w_env w))" "late (snd (abort (w_env w)))"
    using assms Cons.prems by blast+
  then show ?case
    using Cons.IH Cons.prems by (auto simp: done_task_def run_env_op split: option.split)
qed simp

lemma flush_abort_late:
  assumes "clock_ok (ro_clock ro) t" "\<And>e. t e \<le> t (snd (ro_forced ro e))"
    and "max deadline forced_deadline \<le> t e"
  shows "fst (flush_abort ro deadline forced_deadline e) \<and>
    max deadline forced_deadline \<le> t (snd (flush_abort ro deadline forced_deadline e))"
proof -
  have "t e \<le> fst (ck_now (ro_clock ro) e)" "fst (ck_now (ro_clock ro) e) \<le> t (snd (ck_now (ro_clock ro) e))"
    using assms(1) by (auto simp: clock_ok_def)
  with assms(2) [of "snd (ck_now (ro_clock ro) e)"] assms(3) show ?thesis
    by (auto simp: flush_abort_def split: prod.split)
qed

text \<open>What every task and every call keeps, the reactor keeps.\<close>

definition reactor_keeps :: "('e world \<Rightarrow> bool) \<Rightarrow> 'e reactor_os \<Rightarrow> 'e task list \<Rightarrow> bool" where
  "reactor_keeps I ro tasks \<longleftrightarrow> preserves I (env_op (ck_now (ro_clock ro))) \<and> preserves I (env_op (ro_stopping ro)) \<and>
     preserves I (env_op (ro_forced ro)) \<and> (\<forall>d. preserves I (env_op (ro_recv ro d))) \<and>
     (\<forall>t \<in> set tasks. \<forall>abort. preserves I (ta_run t abort) \<and> (\<forall>f. ta_finish t = Some f \<longrightarrow> preserves I (f abort)))"

lemma flush_abort_keeps:
  assumes "preserves I (env_op (ck_now (ro_clock ro)))" "preserves I (env_op (ro_forced ro))"
  shows "preserves I (env_op (flush_abort ro d f))"
proof -
  have "env_op (flush_abort ro d f) = do { now \<leftarrow> env_op (ck_now (ro_clock ro)); forced \<leftarrow> env_op (ro_forced ro);
      ret ((if forced then f else d) \<le> now) }"
    by (simp add: env_op_def flush_abort_def State_Monad.bind_def State_Monad.return_def fun_eq_iff split: prod.split)
  then show ?thesis
    using assms by (auto intro!: preserves_rules)
qed

lemma fire_due_keeps:
  assumes "reactor_keeps I ro (map fst tds)"
  shows "hoare I (fire_due ro now tds) (\<lambda>r w. I w \<and> map fst r = map fst tds)"
  using assms
proof (induction tds)
  case (Cons td tds)
  have rest: "hoare I (fire_due ro now tds) (\<lambda>r w. I w \<and> map fst r = map fst tds)"
    using Cons by (simp add: reactor_keeps_def)
  have fin: "hoare I (do { rest \<leftarrow> fire_due ro now tds; ret ((fst td, d) # rest) }) (\<lambda>r w. I w \<and> map fst r = map fst (td # tds))" for d
    by (rule hoare_bind [OF rest], rule hoare_return) simp
  have skip: "hoare I (do { rest \<leftarrow> fire_due ro now tds; ret (td # rest) }) (\<lambda>r w. I w \<and> map fst r = map fst (td # tds))"
    using fin [of "snd td"] by simp
  have due: "preserves I (next_due ro (fst td))" "preserves I (env_op (ro_stopping ro))" "preserves I (ta_run (fst td) (ro_stopping ro))"
    using Cons.prems by (auto simp: reactor_keeps_def next_due_def intro!: preserves_rules)
  have go: "hoare I (do { d \<leftarrow> next_due ro (fst td); stop \<leftarrow> env_op (ro_stopping ro);
      (if stop then ret () else ta_run (fst td) (ro_stopping ro));
      rest \<leftarrow> fire_due ro now tds; ret ((fst td, d) # rest) }) (\<lambda>r w. I w \<and> map fst r = map fst (td # tds))"
    by (intro hoare_keep [OF due(1)] hoare_keep [OF due(2)] hoare_keep [OF preserves_if [OF preserves_return due(3)]] fin)
  show ?case
    using skip go by (cases td; cases "snd td") auto
qed (simp add: hoare_return)

lemma flush_keeps:
  assumes "reactor_keeps I ro ts"
  shows "preserves I (flush ro ts budget forced_budget)"
proof -
  have ab: "preserves I (env_op (flush_abort ro d f))" for d f
    using assms by (auto simp: reactor_keeps_def intro: flush_abort_keeps)
  have "preserves I (flush_each (flush_abort ro d f) ts)" for d f
    using assms
  proof (induction ts)
    case (Cons t ts)
    have "reactor_keeps I ro ts" and fin: "\<And>f abort. ta_finish t = Some f \<Longrightarrow> preserves I (f abort)"
      using Cons.prems by (auto simp: reactor_keeps_def)
    then show ?case
      using Cons.IH by (auto intro!: preserves_rules ab split: option.split)
  qed auto
  then show ?thesis
    using assms unfolding flush_def by (auto simp: reactor_keeps_def intro!: preserves_rules)
qed

lemma reactor_loop_keeps:
  assumes "reactor_keeps I ro (map fst tds)"
  shows "preserves I (reactor_loop n ro tds)"
  using assms
proof (induction n arbitrary: tds)
  case (Suc n)
  have now: "preserves I (env_op (ck_now (ro_clock ro)))" and recv: "\<And>d. preserves I (env_op (ro_recv ro d))"
    using Suc.prems by (simp_all add: reactor_keeps_def)
  have wait: "preserves I (do {
     timeout \<leftarrow> (case earliest r of None \<Rightarrow> ret None
       | Some at \<Rightarrow> do { now \<leftarrow> env_op (ck_now (ro_clock ro)); ret (Some (at - now)) });
     cmd \<leftarrow> env_op (ro_recv ro timeout);
     case cmd of Drain budget forced_budget \<Rightarrow> flush ro (map fst r) budget forced_budget
     | WaitTimeout \<Rightarrow> reactor_loop n ro r | Closed \<Rightarrow> ret () })" if "map fst r = map fst tds" for r
    using Suc.IH [of r] Suc.prems that
    by (auto intro!: preserves_rules now recv flush_keeps split: reactor_wait.split)
  show ?case
    unfolding reactor_loop.simps preserves_def
    by (intro hoare_keep [OF now] hoare_bind [OF fire_due_keeps [OF Suc.prems]])
      (use wait in \<open>auto simp: preserves_def hoare_def\<close>)
qed auto

subsection \<open>The drain ends\<close>

definition drain_ops_onward :: "'e reactor_os \<Rightarrow> 'e abort \<Rightarrow> ('e \<Rightarrow> nat) \<Rightarrow> bool" where
  "drain_ops_onward ro hurry t \<longleftrightarrow> clock_ok (ro_clock ro) t \<and> (\<forall>e. t e \<le> t (snd (ro_finished ro e))) \<and>
     (\<forall>e. t e \<le> t (snd (hurry e))) \<and> (\<forall>e. t e \<le> t (snd (ro_force ro e))) \<and> (\<forall>e. t e \<le> t (snd (ro_forced ro e)))"

text \<open>A round: it ends, or it goes on later with a bound that is fixed once it is forced.\<close>

lemma drain_round:
  assumes "drain_ops_onward ro hurry t"
  obtains r v where "run_state (drain_loop (Suc n) ro hs fb hurry fa) w = (Some r, v)"
    | v fa' where "run_state (drain_loop (Suc n) ro hs fb hurry fa) w = run_state (drain_loop n ro hs fb hurry fa') v"
      "t (w_env w) + DRAIN_POLL \<le> t (w_env v)" "t (w_env w) < drain_bound hs fb fa'"
      "fa' = fa \<or> (fa = None \<and> (\<exists>at. fa' = Some at \<and> at + DRAIN_POLL \<le> t (w_env v)))"
proof -
  have ck: "clock_ok (ro_clock ro) t"
    using assms by (simp add: drain_ops_onward_def)
  obtain f w1 where f: "run_state (env_op (ro_finished ro)) w = (f, w1)" by fastforce
  obtain h w2 where h: "run_state (env_op hurry) w1 = (h, w2)" by fastforce
  obtain w3 where u: "run_state (if h then env_op (ro_force ro) else ret ()) w2 = ((), w3)"
    by (cases "run_state (if h then env_op (ro_force ro) else ret ()) w2") auto
  obtain fc w4 where c: "run_state (env_op (ro_forced ro)) w3 = (fc, w4)" by fastforce
  obtain fa' w5 where a: "run_state (if fc \<and> fa = None then do { now \<leftarrow> env_op (ck_now (ro_clock ro)); ret (Some now) } else ret fa) w4 = (fa', w5)"
    by fastforce
  obtain k w6 where k: "run_state (env_op (ck_now (ro_clock ro))) w5 = (k, w6)" by fastforce
  obtain w7 where s: "run_state (env_op (ck_sleep (ro_clock ro) DRAIN_POLL)) w6 = ((), w7)"
    by (cases "run_state (env_op (ck_sleep (ro_clock ro) DRAIN_POLL)) w6") auto
  have early: "t (w_env w) \<le> t (w_env w4)"
  proof -
    have "t (w_env w) \<le> t (w_env w1)" "t (w_env w1) \<le> t (w_env w2)" "t (w_env w3) \<le> t (w_env w4)"
      using assms f h c by (auto simp: drain_ops_onward_def run_env_op)
    moreover have "t (w_env w2) \<le> t (w_env w3)"
      using assms u by (cases h) (auto simp: drain_ops_onward_def run_env_op)
    ultimately show ?thesis by simp
  qed
  have fa: "t (w_env w4) \<le> t (w_env w5)" "fa' = fa \<or> (fa = None \<and> (\<exists>at. fa' = Some at \<and> at \<le> t (w_env w5)))"
    using a clock_now [OF ck] by (auto split: if_splits prod.splits) (meson le_trans)
  note times = early fa(1) clock_now [OF ck k] clock_sleep [OF ck s]
  have run: "run_state (drain_loop (Suc n) ro hs fb hurry fa) w =
    (if f then (Some True, w1) else if drain_bound hs fb fa' \<le> k then (Some False, w6)
     else run_state (drain_loop n ro hs fb hurry fa') w7)"
    by (subst drain_loop.simps) (simp add: f h u c a k s)
  show ?thesis
  proof (cases "f \<or> drain_bound hs fb fa' \<le> k")
    case True
    then show ?thesis
      using run that(1) by (auto split: if_splits)
  next
    case False
    have ft: "t (w_env w) + DRAIN_POLL \<le> t (w_env w7)" "t (w_env w) < drain_bound hs fb fa'"
      using False times by simp_all
    have "fa' = fa \<or> (fa = None \<and> (\<exists>at. fa' = Some at \<and> at + DRAIN_POLL \<le> t (w_env w7)))"
      using fa(2) times by auto
    then show ?thesis
      using False run ft that(2) by auto
  qed
qed

lemma drain_forced_ends:
  assumes "drain_ops_onward ro hurry t"
  shows "at + fb + SYNC_TIMEOUT \<le> t (w_env w) + n * DRAIN_POLL \<Longrightarrow>
    fst (run_state (drain_loop (Suc n) ro hs fb hurry (Some at)) w) \<noteq> None"
proof (induction n arbitrary: w)
  case (0 w)
  show ?case
    by (rule drain_round [OF assms, where n = 0 and hs = hs and fb = fb and fa = "Some at" and w = w])
      (use 0 in \<open>auto simp: drain_bound_def\<close>)
next
  case (Suc n w)
  show ?case
  proof (rule drain_round [OF assms, where n = "Suc n" and hs = hs and fb = fb and fa = "Some at" and w = w])
    fix v fa'
    assume run: "run_state (drain_loop (Suc (Suc n)) ro hs fb hurry (Some at)) w = run_state (drain_loop (Suc n) ro hs fb hurry fa') v"
      and "t (w_env w) + DRAIN_POLL \<le> t (w_env v)"
      and "fa' = Some at \<or> (Some at = None \<and> (\<exists>at'. fa' = Some at' \<and> at' + DRAIN_POLL \<le> t (w_env v)))"
    then have "fa' = Some at" "at + fb + SYNC_TIMEOUT \<le> t (w_env v) + n * DRAIN_POLL"
      using Suc.prems by simp_all
    with Suc.IH [of v] run show ?thesis by (simp del: drain_loop.simps)
  qed (simp del: drain_loop.simps)
qed

lemma drain_ends:
  assumes "drain_ops_onward ro hurry t" and K: "fb + SYNC_TIMEOUT \<le> Suc K * DRAIN_POLL"
  shows "hs \<le> t (w_env w) + n * DRAIN_POLL \<Longrightarrow>
    fst (run_state (drain_loop (Suc (n + Suc K)) ro hs fb hurry None) w) \<noteq> None"
proof (induction n arbitrary: w)
  case (0 w)
  show ?case
  proof (rule drain_round [OF assms(1), where n = "Suc K" and hs = hs and fb = fb and fa = None and w = w])
    fix v fa'
    assume run: "run_state (drain_loop (Suc (Suc K)) ro hs fb hurry None) w = run_state (drain_loop (Suc K) ro hs fb hurry fa') v"
      and *: "t (w_env w) + DRAIN_POLL \<le> t (w_env v)" "t (w_env w) < drain_bound hs fb fa'"
        "fa' = None \<or> (None = None \<and> (\<exists>at. fa' = Some at \<and> at + DRAIN_POLL \<le> t (w_env v)))"
    then obtain at where at: "fa' = Some at" "at + DRAIN_POLL \<le> t (w_env v)"
      using 0 by (auto simp: drain_bound_def)
    have "at + fb + SYNC_TIMEOUT \<le> t (w_env v) + K * DRAIN_POLL"
      using at(2) K by simp
    from drain_forced_ends [OF assms(1) this] run at show ?thesis
      by (simp del: drain_loop.simps)
  qed (simp del: drain_loop.simps)
next
  case (Suc n w)
  show ?case
  proof (rule drain_round [OF assms(1), where n = "Suc (n + Suc K)" and hs = hs and fb = fb and fa = None and w = w])
    fix v fa'
    assume run: "run_state (drain_loop (Suc (Suc (n + Suc K))) ro hs fb hurry None) w = run_state (drain_loop (Suc (n + Suc K)) ro hs fb hurry fa') v"
      and *: "t (w_env w) + DRAIN_POLL \<le> t (w_env v)"
        "fa' = None \<or> (None = None \<and> (\<exists>at. fa' = Some at \<and> at + DRAIN_POLL \<le> t (w_env v)))"
    from *(2) consider "fa' = None" | at where "fa' = Some at" "at + DRAIN_POLL \<le> t (w_env v)" by auto
    then show ?thesis
    proof cases
      case 1
      with run *(1) Suc.prems Suc.IH [of v] show ?thesis by (simp del: drain_loop.simps)
    next
      case 2
      have "at + fb + SYNC_TIMEOUT \<le> t (w_env v) + (n + Suc K) * DRAIN_POLL"
        using 2(2) K by (simp add: algebra_simps)
      from drain_forced_ends [OF assms(1) this] run 2 show ?thesis
        by (simp del: drain_loop.simps)
    qed
  qed (simp del: drain_loop.simps)
qed

text \<open>Enough rounds for the whole drain: the hard bound, and a hurry-up in its last round.\<close>

lemma drain_with_ends:
  assumes on: "drain_ops_onward ro hurry t" and n: "budget + SYNC_TIMEOUT \<le> n * DRAIN_POLL"
    and K: "fb + SYNC_TIMEOUT \<le> Suc K * DRAIN_POLL"
  shows "fst (run_state (drain_with (Suc (n + Suc K)) ro budget fb hurry) w) \<noteq> None"
proof -
  obtain w1 where a: "run_state (env_op (ro_request_stop ro)) w = ((), w1)"
    by (cases "run_state (env_op (ro_request_stop ro)) w") auto
  obtain w2 where b: "run_state (env_op (ro_send ro budget fb)) w1 = ((), w2)"
    by (cases "run_state (env_op (ro_send ro budget fb)) w1") auto
  obtain now w3 where c: "run_state (env_op (ck_now (ro_clock ro))) w2 = (now, w3)"
    by (cases "run_state (env_op (ck_now (ro_clock ro))) w2")
  have "clock_ok (ro_clock ro) t"
    using on by (simp add: drain_ops_onward_def)
  then have "now + budget + SYNC_TIMEOUT \<le> t (w_env w3) + n * DRAIN_POLL"
    using clock_now [OF _ c] n by fastforce
  from drain_ends [OF on K this] show ?thesis
    unfolding drain_with_def by (simp add: a b c del: drain_loop.simps)
qed

text \<open>A hurry-up close to the hard stop moves the bound past it.\<close>

lemma late_hurry_extends: "hard_stop < at + forced_budget + SYNC_TIMEOUT \<Longrightarrow>
    drain_bound hard_stop forced_budget None < drain_bound hard_stop forced_budget (Some at)"
  by (simp add: drain_bound_def)

end
