(* ===== verification/BackupRestore.thy ===== *)
theory BackupRestore
  imports BackupCycle S3Frames
begin

text \<open>
  \<open>runtime/backup/restore.rs\<close> with the import of \<open>runtime/backup/sqlite/restore.rs\<close>: the boot-time
  restore of an empty database and the adoption of a lineage. The lemmas show that a database that
  holds tables is never touched, and that whatever is published as the live database passed the
  integrity check and is owner-only.
\<close>

subsection \<open>Import\<close>

datatype import_error = InvalidDump | LocalFailure

text \<open>The text \<open>PRAGMA integrity_check\<close> (or its failure) gives for the staged copy.\<close>

definition integrity :: "'e tools \<Rightarrow> string \<Rightarrow> ('e world, string) state" where
  "integrity tt staged = do {
     d \<leftarrow> gets (\<lambda>w. data_at w staged);
     case d of None \<Rightarrow> ret ''cannot open'' | Some d \<Rightarrow> env_op (tl_integrity tt d) }"

text \<open>A live path that is there is cleared only when it is proven empty.\<close>

definition clear_live :: "'e tools \<Rightarrow> string \<Rightarrow> ('e world, import_error + unit) state" where
  "clear_live tt path = do {
     there \<leftarrow> fs_exists path;
     if \<not> there then ret (Inr ())
     else do {
       e \<leftarrow> is_empty tt path;
       case e of
         Inr True \<Rightarrow> do {
           r \<leftarrow> fs_remove path;
           ret (case r of Inl _ \<Rightarrow> Inl LocalFailure | Inr _ \<Rightarrow> Inr ()) }
       | Inr False \<Rightarrow> ret (Inl LocalFailure)
       | Inl _ \<Rightarrow> ret (Inl LocalFailure) } }"

definition publish_db :: "string \<Rightarrow> string \<Rightarrow> ('e world, import_error + unit) state" where
  "publish_db staged path = do {
     r \<leftarrow> fs_hard_link staged path;
     case r of Inl _ \<Rightarrow> ret (Inl LocalFailure)
     | Inr _ \<Rightarrow> do {
         fs_remove staged;
         fs_remove (path @ ''-wal'');
         fs_remove (path @ ''-shm'');
         ret (Inr ()) } }"

definition sqlite_import :: "'e tools \<Rightarrow> string \<Rightarrow> string \<Rightarrow> ('e world, import_error + unit) state" where
  "sqlite_import tt staged path = do {
     check \<leftarrow> integrity tt staged;
     if check \<noteq> ''ok'' then ret (Inl InvalidDump)
     else do {
       p \<leftarrow> make_private staged;
       case p of Inl _ \<Rightarrow> ret (Inl LocalFailure)
       | Inr _ \<Rightarrow> do {
           c \<leftarrow> clear_live tt path;
           case c of Inl e \<Rightarrow> ret (Inl e) | Inr _ \<Rightarrow> publish_db staged path } } }"

subsection \<open>Candidates\<close>

record backup_candidate =
  cd_key :: string
  cd_size :: u64
  cd_generation :: "u64 option"

definition legacy_candidates :: "'e store \<Rightarrow> backup_config \<Rightarrow> 'e abort \<Rightarrow>
    ('e world, backup_error + backup_candidate list) state" where
  "legacy_candidates st cfg abort = do {
     r \<leftarrow> list_objects st cfg abort;
     ret (case r of Inl e \<Rightarrow> Inl e
       | Inr listed \<Rightarrow> Inr (map (\<lambda>(name, n). \<lparr>cd_key = backup_prefix cfg @ name, cd_size = n,
           cd_generation = None\<rparr>) (rev listed))) }"

definition manifest_candidates :: "backup_config \<Rightarrow> generations \<Rightarrow> backup_candidate list" where
  "manifest_candidates cfg es = map (\<lambda>e. \<lparr>cd_key = backup_prefix cfg @ gn_name e, cd_size = gn_size e,
     cd_generation = Some (gn_generation e)\<rparr>) (newest_first es)"

definition backup_candidates :: "'e store \<Rightarrow> backup_config \<Rightarrow> 'e abort \<Rightarrow>
    ('e world, backup_error + backup_candidate list) state" where
  "backup_candidates st cfg abort = do {
     m \<leftarrow> load_generations st cfg abort;
     case m of
       Inr (Some es) \<Rightarrow> ret (Inr (manifest_candidates cfg es))
     | Inr None \<Rightarrow> legacy_candidates st cfg abort
     | Inl _ \<Rightarrow> legacy_candidates st cfg abort }"

subsection \<open>The restore\<close>

datatype restore_attempt = Imported | NotUsable | AttemptFailed

datatype restore_outcome = Ready | RestoreFailed | RestoreAborted

definition base_name :: "string \<Rightarrow> string" where
  "base_name key = (case rsplit_once (CHR ''/'') key of None \<Rightarrow> key | Some (_, n) \<Rightarrow> n)"

definition record_lineage :: "backup_config \<Rightarrow> backup_candidate \<Rightarrow> ('e world, unit) state" where
  "record_lineage cfg c = (case cd_generation c of
     Some g \<Rightarrow> lineage_write (bc_db_path cfg) g
   | None \<Rightarrow> lineage_write_name (bc_db_path cfg) (base_name (cd_key c)))"

definition restore_staged :: "backup_config \<Rightarrow> string" where
  "restore_staged cfg = bc_staging cfg @ ''/restore-'' @ db_label"

definition restore_expect :: "backup_candidate \<Rightarrow> expect" where
  "restore_expect c = \<lparr>ex_size = Some (unat (cd_size c)), ex_sha256 = None, ex_max = MAX_DB_OBJECT_BYTES\<rparr>"

definition restore_object :: "'e tools \<Rightarrow> 'e store \<Rightarrow> backup_config \<Rightarrow> 'e abort \<Rightarrow> backup_candidate \<Rightarrow>
    ('e world, restore_attempt) state" where
  "restore_object tt st cfg abort c = do {
     clean \<leftarrow> sweep_staging (bc_staging cfg);
     if \<not> clean then ret AttemptFailed
     else do {
       r \<leftarrow> st_get st (cd_key c) (restore_staged cfg) (restore_expect c) abort;
       case r of Inl _ \<Rightarrow> ret AttemptFailed
       | Inr _ \<Rightarrow> do {
           i \<leftarrow> sqlite_import tt (restore_staged cfg) (bc_db_path cfg);
           fs_remove (restore_staged cfg);
           case i of
             Inr _ \<Rightarrow> do { record_lineage cfg c; ret Imported }
           | Inl InvalidDump \<Rightarrow> ret NotUsable
           | Inl LocalFailure \<Rightarrow> ret AttemptFailed } } }"

primrec restore_first :: "'e tools \<Rightarrow> 'e store \<Rightarrow> backup_config \<Rightarrow> 'e abort \<Rightarrow> backup_candidate list \<Rightarrow>
    ('e world, restore_outcome) state" where
  "restore_first tt st cfg abort [] = ret RestoreFailed"
| "restore_first tt st cfg abort (c # cs) = do {
     stop \<leftarrow> env_op abort;
     if stop then ret RestoreAborted
     else do {
       a \<leftarrow> restore_object tt st cfg abort c;
       case a of
         Imported \<Rightarrow> ret Ready
       | NotUsable \<Rightarrow> restore_first tt st cfg abort cs
       | AttemptFailed \<Rightarrow> do {
           stop' \<leftarrow> env_op abort;
           ret (if stop' then RestoreAborted else RestoreFailed) } } }"

definition restore_from :: "'e tools \<Rightarrow> 'e store \<Rightarrow> backup_config \<Rightarrow> 'e abort \<Rightarrow>
    ('e world, restore_outcome) state" where
  "restore_from tt st cfg abort = do {
     cs \<leftarrow> backup_candidates st cfg abort;
     case cs of
       Inl _ \<Rightarrow> do { stop \<leftarrow> env_op abort; ret (if stop then RestoreAborted else RestoreFailed) }
     | Inr cs \<Rightarrow> if cs = [] then ret Ready else restore_first tt st cfg abort cs }"

definition restore_if_empty :: "'e tools \<Rightarrow> backup_config \<Rightarrow> 'e abort \<Rightarrow> ('e world, restore_outcome) state" where
  "restore_if_empty tt cfg abort = (if \<not> bc_restore cfg then ret Ready else do {
     e \<leftarrow> is_empty tt (bc_db_path cfg);
     case e of
       Inl _ \<Rightarrow> ret RestoreFailed
     | Inr False \<Rightarrow> ret Ready
     | Inr True \<Rightarrow> (case connect (tl_deps tt) (sc_target (bc_sync cfg)) of
         Inl _ \<Rightarrow> ret Ready
       | Inr cl \<Rightarrow> restore_from tt (client_store (tl_deps tt) cl) cfg abort) })"

text \<open>The adoption of the bucket's newest generation by a database that is not empty.\<close>

definition adopt_from :: "'e store \<Rightarrow> backup_config \<Rightarrow> 'e abort \<Rightarrow> ('e world, unit) state" where
  "adopt_from st cfg abort = do {
     m \<leftarrow> load_generations st cfg abort;
     case m of Inl _ \<Rightarrow> ret ()
     | Inr m \<Rightarrow>
         if m \<noteq> None \<and> m \<noteq> Some [] then lineage_write (bc_db_path cfg) (latest (the m))
         else do {
           l \<leftarrow> list_objects st cfg abort;
           case l of Inl _ \<Rightarrow> ret ()
           | Inr listed \<Rightarrow> if listed = [] then ret ()
               else lineage_write_name (bc_db_path cfg) (fst (last listed)) } }"

definition adopt_lineage :: "'e tools \<Rightarrow> backup_config \<Rightarrow> 'e abort \<Rightarrow> ('e world, unit) state" where
  "adopt_lineage tt cfg abort = (if \<not> bc_restore cfg then ret () else do {
     e \<leftarrow> is_empty tt (bc_db_path cfg);
     if e \<noteq> Inr False then ret ()
     else case connect (tl_deps tt) (sc_target (bc_sync cfg)) of
       Inl _ \<Rightarrow> ret ()
     | Inr cl \<Rightarrow> adopt_from (client_store (tl_deps tt) cl) cfg abort })"

subsection \<open>A database that holds tables stays\<close>

text \<open>The live database and its write-ahead log, as long as the existence checks answer.\<close>

definition db_kept :: "string \<Rightarrow> inode \<Rightarrow> inode option \<Rightarrow> 'e world \<Rightarrow> bool" where
  "db_kept p x y w \<longleftrightarrow> w_stat w = [] \<and> file_at w p = Some x \<and> file_at w (p @ ''-wal'') = y"

definition holds_tables :: "'e tools \<Rightarrow> inode \<Rightarrow> inode option \<Rightarrow> bool" where
  "holds_tables tt x y \<longleftrightarrow> (\<forall>e. fst (tl_count tt (f_data x) (map_option f_data y) e) \<noteq> Some 0)"

definition below :: "string \<Rightarrow> string set" where
  "below d = {q. prefix (d @ ''/'') q}"

lemma below_wal: "p @ ''-wal'' \<in> below d \<Longrightarrow> p \<in> below d"
proof -
  assume "p @ ''-wal'' \<in> below d"
  then obtain r where r: "p @ ''-wal'' = d @ CHR ''/'' # r"
    by (auto simp: below_def prefix_def)
  then consider s where "p = d @ CHR ''/'' # s" | s where "''-wal'' = s @ CHR ''/'' # r"
    by (auto simp: append_eq_append_conv2 append_eq_Cons_conv)
  then show ?thesis
  proof cases
    case 2
    then have "CHR ''/'' \<in> set ''-wal''"
      by (simp only: set_append) simp
    then show ?thesis by simp
  qed (simp add: below_def)
qed

lemma framed_db_kept: "framed ps m \<Longrightarrow> p \<notin> ps \<Longrightarrow> p @ ''-wal'' \<notin> ps \<Longrightarrow> preserves (db_kept p x y) m"
  by (rule preservesI) (auto simp: db_kept_def frame_def dest!: framedD)

lemma framed_below: "framed (below d) m \<Longrightarrow> p \<notin> below d \<Longrightarrow> preserves (db_kept p x y) m"
  using below_wal by (blast intro: framed_db_kept)

lemma framed_sweep_entries: "framed (below d) (sweep_entries d names)"
proof (induction names)
  case (Cons n ns)
  have "q \<in> below d" if "prefix ((d @ ''/'' @ n) @ ''/'') q" for q
    using that by (auto simp: below_def prefix_def)
  then have "framed (below d) (fs_remove_dir_all (d @ ''/'' @ n))"
    by (intro local_op_framed local_op_remove_dir_all)
  moreover have "framed (below d) (fs_remove (d @ ''/'' @ n))"
    by (intro local_op_framed local_op_remove) (simp add: below_def)
  ultimately show ?case
    unfolding sweep_entries.simps
    by (intro framed_rules Cons local_op_is_dir [THEN local_op_framed])
qed auto

lemma framed_sweep_staging: "framed (below d) (sweep_staging d)"
  unfolding sweep_staging_def fs_read_made_dir_def
  by (intro framed_rules framed_fs framed_sweep_entries)

lemma staged_below: "restore_staged cfg \<in> below (bc_staging cfg)" "part_of (restore_staged cfg) \<in> below (bc_staging cfg)"
  by (simp_all add: restore_staged_def below_def part_of_def)

lemma framed_restore_get: "framed (below (bc_staging cfg)) (s3_get dp cl key (restore_staged cfg) ex abort)"
  by (rule framed_mono [OF framed_get]) (simp add: staged_below)

lemma is_empty_kept:
  assumes "holds_tables tt x y"
  shows "hoare (db_kept p x y) (is_empty tt p) (\<lambda>r w. r \<noteq> Inr True \<and> db_kept p x y w)"
proof (rule hoareI)
  fix w r v
  assume k: "db_kept p x y w" and run: "run_state (is_empty tt p) w = (r, v)"
  obtain c e where c: "tl_count tt (f_data x) (map_option f_data y) (w_env w) = (c, e)"
    by fastforce
  with assms have "c \<noteq> Some 0"
    by (auto simp: holds_tables_def dest: spec [of _ "w_env w"])
  with k run c show "r \<noteq> Inr True \<and> db_kept p x y v"
    by (auto simp: is_empty_def fs_exists_def db_files_def data_at_def db_kept_def env_op_def split: option.splits)
qed

lemma clear_live_kept:
  assumes "holds_tables tt x y"
  shows "hoare (db_kept p x y) (clear_live tt p) (\<lambda>r w. r = Inl LocalFailure \<and> db_kept p x y w)"
proof -
  have "hoare (db_kept p x y) (fs_exists p) (\<lambda>b w. b \<and> db_kept p x y w)"
    by (rule hoareI) (auto simp: fs_exists_def db_kept_def)
  then show ?thesis
    unfolding clear_live_def
  proof (rule hoare_bind)
    fix b
    have "hoare (db_kept p x y) (do { e \<leftarrow> is_empty tt p; case e of
         Inr True \<Rightarrow> do { r \<leftarrow> fs_remove p; ret (case r of Inl _ \<Rightarrow> Inl LocalFailure | Inr _ \<Rightarrow> Inr ()) }
       | Inr False \<Rightarrow> ret (Inl LocalFailure) | Inl _ \<Rightarrow> ret (Inl LocalFailure) })
      (\<lambda>r w. r = Inl LocalFailure \<and> db_kept p x y w)"
      by (rule hoare_bind [OF is_empty_kept [OF assms]])
        (auto simp: hoare_def split: sum.split bool.split)
    then show "hoare (\<lambda>w. b \<and> db_kept p x y w) (if \<not> b then ret (Inr ()) else do { e \<leftarrow> is_empty tt p; case e of
         Inr True \<Rightarrow> do { r \<leftarrow> fs_remove p; ret (case r of Inl _ \<Rightarrow> Inl LocalFailure | Inr _ \<Rightarrow> Inr ()) }
       | Inr False \<Rightarrow> ret (Inl LocalFailure) | Inl _ \<Rightarrow> ret (Inl LocalFailure) })
      (\<lambda>r w. r = Inl LocalFailure \<and> db_kept p x y w)"
      by (auto simp: hoare_def)
  qed
qed

lemma integrity_framed: "framed ps (integrity tt s)"
  unfolding integrity_def by (intro framed_rules)

lemma import_kept:
  fixes tt :: "'e tools"
  assumes "holds_tables tt x y" "framed ps (make_private s :: ('e world, io_error + unit) state)" "p \<notin> ps" "p @ ''-wal'' \<notin> ps"
  shows "hoare (db_kept p x y) (sqlite_import tt s p) (\<lambda>r w. r \<noteq> Inr () \<and> db_kept p x y w)"
proof -
  have go: "hoare (db_kept p x y) (do { c \<leftarrow> clear_live tt p; case c of Inl e \<Rightarrow> ret (Inl e) | Inr _ \<Rightarrow> publish_db s p })
      (\<lambda>r w. r \<noteq> Inr () \<and> db_kept p x y w)"
    by (rule hoare_bind [OF clear_live_kept [OF assms(1)]]) (auto simp: hoare_def split: sum.split)
  have stop: "hoare (db_kept p x y) (ret (Inl e)) (\<lambda>r w. r \<noteq> Inr () \<and> db_kept p x y w)" for e
    by (simp add: hoare_return)
  show ?thesis
    unfolding sqlite_import_def
    by (intro hoare_keep [OF framed_db_kept [OF integrity_framed [of "{}"]]] hoare_if stop
      hoare_keep [OF framed_db_kept [OF assms(2-4)]] hoare_sum go) simp_all
qed

lemma after_import_kept:
  assumes rm: "preserves P (fs_remove s)"
  shows "hoare (\<lambda>w. i \<noteq> Inr () \<and> P w) (do {
           fs_remove s;
           case i of
             Inr _ \<Rightarrow> do { record_lineage cfg c; ret Imported }
           | Inl InvalidDump \<Rightarrow> ret NotUsable
           | Inl LocalFailure \<Rightarrow> ret AttemptFailed }) (\<lambda>_. P)"
proof (cases i)
  case (Inl e)
  have "hoare P (do { fs_remove s; case e of InvalidDump \<Rightarrow> ret NotUsable | LocalFailure \<Rightarrow> ret AttemptFailed }) (\<lambda>_. P)"
    by (rule hoare_keep [OF rm]) (cases e; simp add: hoare_return)
  then show ?thesis
    by (simp add: Inl)
qed (simp add: hoare_def)

lemma restore_object_kept:
  fixes tt :: "'e tools"
  assumes tables: "holds_tables tt x y" and apart: "bc_db_path cfg \<notin> below (bc_staging cfg)"
  shows "preserves (db_kept (bc_db_path cfg) x y) (restore_object tt (client_store dp cl) cfg abort c)"
proof -
  have mp: "framed (below (bc_staging cfg)) (make_private (restore_staged cfg) :: ('e world, io_error + unit) state)"
    by (intro local_op_framed local_op_make_private staged_below)
  have rm: "preserves (db_kept (bc_db_path cfg) x y) (fs_remove (restore_staged cfg) :: ('e world, io_error + unit) state)"
    by (rule framed_below [OF local_op_framed [OF local_op_remove [OF staged_below(1)]] apart])
  have wal: "bc_db_path cfg @ ''-wal'' \<notin> below (bc_staging cfg)"
    using apart below_wal by blast
  show ?thesis
    unfolding preserves_def restore_object_def client_store_simps
    by (intro hoare_keep [OF framed_below [OF framed_sweep_staging apart]] hoare_if hoare_return hoare_sum
      hoare_keep [OF framed_below [OF framed_restore_get apart]]
      hoare_bind [OF import_kept [OF tables mp apart wal]] after_import_kept [OF rm])
qed

lemma restore_first_kept:
  assumes "holds_tables tt x y" "bc_db_path cfg \<notin> below (bc_staging cfg)"
  shows "preserves (db_kept (bc_db_path cfg) x y) (restore_first tt (client_store dp cl) cfg abort cs)"
proof (induction cs)
  case (Cons c cs)
  have env: "preserves (db_kept (bc_db_path cfg) x y) (env_op f)" for f :: "'a \<Rightarrow> bool \<times> 'a"
    by (rule framed_below [OF framed_env_op assms(2)])
  show ?case
    unfolding restore_first.simps
    by (intro preserves_bind preserves_if preserves_return env restore_object_kept [OF assms])
      (auto intro!: preserves_bind env Cons split: restore_attempt.split)
qed auto

lemma framed_load_generations: "framed ps (load_generations (client_store dp cl) cfg abort)"
  unfolding load_generations_def client_store_simps by (intro framed_rules framed_get_optional_text)

lemma framed_list_objects: "framed ps (list_objects (client_store dp cl) cfg abort)"
  unfolding list_objects_def client_store_simps by (intro framed_rules framed_list)

lemma framed_backup_candidates: "framed ps (backup_candidates (client_store dp cl) cfg abort)"
  unfolding backup_candidates_def legacy_candidates_def
  by (intro framed_rules framed_load_generations framed_list_objects)

lemma restore_kept:
  assumes "holds_tables tt x y" "bc_db_path cfg \<notin> below (bc_staging cfg)"
  shows "preserves (db_kept (bc_db_path cfg) x y) (restore_if_empty tt cfg abort)"
proof -
  note keep = framed_below [OF _ assms(2)]
  have ie: "preserves (db_kept (bc_db_path cfg) x y) (is_empty tt (bc_db_path cfg))"
    unfolding is_empty_def db_files_def by (intro keep framed_rules framed_fs)
  have run: "preserves (db_kept (bc_db_path cfg) x y) (restore_from tt (client_store (tl_deps tt) cl) cfg abort)" for cl
    unfolding restore_from_def
    by (intro preserves_rules keep [OF framed_backup_candidates] keep [OF framed_env_op] restore_first_kept [OF assms])
  show ?thesis
    unfolding restore_if_empty_def
    by (intro preserves_if preserves_bind ie preserves_return) (auto intro!: run split: sum.split bool.split)
qed

subsection \<open>What is published\<close>

definition verified :: "'e tools \<Rightarrow> inode option \<Rightarrow> bool" where
  "verified tt x \<longleftrightarrow> (\<exists>i e. x = Some i \<and> f_private i \<and> fst (tl_integrity tt (f_data i) e) = ''ok'')"

definition intact :: "'e tools \<Rightarrow> inode option \<Rightarrow> bool" where
  "intact tt x \<longleftrightarrow> (\<exists>i e. x = Some i \<and> fst (tl_integrity tt (f_data i) e) = ''ok'')"

lemma integrity_ok: "hoare P (integrity tt s) (\<lambda>c w. c = ''ok'' \<longrightarrow> intact tt (file_at w s))"
  by (rule hoareI)
    (auto simp: integrity_def intact_def data_at_def env_op_def split: option.splits prod.splits, metis fst_conv)

lemma make_private_ok: "hoare (on_file s (intact tt)) (make_private s) (on_ok (\<lambda>_. on_file s (verified tt)))"
  by (rule hoareI)
    (auto simp: make_private_def intact_def verified_def dest!: run_next_fault split: prod.splits if_splits option.splits)

lemma hard_link_ok: "hoare (\<lambda>w. on_file s P w \<and> on_file p R w) (fs_hard_link s p)
    (\<lambda>r w. case r of Inl _ \<Rightarrow> on_file p R w | Inr _ \<Rightarrow> on_file p P w)"
  by (rule hoareI)
    (auto simp: fs_hard_link_def dest!: run_next_fault split: prod.splits if_splits option.splits)

lemma remove_other: "q \<noteq> p \<Longrightarrow> preserves (on_file q P) (fs_remove p)"
  by (rule local_preserves_file [OF local_op_remove [OF singletonI]]) simp

lemma clear_live_before: "preserves (on_file p (as_before b)) (clear_live tt p)"
proof -
  have rm: "preserves (on_file p (as_before b)) (fs_remove p)"
    by (rule preservesI)
      (auto simp: fs_remove_def as_before_def dest!: run_next_fault split: prod.splits if_splits option.splits)
  have fr: "framed {} (fs_exists p)" "framed {} (is_empty tt p)"
    unfolding is_empty_def db_files_def by (intro framed_rules framed_fs)+
  show ?thesis
    unfolding clear_live_def
    by (intro preserves_rules framed_preserves [OF fr(1)] framed_preserves [OF fr(2)])
      (auto intro!: preserves_rules rm split: bool.split)
qed

lemma framed_clear_live: "framed {p} (clear_live tt p)"
proof -
  have e: "framed {p} (is_empty tt p)"
    unfolding is_empty_def db_files_def by (intro framed_rules framed_fs)
  show ?thesis
    unfolding clear_live_def
    by (intro framed_rules framed_fs e) (auto intro!: framed_rules local_op_framed [OF local_op_remove] split: bool.split)
qed

lemma publish_db_ok: "s \<noteq> p \<Longrightarrow>
    hoare (\<lambda>w. on_file s (verified tt) w \<and> on_file p (as_before b) w) (publish_db s p)
     (\<lambda>r w. case r of Inl _ \<Rightarrow> on_file p (as_before b) w | Inr _ \<Rightarrow> on_file p (verified tt) w)"
  unfolding publish_db_def
proof (rule hoare_bind [OF hard_link_ok], goal_cases)
  case (1 r)
  have "hoare (on_file p (verified tt)) (do { fs_remove s; fs_remove (p @ ''-wal''); fs_remove (p @ ''-shm''); ret (Inr ()) })
      (\<lambda>r w. case r of Inl _ \<Rightarrow> on_file p (as_before b) w | Inr _ \<Rightarrow> on_file p (verified tt) w)"
    by (intro hoare_keep [OF remove_other] hoare_return) (use 1 in auto)
  then show ?case
    by (cases r) (auto intro: hoare_return)
qed

lemma import_ok:
  assumes "s \<noteq> p"
  shows "hoare (on_file p (as_before b)) (sqlite_import tt s p)
     (\<lambda>r w. case r of Inl _ \<Rightarrow> on_file p (as_before b) w | Inr _ \<Rightarrow> on_file p (verified tt) w)"
  (is "hoare ?B _ ?Q")
proof -
  have stop: "hoare P (ret (Inl e)) ?Q" if "\<And>w. P w \<Longrightarrow> ?B w" for P e
    by (rule hoare_return) (simp add: that)
  have clear: "hoare (\<lambda>w. on_file s (verified tt) w \<and> ?B w) (do {
      c \<leftarrow> clear_live tt p; case c of Inl e \<Rightarrow> ret (Inl e) | Inr _ \<Rightarrow> publish_db s p }) ?Q"
    by (intro hoare_keep [OF preserves_conj [OF framed_preserves [OF framed_clear_live] clear_live_before]]
      hoare_sum stop publish_db_ok) (use assms in auto)
  have priv: "hoare (\<lambda>w. on_file s (intact tt) w \<and> ?B w) (make_private s)
      (\<lambda>r w. on_ok (\<lambda>_. on_file s (verified tt)) r w \<and> ?B w)"
    by (rule hoare_both [OF local_preserves_file [OF local_op_make_private [OF singletonI], where P = "as_before b"] make_private_ok [of tt s]])
      (use assms in auto)
  have mid: "hoare (\<lambda>w. on_file s (intact tt) w \<and> ?B w) (do {
      m \<leftarrow> make_private s; case m of Inl _ \<Rightarrow> ret (Inl LocalFailure)
      | Inr _ \<Rightarrow> do { c \<leftarrow> clear_live tt p; case c of Inl e \<Rightarrow> ret (Inl e) | Inr _ \<Rightarrow> publish_db s p } }) ?Q"
  proof (rule hoare_bind [OF priv])
    fix m :: "io_error + unit"
    show "hoare (\<lambda>w. on_ok (\<lambda>_. on_file s (verified tt)) m w \<and> ?B w) (case m of Inl _ \<Rightarrow> ret (Inl LocalFailure)
      | Inr _ \<Rightarrow> do { c \<leftarrow> clear_live tt p; case c of Inl e \<Rightarrow> ret (Inl e) | Inr _ \<Rightarrow> publish_db s p }) ?Q"
      using clear by (cases m) (simp_all add: stop)
  qed
  have chk: "hoare ?B (integrity tt s) (\<lambda>c w. (c = ''ok'' \<longrightarrow> intact tt (file_at w s)) \<and> ?B w)"
    by (rule hoare_both [OF framed_preserves [OF integrity_framed [of "{}"], where P = "as_before b"] integrity_ok [of "\<lambda>_. True"]]) auto
  show ?thesis
    unfolding sqlite_import_def
  proof (rule hoare_bind [OF chk])
    fix c
    show "hoare (\<lambda>w. (c = ''ok'' \<longrightarrow> intact tt (file_at w s)) \<and> ?B w) (if c \<noteq> ''ok'' then ret (Inl InvalidDump) else do {
      m \<leftarrow> make_private s; case m of Inl _ \<Rightarrow> ret (Inl LocalFailure)
      | Inr _ \<Rightarrow> do { c \<leftarrow> clear_live tt p; case c of Inl e \<Rightarrow> ret (Inl e) | Inr _ \<Rightarrow> publish_db s p } }) ?Q"
      using mid by (cases "c = ''ok''") (simp_all add: stop)
  qed
qed

definition restored :: "'e tools \<Rightarrow> string \<Rightarrow> inode option \<Rightarrow> bool \<Rightarrow> 'e world \<Rightarrow> bool" where
  "restored tt p b done w \<longleftrightarrow> (if done then verified tt (file_at w p) else as_before b (file_at w p))"

lemma not_restored: "restored tt p b False = on_file p (as_before b)"
  by (rule ext) (simp add: restored_def)

lemma framed_record_lineage: "framed {sidecar_path (bc_db_path cfg)} (record_lineage cfg c)"
  unfolding record_lineage_def lineage_write_def lineage_write_name_def lineage_write_text_def
  by (intro framed_rules local_op_framed [OF local_op_write] local_op_framed [OF local_op_make_private]) simp_all

lemma restore_object_ok:
  assumes apart: "bc_db_path cfg \<notin> below (bc_staging cfg)" "bc_db_path cfg \<noteq> sidecar_path (bc_db_path cfg)"
  shows "hoare (on_file (bc_db_path cfg) (as_before b)) (restore_object tt (client_store dp cl) cfg abort c)
     (\<lambda>a. restored tt (bc_db_path cfg) b (a = Imported))"
proof -
  let ?p = "bc_db_path cfg" and ?s = "restore_staged cfg"
  have ne: "?s \<noteq> ?p"
    using apart staged_below by metis
  have fail: "hoare (on_file ?p (as_before b)) (ret AttemptFailed) (\<lambda>a. restored tt ?p b (a = Imported))"
    by (rule hoare_return) (simp add: restored_def)
  have lin: "preserves (on_file ?p (verified tt)) (record_lineage cfg c)"
    by (rule framed_preserves [OF framed_record_lineage]) (use apart in simp)
  have imp: "hoare (on_file ?p (as_before b)) (do {
           i \<leftarrow> sqlite_import tt ?s ?p; fs_remove ?s;
           case i of
             Inr _ \<Rightarrow> do { record_lineage cfg c; ret Imported }
           | Inl InvalidDump \<Rightarrow> ret NotUsable
           | Inl LocalFailure \<Rightarrow> ret AttemptFailed }) (\<lambda>a. restored tt ?p b (a = Imported))"
  proof (rule hoare_bind [OF import_ok [OF ne]])
    fix i :: "import_error + unit"
    have good: "hoare (on_file ?p (verified tt)) (do { fs_remove ?s; record_lineage cfg c; ret Imported })
        (\<lambda>a. restored tt ?p b (a = Imported))"
      by (intro hoare_keep [OF remove_other [OF ne [symmetric]]] hoare_keep [OF lin] hoare_return)
        (simp add: restored_def)
    have bad: "hoare (on_file ?p (as_before b)) (do { fs_remove ?s; case e of InvalidDump \<Rightarrow> ret NotUsable | LocalFailure \<Rightarrow> ret AttemptFailed })
        (\<lambda>a. restored tt ?p b (a = Imported))" for e
      by (intro hoare_keep [OF remove_other [OF ne [symmetric]]]) (cases e; simp add: hoare_return restored_def)
    show "hoare (\<lambda>w. case i of Inl _ \<Rightarrow> on_file ?p (as_before b) w | Inr _ \<Rightarrow> on_file ?p (verified tt) w) (do {
           fs_remove ?s;
           case i of
             Inr _ \<Rightarrow> do { record_lineage cfg c; ret Imported }
           | Inl InvalidDump \<Rightarrow> ret NotUsable
           | Inl LocalFailure \<Rightarrow> ret AttemptFailed }) (\<lambda>a. restored tt ?p b (a = Imported))"
      using good bad by (cases i) simp_all
  qed
  show ?thesis
    unfolding restore_object_def client_store_simps
    by (intro hoare_keep [OF framed_preserves [OF framed_sweep_staging apart(1)]] hoare_if hoare_sum imp fail
      hoare_keep [OF framed_preserves [OF framed_restore_get apart(1)]])
qed

lemma restore_first_ok:
  assumes "bc_db_path cfg \<notin> below (bc_staging cfg)" "bc_db_path cfg \<noteq> sidecar_path (bc_db_path cfg)"
  shows "hoare (on_file (bc_db_path cfg) (as_before b)) (restore_first tt (client_store dp cl) cfg abort cs)
     (\<lambda>r. restored tt (bc_db_path cfg) b (r = Ready))"
proof (induction cs)
  case (Cons c cs)
  let ?p = "bc_db_path cfg"
  have env: "preserves (on_file ?p P) (env_op f)" for P and f :: "'a \<Rightarrow> bool \<times> 'a"
    by (rule framed_preserves [OF framed_env_op, of _ "{}"]) simp
  have step: "hoare (restored tt ?p b (a = Imported)) (case a of Imported \<Rightarrow> ret Ready
       | NotUsable \<Rightarrow> restore_first tt (client_store dp cl) cfg abort cs
       | AttemptFailed \<Rightarrow> do { stop' \<leftarrow> env_op abort; ret (if stop' then RestoreAborted else RestoreFailed) })
      (\<lambda>r. restored tt ?p b (r = Ready))" for a
    using Cons by (cases a) (auto simp: not_restored intro!: hoare_return hoare_keep [OF env])
  then show ?case
    unfolding restore_first.simps
    by (intro hoare_keep [OF env] hoare_if hoare_bind [OF restore_object_ok [OF assms]] step)
      (rule hoare_return, simp add: restored_def)
qed (simp add: hoare_return restored_def)

subsection \<open>A failed existence check\<close>

text \<open>
  \<open>Path::exists\<close> reports a failed \<open>stat\<close> as absence, and \<open>is_empty\<close> takes absence for
  emptiness. When the check inside \<open>is_empty\<close> fails after the outer one succeeded, the live
  database is removed whatever it holds.
\<close>

lemma clear_live_removes:
  assumes "w_stat w = [False, True]" "w_faults w = []" "file_at w p = Some x"
  shows "file_at (snd (run_state (clear_live tt p) w)) p = None \<and> fst (run_state (clear_live tt p) w) = Inr ()"
  using assms
  by (simp add: clear_live_def fs_exists_def is_empty_def fs_remove_def next_fault_def)

end
