(* ===== verification/Supervisor.thy ===== *)
theory Supervisor
  imports Signals Services Gate Maintenance BackupRestore
begin

text \<open>
  \<open>boot.rs\<close>, \<open>main.rs\<close>, \<open>runtime/process/watch.rs\<close> and the waiting side of
  \<open>util/net.rs\<close>: the boot as a sequence of phases, the watch loop over the vault and
  \<open>tailscaled\<close>, and the ordered shutdown. A run is the container's exit code, or \<open>None\<close>
  while the watch loop still runs (its rounds are fuel).
\<close>

record 'e daemon =
  dm_start :: "string \<Rightarrow> 'e \<Rightarrow> unit \<times> 'e"  \<comment> \<open>the worker that connects to the socket\<close>
  dm_recv :: "'e \<Rightarrow> unit option \<times> 'e"
  dm_stop :: "'e \<Rightarrow> unit \<times> 'e"

record 'e supervisor =
  su_os :: "'e os"
  su_tools :: "'e tools"
  su_net :: "'e net"
  su_daemon :: "'e daemon"
  su_reactor :: "'e reactor_os"
  su_dotenvy :: "string \<Rightarrow> dot_item list"
  su_var :: env_lookup
  su_register :: "nat \<Rightarrow> 'e \<Rightarrow> bool \<times> 'e"  \<comment> \<open>\<open>signal_hook::flag::register\<close>\<close>
  su_start_gate :: "u16 \<Rightarrow> 'e \<Rightarrow> unit \<times> 'e"
  su_start_reactor :: "'e \<Rightarrow> bool \<times> 'e"
  su_idle :: "'e abort"
  su_idle_wait :: "nat \<Rightarrow> 'e \<Rightarrow> unit \<times> 'e"

definition AUTH_TIMEOUT :: nat where "AUTH_TIMEOUT = 90000"
definition SERVE_TIMEOUT :: nat where "SERVE_TIMEOUT = 30000"
definition DAEMON_WAIT :: nat where "DAEMON_WAIT = 30000"
definition DAEMON_TICK :: nat where "DAEMON_TICK = 100"
definition PERSIST_BUDGET :: nat where "PERSIST_BUDGET = 120000"
definition PERSIST_FORCED_BUDGET :: nat where "PERSIST_FORCED_BUDGET = 15000"

definition wait_daemon :: "'e clock \<Rightarrow> 'e daemon \<Rightarrow> string \<Rightarrow> nat \<Rightarrow> 'e abort \<Rightarrow> ('e world, bool) state" where
  "wait_daemon ck dm socket timeout abort = do {
     env_op (dm_start dm socket);
     ready \<leftarrow> wait_until ck (env_op (dm_recv dm)) timeout abort DAEMON_TICK;
     env_op (dm_stop dm);
     ret (ready \<noteq> None) }"

subsection \<open>Shutdown\<close>

text \<open>\<open>reaper::quiesce\<close>: wait for the flag that a pass of the reaper leaves.\<close>

primrec quiesce_from :: "nat \<Rightarrow> 'e supervisor \<Rightarrow> nat \<Rightarrow> ('e world, bool) state" where
  "quiesce_from 0 su deadline = ret False"
| "quiesce_from (Suc n) su deadline = do {
     idle \<leftarrow> env_op (su_idle su);
     if idle then ret True
     else do {
       now \<leftarrow> env_op (ck_now (os_clock (su_os su)));
       if deadline \<le> now then ret False
       else do { env_op (su_idle_wait su (min POLL (deadline - now))); quiesce_from n su deadline } } }"

definition quiesce :: "'e supervisor \<Rightarrow> nat \<Rightarrow> ('e world, bool) state" where
  "quiesce su timeout = do {
     now \<leftarrow> env_op (ck_now (os_clock (su_os su)));
     quiesce_from (os_rounds (su_os su)) su (now + timeout) }"

definition end_tailscaled :: "'e os \<Rightarrow> handle option \<Rightarrow> ('e world, gone option) state" where
  "end_tailscaled os tsd = (case tsd of None \<Rightarrow> ret None
     | Some t \<Rightarrow> do { signal_child os t SIGTERM; g \<leftarrow> reap_until_gone os t TERM_GRACE; ret (Some g) })"

definition end_vault :: "'e os \<Rightarrow> handle option \<Rightarrow> ('e world, gone option) state" where
  "end_vault os vw = (case vw of None \<Rightarrow> ret None
     | Some v \<Rightarrow> do { g \<leftarrow> reap_until_gone os v TERM_GRACE; ret (Some g) })"

text \<open>The drain as the reactor thread carries it out; \<open>drain_with\<close> is the main thread's wait for it.\<close>

definition drain_reactor :: "'e supervisor \<Rightarrow> 'e task list option \<Rightarrow> ('e world, unit) state" where
  "drain_reactor su reactor = (case reactor of None \<Rightarrow> ret ()
     | Some tasks \<Rightarrow> do {
         env_op (ro_request_stop (su_reactor su));
         env_op (ro_send (su_reactor su) PERSIST_BUDGET PERSIST_FORCED_BUDGET);
         flush (su_reactor su) tasks PERSIST_BUDGET PERSIST_FORCED_BUDGET })"

text \<open>The children's end, before anything is flushed.\<close>

definition take_down :: "'e supervisor \<Rightarrow> handle option \<Rightarrow> handle option \<Rightarrow>
    ('e world, gone option \<times> gone option) state" where
  "take_down su tsd vw = do {
     t \<leftarrow> end_tailscaled (su_os su) tsd;
     v \<leftarrow> end_vault (su_os su) vw;
     quiesce su 2000;
     ret (t, v) }"

definition shutdown :: "'e supervisor \<Rightarrow> handle option \<Rightarrow> handle option \<Rightarrow> int \<Rightarrow> 'e task list option \<Rightarrow>
    ('e world, int) state" where
  "shutdown su tsd vw code reactor = do {
     take_down su tsd vw;
     drain_reactor su reactor;
     ret code }"

subsection \<open>The watch loop\<close>

definition stop_reactor :: "'e supervisor \<Rightarrow> bool \<Rightarrow> ('e world, unit) state" where
  "stop_reactor su there = (if there then env_op (ro_request_stop (su_reactor su)) else ret ())"

primrec watch_loop :: "nat \<Rightarrow> 'e supervisor \<Rightarrow> handle \<Rightarrow> handle \<Rightarrow> bool \<Rightarrow> ('e world, int option) state" where
  "watch_loop 0 su tsd vw reactor = ret None"
| "watch_loop (Suc n) su tsd vw reactor = do {
     v \<leftarrow> env_op (os_status (su_os su) vw);
     case v of Some raw \<Rightarrow> ret (Some (exit_code raw))
     | None \<Rightarrow> do {
         t \<leftarrow> env_op (os_status (su_os su) tsd);
         if t \<noteq> None then do { signal_child (su_os su) vw SIGTERM; ret (Some 1) }
         else do {
           stop \<leftarrow> env_op (os_take_stop (su_os su));
           if stop then do {
             stop_reactor su reactor;
             signal_child (su_os su) tsd SIGTERM;
             signal_child (su_os su) vw SIGTERM;
             g \<leftarrow> reap_until_gone (su_os su) vw TERM_GRACE;
             ret (Some (case g of Reaped raw \<Rightarrow> exit_code raw | Stuck \<Rightarrow> 1)) }
           else do {
             env_op (ck_sleep (os_clock (su_os su)) POLL);
             watch_loop n su tsd vw reactor } } } }"

definition reactor_tasks :: "'e supervisor \<Rightarrow> config \<Rightarrow> 'e task list" where
  "reactor_tasks su cfg =
     (case cf_backup cfg of None \<Rightarrow> [] | Some b \<Rightarrow> if bc_periodic b then [backup_task (su_tools su) b] else [])
     @ (case cf_sync cfg of None \<Rightarrow> [] | Some s \<Rightarrow> [sync_task (tl_deps (su_tools su)) s])"

definition failed :: "'e supervisor \<Rightarrow> handle option \<Rightarrow> handle option \<Rightarrow> ('e world, int option) state" where
  "failed su tsd vw = do { c \<leftarrow> shutdown su tsd vw 1 None; ret (Some c) }"

definition supervise :: "nat \<Rightarrow> 'e supervisor \<Rightarrow> config \<Rightarrow> handle \<Rightarrow> handle \<Rightarrow> ('e world, int option) state" where
  "supervise n su cfg tsd vw = do {
     let tasks = reactor_tasks su cfg;
     started \<leftarrow> (if tasks = [] then ret True else env_op (su_start_reactor su));
     if \<not> started then failed su (Some tsd) (Some vw)
     else do {
       code \<leftarrow> watch_loop n su tsd vw (tasks \<noteq> []);
       case code of None \<Rightarrow> ret None
       | Some code \<Rightarrow> do {
           stop_reactor su (tasks \<noteq> []);
           c \<leftarrow> shutdown su (Some tsd) (Some vw) code (if tasks = [] then None else Some tasks);
           ret (Some c) } } }"

definition start_vw :: "nat \<Rightarrow> 'e supervisor \<Rightarrow> config \<Rightarrow> handle \<Rightarrow> ('e world, int option) state" where
  "start_vw n su cfg tsd = (case cf_vault_port cfg of
     None \<Rightarrow> failed su (Some tsd) None
   | Some vault_port \<Rightarrow> do {
       gate \<leftarrow> gate_bind (su_net su) (cf_port cfg);
       if \<not> gate then failed su (Some tsd) None
       else case parse_u16 vault_port of
         None \<Rightarrow> failed su (Some tsd) None
       | Some p \<Rightarrow> do {
           env_op (su_start_gate su p);
           vw \<leftarrow> run_vaultwarden (su_os su) vault_port (cf_vw_env cfg);
           case vw of None \<Rightarrow> failed su (Some tsd) None
           | Some vw \<Rightarrow> supervise n su cfg tsd vw } })"

subsection \<open>The boot\<close>

datatype boot_outcome = Next | Exit int

datatype phase = AdoptLineage | RestoreDb | RestoreState | Tailscaled | DaemonWait | TailscaleUp | Serve

definition PHASES :: "phase list" where
  "PHASES = [AdoptLineage, RestoreDb, RestoreState, Tailscaled, DaemonWait, TailscaleUp, Serve]"

text \<open>The order of the declaration; the boot runs every phase once, in that order.\<close>

primrec phase_rank :: "phase \<Rightarrow> nat" where
  "phase_rank AdoptLineage = 0"
| "phase_rank RestoreDb = 1"
| "phase_rank RestoreState = 2"
| "phase_rank Tailscaled = 3"
| "phase_rank DaemonWait = 4"
| "phase_rank TailscaleUp = 5"
| "phase_rank Serve = 6"

lemma phase_rank_inject: "phase_rank p = phase_rank q \<Longrightarrow> p = q"
  by (cases p; cases q) simp_all

instantiation phase :: linorder
begin

definition less_eq_phase :: "phase \<Rightarrow> phase \<Rightarrow> bool" where
  "p \<le> q \<longleftrightarrow> phase_rank p \<le> phase_rank q"

definition less_phase :: "phase \<Rightarrow> phase \<Rightarrow> bool" where
  "p < q \<longleftrightarrow> phase_rank p < phase_rank q"

instance
  by standard (auto simp: less_eq_phase_def less_phase_def intro: phase_rank_inject)

end

lemma PHASES_complete: "sorted PHASES \<and> distinct PHASES \<and> set PHASES = UNIV"
proof -
  have "p \<in> set PHASES" for p
    by (cases p) (simp_all add: PHASES_def)
  moreover have "sorted PHASES \<and> distinct PHASES"
    by (simp add: PHASES_def less_eq_phase_def)
  ultimately show ?thesis
    by blast
qed

record boot =
  bo_cfg :: config
  bo_tsd :: "handle option"

definition phase_restore_db :: "'e supervisor \<Rightarrow> config \<Rightarrow> ('e world, boot_outcome) state" where
  "phase_restore_db su cfg = (case cf_backup cfg of None \<Rightarrow> ret Next
     | Some backup \<Rightarrow> do {
         r \<leftarrow> restore_if_empty (su_tools su) backup (os_stopping (su_os su));
         ret (case r of Ready \<Rightarrow> Next | RestoreFailed \<Rightarrow> Exit 1 | RestoreAborted \<Rightarrow> Exit 0) })"

definition phase_adopt :: "'e supervisor \<Rightarrow> config \<Rightarrow> ('e world, boot_outcome) state" where
  "phase_adopt su cfg = (case cf_backup cfg of None \<Rightarrow> ret Next
     | Some backup \<Rightarrow> do { adopt_lineage (su_tools su) backup (os_stopping (su_os su)); ret Next })"

definition phase_restore_state :: "'e supervisor \<Rightarrow> config \<Rightarrow> ('e world, boot_outcome) state" where
  "phase_restore_state su cfg = (case cf_sync cfg of None \<Rightarrow> ret Next
     | Some sync \<Rightarrow> do { restore_state (tl_deps (su_tools su)) sync (os_stopping (su_os su)); ret Next })"

definition phase_tailscaled :: "'e supervisor \<Rightarrow> config \<Rightarrow> ('e world, boot_outcome \<times> handle option) state" where
  "phase_tailscaled su cfg = do {
     stop \<leftarrow> env_op (os_take_stop (su_os su));
     if stop then ret (Exit 0, None)
     else do {
       t \<leftarrow> spawn_tailscaled (su_os su) (cf_state cfg) (cf_socket cfg) (cf_userspace cfg);
       case t of Some tsd \<Rightarrow> ret (Next, Some tsd) | None \<Rightarrow> ret (Exit 1, None) } }"

text \<open>After a failed wait: a stop request makes it a clean abort.\<close>

definition stop_or_fail :: "'e supervisor \<Rightarrow> ('e world, boot_outcome) state" where
  "stop_or_fail su = do {
     stop \<leftarrow> env_op (os_take_stop (su_os su));
     ret (if stop then Exit 0 else Exit 1) }"

definition phase_daemon_wait :: "'e supervisor \<Rightarrow> config \<Rightarrow> ('e world, boot_outcome) state" where
  "phase_daemon_wait su cfg = do {
     ok \<leftarrow> wait_daemon (os_clock (su_os su)) (su_daemon su) (cf_socket cfg) DAEMON_WAIT (os_stopping (su_os su));
     if ok then ret Next else stop_or_fail su }"

definition phase_up :: "'e supervisor \<Rightarrow> config \<Rightarrow> ('e world, boot_outcome) state" where
  "phase_up su cfg = do {
     ok \<leftarrow> tailscale_up (su_os su) (cf_authkey cfg) (cf_hostname cfg) (cf_socket cfg) AUTH_TIMEOUT (os_stopping (su_os su));
     if \<not> ok then stop_or_fail su
     else case cf_sync cfg of None \<Rightarrow> ret Next
       | Some sync \<Rightarrow> do { sync_state (tl_deps (su_tools su)) sync (os_stopping (su_os su)); ret Next } }"

definition phase_serve :: "'e supervisor \<Rightarrow> config \<Rightarrow> ('e world, boot_outcome) state" where
  "phase_serve su cfg = (if \<not> cf_serve cfg then ret Next
     else case cf_vault_port cfg of None \<Rightarrow> ret (Exit 1)
     | Some vault_port \<Rightarrow> do {
         ok \<leftarrow> tailscale_serve (su_os su) vault_port (cf_service cfg) (cf_socket cfg) SERVE_TIMEOUT (os_stopping (su_os su));
         if ok then ret Next else stop_or_fail su })"

definition boot_phase :: "'e supervisor \<Rightarrow> phase \<Rightarrow> boot \<Rightarrow> ('e world, boot_outcome \<times> boot) state" where
  "boot_phase su phase b = (case phase of
     AdoptLineage \<Rightarrow> do { r \<leftarrow> phase_adopt su (bo_cfg b); ret (r, b) }
   | RestoreDb \<Rightarrow> do { r \<leftarrow> phase_restore_db su (bo_cfg b); ret (r, b) }
   | RestoreState \<Rightarrow> do { r \<leftarrow> phase_restore_state su (bo_cfg b); ret (r, b) }
   | Tailscaled \<Rightarrow> do { (r, t) \<leftarrow> phase_tailscaled su (bo_cfg b); ret (r, if t = None then b else b\<lparr>bo_tsd := t\<rparr>) }
   | DaemonWait \<Rightarrow> do { r \<leftarrow> phase_daemon_wait su (bo_cfg b); ret (r, b) }
   | TailscaleUp \<Rightarrow> do { r \<leftarrow> phase_up su (bo_cfg b); ret (r, b) }
   | Serve \<Rightarrow> do { r \<leftarrow> phase_serve su (bo_cfg b); ret (r, b) })"

primrec boot_phases :: "'e supervisor \<Rightarrow> phase list \<Rightarrow> boot \<Rightarrow> ('e world, boot_outcome \<times> boot) state" where
  "boot_phases su [] b = ret (Next, b)"
| "boot_phases su (p # ps) b = do {
     (r, b) \<leftarrow> boot_phase su p b;
     case r of Next \<Rightarrow> boot_phases su ps b | Exit c \<Rightarrow> ret (Exit c, b) }"

text \<open>The \<open>expect\<close> after the phases cannot fail: \<open>boot_has_tsd\<close> below.\<close>

definition boot_with :: "nat \<Rightarrow> 'e supervisor \<Rightarrow> config \<Rightarrow> ('e world, int option) state" where
  "boot_with n su cfg = do {
     (r, b) \<leftarrow> boot_phases su PHASES \<lparr>bo_cfg = cfg, bo_tsd = None\<rparr>;
     case r of
       Exit c \<Rightarrow> do { c \<leftarrow> shutdown su (bo_tsd b) None c None; ret (Some c) }
     | Next \<Rightarrow> start_vw n su (bo_cfg b) (the (bo_tsd b)) }"

definition boot_run :: "nat \<Rightarrow> 'e supervisor \<Rightarrow> ('e world, int option) state" where
  "boot_run n su = do {
     ok \<leftarrow> install_signal_handlers (su_register su);
     if \<not> ok then ret (Some 1)
     else do {
       c \<leftarrow> from_env (su_dotenvy su) (su_var su);
       case c of None \<Rightarrow> ret (Some 1) | Some cfg \<Rightarrow> boot_with n su cfg } }"

definition healthcheck_mode :: "'e supervisor \<Rightarrow> ('e world, int option) state" where
  "healthcheck_mode su = do {
     c \<leftarrow> from_env (su_dotenvy su) (su_var su);
     healthy \<leftarrow> (case c of None \<Rightarrow> ret False | Some cfg \<Rightarrow> healthcheck (su_net su) (cf_port cfg));
     ret (Some (if healthy then 0 else 1)) }"

definition supervisor_main :: "nat \<Rightarrow> 'e supervisor \<Rightarrow> string list \<Rightarrow> ('e world, int option) state" where
  "supervisor_main n su args =
     (if 1 < length args \<and> args ! 1 = ''--healthcheck'' then healthcheck_mode su else boot_run n su)"

subsection \<open>The exit code\<close>

text \<open>The watch loop's code is the vault's true exit code, or the failure code.\<close>

definition true_code :: "nat \<Rightarrow> int option \<Rightarrow> hub \<Rightarrow> bool" where
  "true_code n c s \<longleftrightarrow> (case c of None \<Rightarrow> True
     | Some c \<Rightarrow> c = 1 \<or> (\<exists>st. exited n st s \<and> exit_code st = c))"

lemma true_code_simps [simp]: "true_code n None s" "true_code n (Some 1) s"
  by (simp_all add: true_code_def)

lemma told_code: "told hb h (Some st) w \<Longrightarrow> on_hub hb (true_code (h_waiter h) (Some (exit_code st))) w"
  by (auto simp: true_code_def)

lemma watch_loop_true:
  assumes "over_hub (su_os su) hb" "advances hb (ro_request_stop (su_reactor su))"
  shows "hoare (on_hub hb hub_ok) (watch_loop n su tsd vw r) (\<lambda>c. on_hub hb (true_code (h_waiter vw) c))"
proof (induction n)
  case (Suc n)
  note H = assms(1) and K = hub_keeps [OF assms(1) closed_hub_ok] and S = kept_signal [OF assms(1) closed_hub_ok]
  let ?Q = "\<lambda>c. on_hub hb (true_code (h_waiter vw) c)"
  have one: "hoare (on_hub hb hub_ok) (ret (Some 1)) ?Q"
    by (rule hoare_return) simp
  have stop: "preserves (on_hub hb hub_ok) (stop_reactor su r)"
    unfolding stop_reactor_def by (intro preserves_if preserves_return advances_env [OF assms(2) closed_hub_ok])
  have ending: "hoare (on_hub hb hub_ok) (do {
      g \<leftarrow> reap_until_gone (su_os su) vw TERM_GRACE;
      ret (Some (case g of Reaped raw \<Rightarrow> exit_code raw | Stuck \<Rightarrow> 1)) }) ?Q"
  proof (rule hoare_bind [OF reap_until_gone_told [OF H]])
    fix g
    show "hoare (told hb vw (gone_status g)) (ret (Some (case g of Reaped raw \<Rightarrow> exit_code raw | Stuck \<Rightarrow> 1))) ?Q"
      by (rule hoare_return, cases g) (auto simp: gone_status_def true_code_def)
  qed
  have rest: "hoare (on_hub hb hub_ok) (do {
         t \<leftarrow> env_op (os_status (su_os su) tsd);
         if t \<noteq> None then do { signal_child (su_os su) vw SIGTERM; ret (Some 1) }
         else do {
           stop \<leftarrow> env_op (os_take_stop (su_os su));
           if stop then do {
             stop_reactor su r;
             signal_child (su_os su) tsd SIGTERM;
             signal_child (su_os su) vw SIGTERM;
             g \<leftarrow> reap_until_gone (su_os su) vw TERM_GRACE;
             ret (Some (case g of Reaped raw \<Rightarrow> exit_code raw | Stuck \<Rightarrow> 1)) }
           else do {
             env_op (ck_sleep (os_clock (su_os su)) POLL);
             watch_loop n su tsd vw r } } }) ?Q"
    by (intro hoare_keep [OF K(7)] hoare_keep [OF K(15)] hoare_keep [OF K(2)] hoare_if hoare_keep [OF stop] hoare_keep [OF S]
      one ending Suc)
  show ?case
    unfolding watch_loop.simps
  proof (rule hoare_bind [OF status_told [OF H]])
    fix v
    show "hoare (told hb vw v) (case v of Some raw \<Rightarrow> ret (Some (exit_code raw)) | None \<Rightarrow> do {
         t \<leftarrow> env_op (os_status (su_os su) tsd);
         if t \<noteq> None then do { signal_child (su_os su) vw SIGTERM; ret (Some 1) }
         else do {
           stop \<leftarrow> env_op (os_take_stop (su_os su));
           if stop then do {
             stop_reactor su r;
             signal_child (su_os su) tsd SIGTERM;
             signal_child (su_os su) vw SIGTERM;
             g \<leftarrow> reap_until_gone (su_os su) vw TERM_GRACE;
             ret (Some (case g of Reaped raw \<Rightarrow> exit_code raw | Stuck \<Rightarrow> 1)) }
           else do {
             env_op (ck_sleep (os_clock (su_os su)) POLL);
             watch_loop n su tsd vw r } } }) ?Q"
    proof (cases v)
      case (Some raw)
      show ?thesis
        unfolding Some option.case by (rule hoare_return) (rule told_code)
    next
      case None
      show ?thesis
        unfolding None option.case told_simps by (rule rest)
    qed
  qed
qed (simp add: hoare_return)

subsection \<open>The phases\<close>

lemma boot_phase_cfg: "hoare P (boot_phase su p b) (\<lambda>(r, b') _. bo_cfg b' = bo_cfg b \<and>
    (bo_tsd b \<noteq> None \<or> (p = Tailscaled \<and> r = Next) \<longrightarrow> bo_tsd b' \<noteq> None))"
  by (rule hoareI)
    (cases p; auto simp: boot_phase_def phase_tailscaled_def split: prod.splits if_splits option.splits)

lemma boot_phases_cfg: "hoare P (boot_phases su ps b) (\<lambda>(r, b') _. bo_cfg b' = bo_cfg b \<and>
    (bo_tsd b \<noteq> None \<or> (Tailscaled \<in> set ps \<and> r = Next) \<longrightarrow> bo_tsd b' \<noteq> None))"
proof (rule hoareI)
  fix w rb v
  assume "run_state (boot_phases su ps b) w = (rb, v)"
  then show "(case rb of (r, b') \<Rightarrow> \<lambda>_. bo_cfg b' = bo_cfg b \<and>
    (bo_tsd b \<noteq> None \<or> (Tailscaled \<in> set ps \<and> r = Next) \<longrightarrow> bo_tsd b' \<noteq> None)) v"
  proof (induction ps arbitrary: b w)
    case (Cons p ps)
    obtain r c u where u: "run_state (boot_phase su p b) w = ((r, c), u)"
      by (cases "run_state (boot_phase su p b) w") auto
    have step: "bo_cfg c = bo_cfg b" "bo_tsd b \<noteq> None \<or> (p = Tailscaled \<and> r = Next) \<longrightarrow> bo_tsd c \<noteq> None"
      using hoareD [OF boot_phase_cfg [of "\<lambda>_. True"] _ u] by auto
    show ?case
    proof (cases r)
      case (Exit c')
      then show ?thesis using Cons.prems u step by auto
    next
      case Next
      then have "run_state (boot_phases su ps c) u = (rb, v)"
        using Cons.prems u by simp
      from Cons.IH [OF this] step Next show ?thesis
        by (cases rb) auto
    qed
  qed auto
qed

text \<open>A stop that is pending when the daemon is due ends the boot before anything is started.\<close>

lemma tailscaled_stop:
  assumes "fst (os_take_stop (su_os su) (w_env w))"
  shows "run_state (boot_phase su Tailscaled b) w = ((Exit 0, b), w\<lparr>w_env := snd (os_take_stop (su_os su) (w_env w))\<rparr>)"
  using assms by (simp add: boot_phase_def phase_tailscaled_def run_env_op)

subsection \<open>The database at the hand-over\<close>

definition whole :: "'e tools \<Rightarrow> inode option \<Rightarrow> inode option \<Rightarrow> bool" where
  "whole tt b x \<longleftrightarrow> x = b \<or> verified tt x"

definition db_outcome :: "'e tools \<Rightarrow> string \<Rightarrow> inode option \<Rightarrow> bool \<Rightarrow> 'e world \<Rightarrow> bool" where
  "db_outcome tt p b ok w \<longleftrightarrow> (if ok then whole tt b (file_at w p) else whole tt b (file_at w p) \<or> file_at w p = None)"

text \<open>The database lies apart from everything the boot writes besides it.\<close>

definition db_apart :: "backup_config \<Rightarrow> sync_config option \<Rightarrow> bool" where
  "db_apart cfg sync \<longleftrightarrow> bc_db_path cfg \<notin> below (bc_staging cfg) \<and> bc_db_path cfg \<noteq> sidecar_path (bc_db_path cfg) \<and>
     bc_db_path cfg \<notin> below ''/tmp'' \<and> bc_db_path cfg \<notin> push_files_of ''/data'' \<and>
     (\<forall>s. sync = Some s \<longrightarrow> bc_db_path cfg \<notin> may_write s)"

lemma restore_if_empty_whole:
  assumes "bc_db_path cfg \<notin> below (bc_staging cfg)" "bc_db_path cfg \<noteq> sidecar_path (bc_db_path cfg)"
  shows "hoare (on_file (bc_db_path cfg) (\<lambda>x. x = b)) (restore_if_empty tt cfg abort)
     (\<lambda>r. db_outcome tt (bc_db_path cfg) b (r = Ready))"
proof -
  let ?p = "bc_db_path cfg" and ?B = "\<lambda>w. file_at w (bc_db_path cfg) = b"
  let ?Q = "\<lambda>r. db_outcome tt ?p b (r = Ready)"
  have fr: "preserves ?B m" if "framed {} m" for m :: "('a world, 'b) state"
    using framed_preserves [OF that, of ?p "\<lambda>x. x = b"] by simp
  have stay: "hoare ?B (ret r) ?Q" for r
    by (rule hoare_return) (simp add: db_outcome_def whole_def)
  have first: "hoare ?B (restore_first tt (client_store (tl_deps tt) cl) cfg abort cs) ?Q" for cl cs
    by (rule hoare_weaken [OF restore_first_ok [OF assms, where b = b]])
      (auto simp: as_before_def restored_def db_outcome_def whole_def split: if_splits)
  have run: "hoare ?B (restore_from tt (client_store (tl_deps tt) cl) cfg abort) ?Q" for cl
    unfolding restore_from_def
    by (intro hoare_keep [OF fr [OF framed_backup_candidates]] hoare_sum hoare_keep [OF fr [OF framed_env_op]] hoare_if stay first)
  have ie: "framed {} (is_empty tt ?p)"
    unfolding is_empty_def db_files_def by (intro framed_rules framed_fs)
  show ?thesis
    unfolding restore_if_empty_def
    by (intro hoare_if stay hoare_keep [OF fr [OF ie]] hoare_sum run)
      (auto intro!: stay run split: bool.split sum.split)
qed

lemma framed_staged_create: "framed (below ''/tmp'') (staged_create tn name)"
  unfolding staged_create_def Let_def
  by (intro framed_rules local_op_framed [OF local_open_staged]) (simp add: below_def)

lemma framed_sum_ret: "(\<And>e. x = Inl e \<Longrightarrow> framed ps (f e)) \<Longrightarrow> (\<And>a. x = Inr a \<Longrightarrow> framed ps (g a)) \<Longrightarrow>
    framed ps (case x of Inl e \<Rightarrow> f e | Inr a \<Rightarrow> g a)"
  by (cases x) auto

lemma framed_env_only: "env_only m \<Longrightarrow> framed ps m"
  by (rule framedI) (auto simp: frame_def dest: env_onlyD)

lemma staged_create_below: "hoare P (staged_create tn name) (\<lambda>r _. \<forall>p. r = Inr p \<longrightarrow> p \<in> below ''/tmp'')"
  by (rule hoareI) (auto simp: staged_create_def Let_def below_def split: prod.splits sum.splits)

lemma framed_drop_below: "p \<in> below ''/tmp'' \<Longrightarrow> framed (below ''/tmp'') (staged_drop p)"
  by (rule local_op_framed [OF local_staged_drop])

lemma framed_run_bounded: "framed ps (run_bounded os timeout prog args abort)"
  by (rule framed_env_only [OF env_only_run_bounded])

lemma framed_stage_key: "framed (below ''/tmp'') (stage_key os authkey)"
  unfolding stage_key_def
  by (intro framed_option framed_return framed_bind_ret [OF framed_staged_create staged_create_below] framed_sum_ret
    framed_bind framed_sum framed_drop_below local_op_framed [OF local_staged_write]) auto

lemma stage_key_below: "hoare P (stage_key os authkey) (\<lambda>r _. \<forall>p. r = Inr (Some p) \<longrightarrow> p \<in> below ''/tmp'')"
  by (rule hoareI)
    (auto simp: stage_key_def staged_create_def Let_def below_def split: prod.splits sum.splits option.splits)

lemma framed_tailscale_up: "framed (below ''/tmp'') (tailscale_up os authkey hostname socket timeout abort)"
  unfolding tailscale_up_def drop_key_def
  by (intro framed_bind_ret [OF framed_stage_key stage_key_below] framed_sum_ret framed_bind framed_option framed_return
    framed_run_bounded framed_drop_below) auto

lemma framed_run_child: "framed ps (run_child os timeout cmd abort)"
  by (rule framed_env_only [OF env_only_run_child])

lemma framed_run_capture: "framed (below ''/tmp'') (run_bounded_capture os timeout prog args extra abort)"
proof -
  have core: "framed (below ''/tmp'') (run_bounded_core os timeout prog args extra abort True)"
    unfolding run_bounded_core_def not_True_eq_False if_False
    by (intro framed_bind_ret [OF framed_staged_create staged_create_below] framed_sum_ret framed_bind framed_return
      framed_if framed_option framed_env_op framed_run_child framed_drop_below) auto
  have below: "hoare (\<lambda>_. True) (run_bounded_core os timeout prog args extra abort True)
      (\<lambda>r _. \<forall>p. snd r = Some p \<longrightarrow> p \<in> below ''/tmp'')"
    unfolding run_bounded_core_def not_True_eq_False if_False
  proof (rule hoare_bind [OF staged_create_below])
    fix c :: "io_error + string"
    show "hoare (\<lambda>v. \<forall>p. c = Inr p \<longrightarrow> p \<in> below ''/tmp'') (case c of Inl _ \<Rightarrow> ret (False, None)
        | Inr p \<Rightarrow> do {
            d \<leftarrow> env_op (os_dup os p);
            if \<not> d then do { staged_drop p; ret (False, None) }
            else do {
              r \<leftarrow> run_child os timeout (helper_command os prog args extra (Some p)) abort;
              case r of None \<Rightarrow> do { staged_drop p; ret (False, None) }
              | Some success \<Rightarrow> ret (success, Some p) } })
        (\<lambda>r _. \<forall>p. snd r = Some p \<longrightarrow> p \<in> below ''/tmp'')"
      by (rule hoareI) (auto split: sum.splits if_splits prod.splits option.splits)
  qed
  show ?thesis
    unfolding run_bounded_capture_def read_capture_def
    by (intro framed_bind_ret [OF core below] framed_bind framed_return framed_if framed_option framed_env_op
      framed_drop_below) auto
qed

lemma framed_serve_ready: "framed (below ''/tmp'') (serve_ready n os socket target deadline abort)"
  by (induction n) (auto simp: time_left_def intro!: framed_rules framed_run_capture)

lemma framed_tailscale_serve: "framed (below ''/tmp'') (tailscale_serve os port service socket timeout abort)"
  unfolding tailscale_serve_def clear_service_def time_left_def Let_def
  by (intro framed_rules framed_run_bounded framed_serve_ready)

text \<open>What every phase besides the restore of the database may write.\<close>

definition boot_writes :: "config \<Rightarrow> string set" where
  "boot_writes cfg = below ''/tmp'' \<union> push_files_of ''/data'' \<union>
     (case cf_sync cfg of None \<Rightarrow> {} | Some s \<Rightarrow> may_write s)"

lemma boot_writes_sub: "below ''/tmp'' \<subseteq> boot_writes cfg" "push_files_of ''/data'' \<subseteq> boot_writes cfg"
    "cf_sync cfg = Some s \<Longrightarrow> may_write s \<subseteq> boot_writes cfg"
  by (auto simp: boot_writes_def)

lemma framed_boot_phase:
  assumes "ph \<noteq> AdoptLineage" "ph \<noteq> RestoreDb"
  shows "framed (boot_writes (bo_cfg b)) (boot_phase su ph b)"
proof -
  note sub = boot_writes_sub [of "bo_cfg b"]
  have st: "framed ps (stop_or_fail su)" for ps
    unfolding stop_or_fail_def by (intro framed_rules)
  show ?thesis
  proof (cases ph)
    case RestoreState
    show ?thesis
      unfolding RestoreState boot_phase_def phase.case phase_restore_state_def
      by (intro framed_rules framed_mono [OF restore_framed sub(3)])
  next
    case Tailscaled
    show ?thesis
      unfolding Tailscaled boot_phase_def phase.case phase_tailscaled_def spawn_tailscaled_def spawn_def
      by (intro framed_rules)
  next
    case DaemonWait
    show ?thesis
      unfolding DaemonWait boot_phase_def phase.case phase_daemon_wait_def wait_daemon_def
      by (intro framed_rules framed_wait_until st)
  next
    case TailscaleUp
    show ?thesis
      unfolding TailscaleUp boot_phase_def phase.case phase_up_def
      by (intro framed_rules st framed_mono [OF framed_tailscale_up sub(1)] framed_mono [OF sync_framed sub(2)])
  next
    case Serve
    show ?thesis
      unfolding Serve boot_phase_def phase.case phase_serve_def
      by (intro framed_rules st framed_mono [OF framed_tailscale_serve sub(1)])
  qed (use assms in simp_all)
qed

lemma framed_adopt_lineage: "framed {sidecar_path (bc_db_path cfg)} (adopt_lineage tt cfg abort)"
  unfolding adopt_lineage_def adopt_from_def is_empty_def db_files_def lineage_write_def lineage_write_name_def
    lineage_write_text_def
  by (intro framed_rules framed_fs framed_load_generations framed_list_objects
    local_op_framed [OF local_op_write] local_op_framed [OF local_op_make_private]) simp_all

lemma framed_boot_phases:
  assumes "list_all (\<lambda>ph. ph \<noteq> AdoptLineage \<and> ph \<noteq> RestoreDb) phs" "bo_cfg b = cfg"
  shows "framed (boot_writes cfg) (boot_phases su phs b)"
  using assms
proof (induction phs arbitrary: b)
  case (Cons ph phs)
  have one: "framed (boot_writes cfg) (boot_phase su ph b)"
    using framed_boot_phase [of ph b su] Cons.prems by simp
  have cfg: "hoare (\<lambda>_. True) (boot_phase su ph b) (\<lambda>r _. bo_cfg (snd r) = cfg)"
    by (rule hoare_weaken [OF boot_phase_cfg [of "\<lambda>_. True"]]) (use Cons.prems in auto)
  have rest: "framed (boot_writes cfg) (case r of (r, c) \<Rightarrow>
      (case r of Next \<Rightarrow> boot_phases su phs c | Exit n \<Rightarrow> ret (Exit n, c)))" if "bo_cfg (snd r) = cfg" for r
    using Cons.IH [of "snd r"] Cons.prems that by (auto split: prod.split boot_outcome.split)
  show ?case
    unfolding boot_phases.simps by (rule framed_bind_ret [OF one cfg rest])
qed auto

lemma whole_kept: "framed ps m \<Longrightarrow> p \<notin> ps \<Longrightarrow> preserves (on_file p (whole tt b)) m"
  by (rule framed_preserves)

lemma boot_phases_whole:
  assumes bk: "cf_backup cfg = Some bk" and apart: "db_apart bk (cf_sync cfg)"
  shows "hoare (on_file (bc_db_path bk) (\<lambda>x. x = b)) (boot_phases su PHASES \<lparr>bo_cfg = cfg, bo_tsd = None\<rparr>)
     (\<lambda>r. db_outcome (su_tools su) (bc_db_path bk) b (fst r = Next))"
proof -
  let ?p = "bc_db_path bk" and ?tt = "su_tools su" and ?b = "\<lparr>bo_cfg = cfg, bo_tsd = None\<rparr>"
  let ?B = "on_file ?p (\<lambda>x. x = b)" and ?Q = "\<lambda>r. db_outcome ?tt ?p b (fst r = Next)"
  let ?rest = "[RestoreState, Tailscaled, DaemonWait, TailscaleUp, Serve]"
  have p: "?p \<notin> boot_writes cfg" "?p \<notin> {sidecar_path ?p}"
    using apart by (auto simp: db_apart_def boot_writes_def split: option.split)
  have adopt: "preserves ?B (boot_phase su AdoptLineage ?b)"
    unfolding boot_phase_def phase.case phase_adopt_def
    by (simp add: bk) (intro preserves_rules framed_preserves [OF framed_adopt_lineage p(2)])
  have rest: "hoare (on_file ?p (whole ?tt b)) (boot_phases su ?rest ?b) ?Q"
    by (rule hoare_weaken [OF whole_kept [OF framed_boot_phases p(1), unfolded preserves_def]])
      (auto simp: db_outcome_def)
  have exit: "hoare (db_outcome ?tt ?p b False) (ret (Exit c, ?b)) ?Q" for c
    by (rule hoare_return) simp
  have ready: "db_outcome ?tt ?p b True = on_file ?p (whole ?tt b)"
    by (rule ext) (simp add: db_outcome_def)
  have db: "hoare ?B (boot_phase su RestoreDb ?b)
      (\<lambda>r w. snd r = ?b \<and> db_outcome ?tt ?p b (fst r = Next) w)"
  proof -
    have "hoare ?B (phase_restore_db su cfg) (\<lambda>r. db_outcome ?tt ?p b (r = Next))"
      unfolding phase_restore_db_def bk option.case
      by (rule hoare_bind [OF restore_if_empty_whole], (use apart in \<open>simp_all add: db_apart_def\<close>)[2])
        (rule hoare_return, simp split: restore_outcome.split add: db_outcome_def)
    then show ?thesis
      unfolding boot_phase_def phase.case boot.simps by (rule hoare_bind) (rule hoare_return, simp)
  qed
  have then_rest: "hoare (\<lambda>w. snd r = ?b \<and> db_outcome ?tt ?p b (fst r = Next) w) (case r of (r, c) \<Rightarrow>
      (case r of Next \<Rightarrow> boot_phases su ?rest c | Exit n \<Rightarrow> ret (Exit n, c))) ?Q" for r
    using rest exit ready by (cases r; cases "fst r"; auto simp: hoare_def split: prod.splits)
  have restore: "hoare ?B (boot_phases su (RestoreDb # ?rest) ?b) ?Q"
    unfolding boot_phases.simps(2) [of su RestoreDb] by (rule hoare_bind [OF db then_rest])
  have first: "hoare ?B (boot_phase su AdoptLineage ?b) (\<lambda>r w. r = (Next, ?b) \<and> ?B w)"
    by (rule hoare_both [OF adopt, where R = "\<lambda>_. True" and S = "\<lambda>r _. r = (Next, ?b)"])
      (auto intro!: hoareI simp: boot_phase_def phase_adopt_def bk split: prod.splits)
  have next_: "hoare (\<lambda>w. r = (Next, ?b) \<and> ?B w) (case r of (r, c) \<Rightarrow>
      (case r of Next \<Rightarrow> boot_phases su (RestoreDb # ?rest) c | Exit n \<Rightarrow> ret (Exit n, c))) ?Q" for r
    using restore by (cases "r = (Next, ?b)") (auto simp: hoare_def)
  show ?thesis
    unfolding PHASES_def boot_phases.simps(2) [of su AdoptLineage] by (rule hoare_bind [OF first next_])
qed

subsection \<open>Teardown\<close>

text \<open>A child's end as the teardown saw it: its true status, or that it did not go.\<close>

definition gone_true :: "handle \<Rightarrow> gone \<Rightarrow> hub \<Rightarrow> bool" where
  "gone_true h g s \<longleftrightarrow> hub_ok s \<and> (case g of Reaped st \<Rightarrow> hb_exit s (h_waiter h) = Some st | Stuck \<Rightarrow> True)"

lemma told_gone: "told hb h (gone_status g) = on_hub hb (gone_true h g)"
  by (cases g) (auto simp: gone_status_def gone_true_def exited_def fun_eq_iff)

lemma closed_gone: "closed (gone_true h g)"
  using closed_hub_ok closed_exited
  by (cases g) (auto simp: gone_true_def closed_def exited_def)

lemma closed_conj: "closed P \<Longrightarrow> closed Q \<Longrightarrow> closed (\<lambda>s. P s \<and> Q s)"
  by (auto simp: closed_def)

lemma quiesce_keeps:
  assumes "over_hub (su_os su) hb" "advances hb (su_idle su)" "\<And>d. advances hb (su_idle_wait su d)" "closed P"
  shows "preserves (on_hub hb P) (quiesce su timeout)"
proof -
  have "preserves (on_hub hb P) (quiesce_from n su deadline)" for n deadline
    by (induction n) (auto intro!: preserves_rules advances_env [OF _ assms(4)] assms(2,3) hub_keeps(1) [OF assms(1,4)])
  then show ?thesis
    unfolding quiesce_def by (intro preserves_rules hub_keeps(1) [OF assms(1,4)])
qed

lemma take_down_true:
  assumes H: "over_hub (su_os su) hb" and "advances hb (su_idle su)" "\<And>d. advances hb (su_idle_wait su d)"
  shows "hoare (on_hub hb hub_ok) (take_down su (Some t) (Some v))
    (\<lambda>(a, b). on_hub hb (\<lambda>s. \<exists>g h. a = Some g \<and> b = Some h \<and> gone_true t g s \<and> gone_true v h s))"
proof -
  have first: "hoare (on_hub hb hub_ok) (end_tailscaled (su_os su) (Some t))
      (\<lambda>a. on_hub hb (\<lambda>s. \<exists>g. a = Some g \<and> gone_true t g s))"
    unfolding end_tailscaled_def option.case
    by (intro hoare_keep [OF kept_signal [OF H closed_hub_ok]] hoare_bind [OF reap_until_gone_told [OF H]] hoare_return)
      (simp add: told_gone)
  have second: "hoare (on_hub hb (\<lambda>s. \<exists>g. a = Some g \<and> gone_true t g s)) (end_vault (su_os su) (Some v))
      (\<lambda>b. on_hub hb (\<lambda>s. \<exists>g h. a = Some g \<and> b = Some h \<and> gone_true t g s \<and> gone_true v h s))" for a
  proof (cases a)
    case (Some g)
    have "hoare (\<lambda>w. on_hub hb (gone_true t g) w \<and> on_hub hb hub_ok w) (reap_until_gone (su_os su) v TERM_GRACE)
        (\<lambda>h w. on_hub hb (gone_true t g) w \<and> told hb v (gone_status h) w)"
      by (rule hoare_both [OF kept_reap_until_gone [OF H closed_gone [of t g]] reap_until_gone_told [OF H]]) auto
    then have "hoare (on_hub hb (gone_true t g)) (reap_until_gone (su_os su) v TERM_GRACE)
        (\<lambda>h. on_hub hb (\<lambda>s. gone_true t g s \<and> gone_true v h s))"
      by (rule hoare_weaken) (auto simp: gone_true_def told_gone)
    then have "hoare (on_hub hb (gone_true t g)) (end_vault (su_os su) (Some v))
        (\<lambda>b. on_hub hb (\<lambda>s. \<exists>h. b = Some h \<and> gone_true t g s \<and> gone_true v h s))"
      unfolding end_vault_def option.case by (rule hoare_bind) (auto intro: hoare_return)
    then show ?thesis
      by (rule hoare_weaken) (auto simp: Some)
  qed (simp add: hoare_def)
  have closed: "closed (\<lambda>s. \<exists>g h. a = Some g \<and> b = Some h \<and> gone_true t g s \<and> gone_true v h s)" for a b
    using closed_gone [of t] closed_gone [of v] unfolding closed_def by blast
  show ?thesis
    unfolding take_down_def
    by (intro hoare_bind [OF first] hoare_bind [OF second] hoare_keep [OF quiesce_keeps [OF assms closed]] hoare_return)
      simp
qed

end
