(* ===== verification/FakeHost.thy ===== *)
theory FakeHost
  imports Supervisor
begin

text \<open>
  A small concrete operating system: a hub, a clock and a script of the pids the kernel hands out
  and of the exits to come. A sleep or a wait on a condition variable lets the next child of the
  script exit, and the reaper reap and deliver it. It satisfies \<open>over_hub\<close> (\<open>host_over_hub\<close>), so
  what is proved over the hub can be applied to it.
\<close>

record host =
  ho_hub :: hub
  ho_time :: nat
  ho_pids :: "pid list"
  ho_exits :: "(pid \<times> wait_status) list"
  ho_stop :: bool

definition host_start :: "pid list \<Rightarrow> (pid \<times> wait_status) list \<Rightarrow> host" where
  "host_start ps es = \<lparr>ho_hub = hub_start, ho_time = 0, ho_pids = ps, ho_exits = es, ho_stop = False\<rparr>"

subsection \<open>The kernel and the reaper\<close>

definition host_exit :: "hub \<Rightarrow> pid \<Rightarrow> wait_status \<Rightarrow> hub" where
  "host_exit s p st = (case hb_procs s p of
     Some (Running c) \<Rightarrow> if ws_pid st = Some p then proc_exit s p c st else s
   | _ \<Rightarrow> s)"

definition host_reap :: "hub \<Rightarrow> pid \<Rightarrow> hub" where
  "host_reap s p = (if hb_pending s = None then deliver_waiter (reap s p) else deliver_waiter s)"

definition host_pause :: "nat \<Rightarrow> host \<Rightarrow> unit \<times> host" where
  "host_pause d e = ((), (case ho_exits e of
     [] \<Rightarrow> e\<lparr>ho_time := ho_time e + d\<rparr>
   | (p, st) # es \<Rightarrow> e\<lparr>ho_time := ho_time e + d, ho_exits := es, ho_hub := host_reap (host_exit (ho_hub e) p st) p\<rparr>))"

definition host_fork :: "command \<Rightarrow> host \<Rightarrow> pid option \<times> host" where
  "host_fork c e = (case ho_pids e of [] \<Rightarrow> (None, e) | p # ps \<Rightarrow> (Some p, e\<lparr>ho_pids := ps\<rparr>))"

definition host_insert :: "pid \<Rightarrow> host \<Rightarrow> handle \<times> host" where
  "host_insert p e = (\<lparr>h_pid = p, h_waiter = hb_next (ho_hub e)\<rparr>,
     if 1 < p \<and> hb_procs (ho_hub e) p = None then e\<lparr>ho_hub := spawned (ho_hub e) p\<rparr> else e)"

definition host_clock :: "host clock" where
  "host_clock = \<lparr>ck_now = (\<lambda>e. (ho_time e, e)), ck_sleep = host_pause\<rparr>"

definition host_os :: "host os" where
  "host_os = \<lparr>os_clock = host_clock, os_names = \<lparr>tn_pid = 1, tn_seq = (\<lambda>e. (0, e))\<rparr>, os_environ = [],
     os_fork = host_fork, os_pidfd = (\<lambda>p e. (True, e)), os_insert = host_insert,
     os_status = (\<lambda>h e. (handle_status (ho_hub e) h, e)), os_cv_wait = (\<lambda>h. host_pause),
     os_registered = (\<lambda>p e. (hb_reg (ho_hub e) p \<noteq> None, e)),
     os_killpg = (\<lambda>p s e. (True, e)), os_kill = (\<lambda>p s e. (True, e)), os_dup = (\<lambda>p e. (True, e)),
     os_captured = (\<lambda>p e. (Some [], e)), os_stopping = (\<lambda>e. (fst (stopping (ho_stop e)), e)),
     os_take_stop = (\<lambda>e. (fst (take_stop (ho_stop e)), e\<lparr>ho_stop := snd (take_stop (ho_stop e))\<rparr>)), os_rounds = 5\<rparr>"

subsection \<open>Its hub makes steps\<close>

lemma host_exit_steps: "hub_step\<^sup>*\<^sup>* s (host_exit s p st)"
  unfolding host_exit_def by (auto intro: hub_step.Exit split: option.split proc.split)

lemma host_reap_steps: "hub_step\<^sup>*\<^sup>* s (host_reap s p)"
  unfolding host_reap_def by (auto intro: rtranclp.rtrancl_into_rtrancl hub_step.Reap hub_step.Deliver)

lemma host_pause_steps: "hub_step\<^sup>*\<^sup>* (ho_hub e) (ho_hub (snd (host_pause d e)))"
  unfolding host_pause_def
  by (auto intro: rtranclp_trans [OF host_exit_steps host_reap_steps] split: list.split)

lemma host_insert_steps: "hub_step\<^sup>*\<^sup>* (ho_hub e) (ho_hub (snd (host_insert p e)))"
  unfolding host_insert_def by (auto intro: hub_step.Spawn)

lemma host_fork_hub: "ho_hub (snd (host_fork c e)) = ho_hub e"
  by (simp add: host_fork_def split: list.split)

lemma host_insert_ok: "1 < p \<Longrightarrow> hb_procs (ho_hub e) p = None \<Longrightarrow>
    handle_ok (ho_hub (snd (host_insert p e))) (fst (host_insert p e))"
  by (simp add: host_insert_def handle_ok_def)

lemma host_over_hub: "over_hub host_os ho_hub"
  unfolding over_hub_def advances_def
  by (simp add: host_os_def host_clock_def host_pause_steps host_insert_steps host_fork_hub host_insert_ok
      del: split_paired_All) (simp add: host_insert_def)

lemma host_start_ok: "hub_ok (ho_hub (host_start ps es))"
  using hub_ok_reach [OF rtranclp.rtrancl_refl] by (simp add: host_start_def)

subsection \<open>A supervisor on it\<close>

text \<open>A supervisor whose bucket cannot be reached, with a maintenance thread that has nothing to do.\<close>

definition offline_deps :: "'e deps" where
  "offline_deps = \<lparr>d_http = (\<lambda>r e. (Inl Transport, e)), d_sleep = (\<lambda>n e. ((), e)), d_millis = (\<lambda>e. (0, e)),
     d_parse_create = (\<lambda>_. None), d_parse_list = (\<lambda>_. None), d_parse_url = (\<lambda>_. None),
     d_bucket_ok = (\<lambda>_. True), d_sha256 = (\<lambda>d. d)\<rparr>"

definition offline_tools :: "'e tools" where
  "offline_tools = \<lparr>tl_deps = offline_deps, tl_count = (\<lambda>d wal e. (Some (length d), e)),
     tl_integrity = (\<lambda>d e. (''ok'', e)), tl_vacuum = (\<lambda>d wal e. ((True, Some d), e)),
     tl_random = (\<lambda>e. (Some ''abcd'', e)), tl_nanos = (\<lambda>e. (7, e)),
     tl_stamp = (\<lambda>e. (''20260101T000000Z'', e))\<rparr>"

definition host_net :: "host net" where
  "host_net = \<lparr>nt_clock = host_clock, nt_connect = (\<lambda>p d e. (False, e)), nt_read_timeout = (\<lambda>d e. (True, e)),
     nt_write_timeout = (\<lambda>d e. (True, e)), nt_write = (\<lambda>s e. (True, e)), nt_read = (\<lambda>n e. (Bytes [], e)),
     nt_bind6 = (\<lambda>p e. (True, e)), nt_bind4 = (\<lambda>p e. (True, e))\<rparr>"

text \<open>A client that asks for the API, and a count of the connections to the vault.\<close>

definition asking_net :: "nat net" where
  "asking_net = \<lparr>nt_clock = \<lparr>ck_now = (\<lambda>e. (0, e)), ck_sleep = (\<lambda>d e. ((), e))\<rparr>, nt_connect = (\<lambda>p d e. (True, Suc e)),
     nt_read_timeout = (\<lambda>d e. (True, e)), nt_write_timeout = (\<lambda>d e. (True, e)), nt_write = (\<lambda>s e. (True, e)),
     nt_read = (\<lambda>n e. (Bytes (''GET /api HTTP/1.1'' @ [NL]), e)), nt_bind6 = (\<lambda>p e. (True, e)), nt_bind4 = (\<lambda>p e. (True, e))\<rparr>"

definition count_world :: "nat world" where
  "count_world = \<lparr>w_fs = [], w_faults = [], w_stat = [], w_now = 0, w_env = 7\<rparr>"

lemma asking_line: "run_state (request_line asking_net 5000) count_world = (Some ''GET /api HTTP/1.1'', count_world)"
  by (simp add: request_line_def asking_net_def read_head.simps env_op_def count_world_def REQ_CAP_def) code_simp

lemma asking_not_alive: "\<not> is_alive_request ''GET /api HTTP/1.1''"
  by code_simp

lemma asking_side: "client_side asking_net P"
  by (simp add: client_side_def asking_net_def)

definition host_reactor :: "host reactor_os" where
  "host_reactor = \<lparr>ro_clock = host_clock, ro_stopping = (\<lambda>e. (False, e)), ro_forced = (\<lambda>e. (False, e)),
     ro_recv = (\<lambda>t e. (Closed, e)), ro_finished = (\<lambda>e. (False, e)), ro_request_stop = (\<lambda>e. ((), e)),
     ro_force = (\<lambda>e. ((), e)), ro_send = (\<lambda>b f e. ((), e))\<rparr>"

definition host_supervisor :: "host supervisor" where
  "host_supervisor = \<lparr>su_os = host_os, su_tools = offline_tools, su_net = host_net,
     su_daemon = \<lparr>dm_start = (\<lambda>s e. ((), e)), dm_recv = (\<lambda>e. (Some (), e)), dm_stop = (\<lambda>e. ((), e))\<rparr>,
     su_reactor = host_reactor, su_dotenvy = (\<lambda>_. []), su_var = (\<lambda>_. None),
     su_register = (\<lambda>s e. (True, e)), su_start_gate = (\<lambda>p e. ((), e)), su_start_reactor = (\<lambda>e. (True, e)),
     su_idle = (\<lambda>e. (True, e)), su_idle_wait = (\<lambda>d e. ((), e))\<rparr>"

definition host_world :: "(string \<times> string) list \<Rightarrow> host \<Rightarrow> host world" where
  "host_world files e = \<lparr>w_fs = map (\<lambda>(p, d). (p, \<lparr>f_data = d, f_private = True, f_mtime = 1, f_ctime = 1\<rparr>)) files,
     w_faults = [], w_stat = [], w_now = 2, w_env = e\<rparr>"

definition demo_config :: config where
  "demo_config = \<lparr>cf_state = ''/data/tailscaled.state'', cf_socket = ''/tmp/tailscaled.sock'', cf_port = ''8080'',
     cf_vault_port = Some ''8081'', cf_hostname = ''vault'', cf_authkey = Some ''key'', cf_serve = True,
     cf_service = None, cf_userspace = True, cf_sync = None, cf_backup = Some demo_backup, cf_vw_env = []\<rparr>"

lemma demo_apart: "db_apart demo_backup None"
proof -
  have "repair_path ''/data'' = ''/data/.sync-repair''" "shadow_path ''/data'' = ''/data/.sync-pending-manifest''"
    by code_simp+
  then show ?thesis
    by (simp add: db_apart_def demo_sidecar) (simp add: demo_backup_def below_def push_files_of_def CACHE_PATH_def)
qed

lemma host_clock_ok: "clock_ok host_clock ho_time"
  by (auto simp: clock_ok_def host_clock_def host_pause_def split: list.split)

lemma host_drain_onward: "drain_ops_onward host_reactor never ho_time"
  using host_clock_ok by (simp add: drain_ops_onward_def host_reactor_def never_def)

end
