(* ===== verification/DaemonWorker.thy ===== *)
theory DaemonWorker
  imports FakeHost
begin

text \<open>
  The worker thread of \<open>wait_daemon\<close> (\<open>util/net.rs\<close>): it connects to the daemon's socket until that
  succeeds once or the caller has given up, and reports over a channel. \<open>over_worker\<close> states how the
  calls of the caller's side (the record \<open>daemon\<close> of \<open>Supervisor\<close>) relate to it. Under it a wait that
  reports readiness follows a connection that succeeded, and a worker whose caller is gone ends.
\<close>

subsection \<open>The worker\<close>

datatype worker_at = Checking | Dialing | Napping | Ended

record worker =
  wk_at :: worker_at
  wk_sent :: bool  \<comment> \<open>a message is in the channel\<close>
  wk_stop :: bool
  wk_up :: bool  \<comment> \<open>a connect has succeeded\<close>
  wk_late :: nat  \<comment> \<open>connects that returned after the stop\<close>

definition worker_new :: worker where
  "worker_new = \<lparr>wk_at = Checking, wk_sent = False, wk_stop = False, wk_up = False, wk_late = 0\<rparr>"

definition dialed :: "bool \<Rightarrow> worker \<Rightarrow> worker" where
  "dialed ok r = r\<lparr>wk_at := (if ok then Ended else Napping), wk_sent := wk_sent r \<or> ok, wk_up := wk_up r \<or> ok,
     wk_late := wk_late r + (if wk_stop r then 1 else 0)\<rparr>"

text \<open>The worker's steps, then the caller's two.\<close>

inductive worker_step :: "worker \<Rightarrow> worker \<Rightarrow> bool" where
  Check: "wk_at r = Checking \<Longrightarrow> worker_step r (r\<lparr>wk_at := if wk_stop r then Ended else Dialing\<rparr>)"
| Dial: "wk_at r = Dialing \<Longrightarrow> worker_step r (dialed ok r)"
| Wake: "wk_at r = Napping \<Longrightarrow> worker_step r (r\<lparr>wk_at := Checking\<rparr>)"
| Receive: "wk_sent r \<Longrightarrow> worker_step r (r\<lparr>wk_sent := False\<rparr>)"
| Quit: "worker_step r (r\<lparr>wk_stop := True\<rparr>)"

inductive_cases worker_stepE: "worker_step r s"

text \<open>A message means a connection; at most one connect returns after the stop, and none begins.\<close>

definition worker_ok :: "worker \<Rightarrow> bool" where
  "worker_ok r \<longleftrightarrow> (wk_sent r \<longrightarrow> wk_up r) \<and> (wk_up r \<longrightarrow> wk_at r = Ended) \<and> wk_late r \<le> 1 \<and>
     (wk_late r = 1 \<longrightarrow> wk_stop r \<and> wk_at r \<noteq> Dialing)"

interpretation dialer: machine "\<lambda>r. r = worker_new" worker_step worker_ok
proof (unfold_locales, goal_cases)
  case (2 r s)
  then show ?case
    by (cases rule: worker_step.cases) (auto simp: worker_ok_def dialed_def)
qed (simp add: worker_ok_def worker_new_def)

lemma up_stays: "worker_step\<^sup>*\<^sup>* r s \<Longrightarrow> worker_ok r \<Longrightarrow> wk_up r \<Longrightarrow> wk_up s"
  by (erule dialer.stays) (auto elim!: worker_stepE simp: dialed_def)

lemma stop_stays: "worker_step\<^sup>*\<^sup>* r s \<Longrightarrow> worker_ok r \<Longrightarrow> wk_stop r \<Longrightarrow> wk_stop s"
  by (erule dialer.stays) (auto elim!: worker_stepE simp: dialed_def)

text \<open>Once the caller has given up, every step of the worker brings it nearer to its end.\<close>

primrec way_left :: "worker_at \<Rightarrow> nat" where
  "way_left Dialing = 3"
| "way_left Napping = 2"
| "way_left Checking = 1"
| "way_left Ended = 0"

lemma worker_ends: "worker_step r s \<Longrightarrow> wk_stop r \<Longrightarrow> wk_at s = wk_at r \<or> way_left (wk_at s) < way_left (wk_at r)"
  by (auto elim!: worker_stepE simp: dialed_def split: if_splits)

subsection \<open>The caller\<close>

definition worker_moves :: "('e \<Rightarrow> worker) \<Rightarrow> ('e \<Rightarrow> 'a \<times> 'e) \<Rightarrow> bool" where
  "worker_moves f op \<longleftrightarrow> (\<forall>e. worker_step\<^sup>*\<^sup>* (f e) (f (snd (op e))))"

definition over_worker :: "'e clock \<Rightarrow> 'e daemon \<Rightarrow> ('e \<Rightarrow> worker) \<Rightarrow> bool" where
  "over_worker ck dm f \<longleftrightarrow>
     (\<forall>s e. worker_step\<^sup>*\<^sup>* worker_new (f (snd (dm_start dm s e)))) \<and>
     worker_moves f (ck_now ck) \<and> (\<forall>d. worker_moves f (ck_sleep ck d)) \<and>
     worker_moves f (dm_recv dm) \<and> worker_moves f (dm_stop dm) \<and>
     (\<forall>e. wk_stop (f (snd (dm_stop dm e)))) \<and>
     (\<forall>e. fst (dm_recv dm e) = Some () \<longrightarrow>
        (\<exists>r. worker_step\<^sup>*\<^sup>* (f e) r \<and> wk_sent r \<and> worker_step\<^sup>*\<^sup>* (r\<lparr>wk_sent := False\<rparr>) (f (snd (dm_recv dm e)))))"

abbreviation on_worker :: "('e \<Rightarrow> worker) \<Rightarrow> (worker \<Rightarrow> bool) \<Rightarrow> 'e world \<Rightarrow> bool" where
  "on_worker f P w \<equiv> P (f (w_env w))"

definition worker_up :: "worker \<Rightarrow> bool" where
  "worker_up r \<longleftrightarrow> worker_ok r \<and> wk_up r"

lemma moves_ok: "worker_moves f op \<Longrightarrow> preserves (on_worker f worker_ok) (env_op op)"
  by (rule env_op_preserves_env) (auto simp: worker_moves_def intro: dialer.steps_inv)

lemma moves_up: "worker_moves f op \<Longrightarrow> preserves (on_worker f worker_up) (env_op op)"
  by (rule env_op_preserves_env)
    (auto simp: worker_moves_def worker_up_def intro: dialer.steps_inv up_stays)

lemma receive_up:
  assumes "over_worker ck dm f"
  shows "hoare (on_worker f worker_ok) (env_op (dm_recv dm))
    (\<lambda>r. case r of Some _ \<Rightarrow> on_worker f worker_up | None \<Rightarrow> on_worker f worker_ok)"
proof (rule hoareI)
  fix w r v
  assume w: "on_worker f worker_ok w" and run: "run_state (env_op (dm_recv dm)) w = (r, v)"
  have recv: "r = fst (dm_recv dm (w_env w))" "w_env v = snd (dm_recv dm (w_env w))"
    using run by (auto simp: run_env_op)
  have "worker_moves f (dm_recv dm)"
    using assms by (simp add: over_worker_def)
  from preservesD [OF moves_ok [OF this] w run] have ok: "on_worker f worker_ok v" .
  show "(case r of Some _ \<Rightarrow> on_worker f worker_up | None \<Rightarrow> on_worker f worker_ok) v"
  proof (cases r)
    case (Some u)
    with assms recv(1) have "\<exists>q. worker_step\<^sup>*\<^sup>* (f (w_env w)) q \<and> wk_sent q \<and>
        worker_step\<^sup>*\<^sup>* (q\<lparr>wk_sent := False\<rparr>) (f (snd (dm_recv dm (w_env w))))"
      unfolding over_worker_def by simp
    then obtain q where q: "worker_step\<^sup>*\<^sup>* (f (w_env w)) q" "wk_sent q"
        "worker_step\<^sup>*\<^sup>* (q\<lparr>wk_sent := False\<rparr>) (f (w_env v))"
      unfolding recv(2) by blast
    have "worker_ok q"
      by (rule dialer.steps_inv [OF q(1) w])
    with q(2) have "worker_ok (q\<lparr>wk_sent := False\<rparr>)" "wk_up (q\<lparr>wk_sent := False\<rparr>)"
      by (auto simp: worker_ok_def)
    from up_stays [OF q(3) this] ok Some show ?thesis
      by (simp add: worker_up_def)
  qed (simp add: ok)
qed

text \<open>A wait that reports readiness follows a successful connect, and it always tells the worker to stop.\<close>

lemma wait_daemon_true:
  assumes over: "over_worker ck dm f" and abort: "worker_moves f abort"
  shows "hoare (\<lambda>_. True) (wait_daemon ck dm socket timeout abort)
    (\<lambda>r. on_worker f (\<lambda>s. worker_ok s \<and> wk_stop s \<and> (r \<longrightarrow> wk_up s)))"
proof -
  note O = over [unfolded over_worker_def]
  let ?Q = "\<lambda>r. on_worker f (\<lambda>s. worker_ok s \<and> wk_stop s \<and> (r \<longrightarrow> wk_up s))"
  have start: "hoare (\<lambda>_. True) (env_op (dm_start dm socket)) (\<lambda>_. on_worker f worker_ok)"
    by (rule hoareI) (use O in \<open>auto simp: run_env_op intro: dialer.reachable_inv [OF refl]\<close>)
  have wait: "hoare (on_worker f worker_ok) (wait_until ck (env_op (dm_recv dm)) timeout abort DAEMON_TICK)
      (\<lambda>r. case r of Some _ \<Rightarrow> on_worker f worker_up | None \<Rightarrow> on_worker f worker_ok)"
    by (rule wait_until_ok [OF receive_up [OF over] moves_ok [OF abort]]) (use O in \<open>auto intro: moves_ok\<close>)
  have stop: "hoare (on_worker f P) (do { env_op (dm_stop dm); ret b }) ?Q"
    if "\<And>op. worker_moves f op \<Longrightarrow> preserves (on_worker f P) (env_op op :: ('a world, unit) state)"
      "\<And>s. P s \<Longrightarrow> worker_ok s \<and> (b \<longrightarrow> wk_up s)" for P b
  proof (rule hoare_bind)
    show "hoare (on_worker f P) (env_op (dm_stop dm)) (\<lambda>_ w. on_worker f P w \<and> on_worker f wk_stop w)"
      by (rule hoare_both [OF that(1), of "dm_stop dm" "\<lambda>_. True" "\<lambda>_. on_worker f wk_stop"])
        (use O in \<open>auto simp: hoare_def run_env_op\<close>)
  qed (use that(2) in \<open>auto intro!: hoare_return\<close>)
  show ?thesis
    unfolding wait_daemon_def
  proof (rule hoare_bind [OF start], rule hoare_bind [OF wait])
    fix r :: "unit option"
    show "hoare (\<lambda>w. (case r of Some _ \<Rightarrow> on_worker f worker_up | None \<Rightarrow> on_worker f worker_ok) w)
        (do { env_op (dm_stop dm); ret (r \<noteq> None) }) ?Q"
    proof (cases r)
      case None
      show ?thesis
        unfolding None option.case by (rule stop [OF moves_ok]) simp_all
    next
      case (Some u)
      show ?thesis
        unfolding Some option.case by (rule stop [OF moves_up]) (auto simp: worker_up_def)
    qed
  qed
qed

subsection \<open>A worker whose daemon listens\<close>

text \<open>Each pause of the caller lets the worker take a step; the first connect succeeds.\<close>

definition worker_turn :: "worker \<Rightarrow> worker" where
  "worker_turn r = (case wk_at r of
     Checking \<Rightarrow> r\<lparr>wk_at := if wk_stop r then Ended else Dialing\<rparr>
   | Dialing \<Rightarrow> dialed True r | Napping \<Rightarrow> r\<lparr>wk_at := Checking\<rparr> | Ended \<Rightarrow> r)"

definition turn_clock :: "worker clock" where
  "turn_clock = \<lparr>ck_now = (\<lambda>r. (0, r)), ck_sleep = (\<lambda>d r. ((), worker_turn r))\<rparr>"

definition turn_daemon :: "worker daemon" where
  "turn_daemon = \<lparr>dm_start = (\<lambda>s r. ((), worker_new)),
     dm_recv = (\<lambda>r. if wk_sent r then (Some (), r\<lparr>wk_sent := False\<rparr>) else (None, r)),
     dm_stop = (\<lambda>r. ((), r\<lparr>wk_stop := True\<rparr>))\<rparr>"

lemma worker_turn_steps: "worker_step\<^sup>*\<^sup>* r (worker_turn r)"
proof (cases "wk_at r")
  case Checking
  with worker_step.Check [OF this] show ?thesis
    by (simp only: worker_turn_def worker_at.case r_into_rtranclp)
qed (auto simp: worker_turn_def intro: worker_step.intros)

lemma turn_over_worker: "over_worker turn_clock turn_daemon (\<lambda>r. r)"
  by (auto simp: over_worker_def turn_clock_def turn_daemon_def worker_moves_def worker_turn_steps
      intro: worker_step.intros)

lemma turn_never: "worker_moves f never"
  by (simp add: worker_moves_def never_def)

lemma turn_daemon_answers: "fst (run_state (wait_daemon turn_clock turn_daemon ''/s'' DAEMON_WAIT never) w)"
proof -
  have "wait_fuel DAEMON_WAIT DAEMON_TICK = Suc (Suc (Suc 299))"
    by (simp add: wait_fuel_def DAEMON_WAIT_def DAEMON_TICK_def)
  note fuel = this
  show ?thesis
    unfolding wait_daemon_def wait_until_def fuel wait_loop.simps
    by (simp add: turn_daemon_def turn_clock_def env_op_def never_def worker_turn_def worker_new_def dialed_def
        DAEMON_WAIT_def)
qed

end
