(* ===== verification/Reactor.thy ===== *)
theory Reactor
  imports Maintenance
begin

text \<open>
  The two threads of \<open>runtime/maintenance.rs\<close> and what they share: the \<open>Token\<close>, the channel and
  the join handle. The main thread stops and drains (\<open>Reactor::stop\<close>, \<open>Reactor::drain_with\<close>), the
  maintenance thread scans its tasks, waits and flushes (\<open>run\<close>, \<open>flush\<close>). A step is one atomic
  access of either thread, so all interleavings are there; whether a task is due or a flush is out
  of time is left open here (\<open>fire_due\<close> and \<open>flush_each\<close> of \<open>Maintenance\<close> decide it). The ghost
  \<open>re_log\<close> is the history of runs, newest first. The invariant shows that runs never overlap,
  that flushes follow every periodic run in task order, and that at most one periodic run begins
  after a stop was asked for.
\<close>

record token =
  tk_stop :: bool
  tk_forced :: bool

definition token_new :: token where
  "token_new = \<lparr>tk_stop = False, tk_forced = False\<rparr>"

definition request_stop :: "token \<Rightarrow> token" where
  "request_stop t = t\<lparr>tk_stop := True\<rparr>"

definition force :: "token \<Rightarrow> token" where
  "force t = t\<lparr>tk_forced := True\<rparr>"

text \<open>The maintenance thread: between two tasks, past the check of the token, in a run, \<dots>\<close>

datatype worker = Scanning nat | Cleared nat | Ticking nat | Waiting | Flushing nat | Finishing nat | Finished

datatype owner = Watching | Sending | Joining | Left

datatype event = TickBegin nat | TickEnd nat | FlushBegin nat | FlushEnd nat | StopAsked

record reactor =
  re_token :: token
  re_chan :: "(nat \<times> nat) option"
  re_worker :: worker
  re_owner :: owner
  re_log :: "event list"

definition reactor_new :: reactor where
  "reactor_new = \<lparr>re_token = token_new, re_chan = None, re_worker = Scanning 0, re_owner = Watching, re_log = []\<rparr>"

subsection \<open>Steps\<close>

definition ask_stop :: "reactor \<Rightarrow> reactor" where
  "ask_stop r = r\<lparr>re_token := request_stop (re_token r), re_log := StopAsked # re_log r\<rparr>"

definition moved :: "reactor \<Rightarrow> worker \<Rightarrow> event list \<Rightarrow> reactor" where
  "moved r a es = r\<lparr>re_worker := a, re_log := es @ re_log r\<rparr>"

text \<open>\<open>fin\<close> tells which of the tasks have a final flush.\<close>

inductive reactor_step :: "bool list \<Rightarrow> reactor \<Rightarrow> reactor \<Rightarrow> bool" for fin where
  Due: "re_worker r = Scanning i \<Longrightarrow> i < length fin \<Longrightarrow> \<not> tk_stop (re_token r) \<Longrightarrow>
    reactor_step fin r (moved r (Cleared i) [])"
| NotDue: "re_worker r = Scanning i \<Longrightarrow> i < length fin \<Longrightarrow> reactor_step fin r (moved r (Scanning (Suc i)) [])"
| TickBegins: "re_worker r = Cleared i \<Longrightarrow> reactor_step fin r (moved r (Ticking i) [TickBegin i])"
| TickEnds: "re_worker r = Ticking i \<Longrightarrow> reactor_step fin r (moved r (Scanning (Suc i)) [TickEnd i])"
| Scanned: "re_worker r = Scanning (length fin) \<Longrightarrow> reactor_step fin r (moved r Waiting [])"
| Timeout: "re_worker r = Waiting \<Longrightarrow> reactor_step fin r (moved r (Scanning 0) [])"
| Receive: "re_worker r = Waiting \<Longrightarrow> re_chan r = Some c \<Longrightarrow>
    reactor_step fin r (moved (r\<lparr>re_chan := None\<rparr>) (Flushing 0) [])"
| Disconnected: "re_worker r = Waiting \<Longrightarrow> re_chan r = None \<Longrightarrow> re_owner r = Left \<Longrightarrow>
    reactor_step fin r (moved r Finished [])"
| FlushSkipped: "re_worker r = Flushing i \<Longrightarrow> i < length fin \<Longrightarrow> reactor_step fin r (moved r (Flushing (Suc i)) [])"
| FlushBegins: "re_worker r = Flushing i \<Longrightarrow> i < length fin \<Longrightarrow> fin ! i \<Longrightarrow>
    reactor_step fin r (moved r (Finishing i) [FlushBegin i])"
| FlushEnds: "re_worker r = Finishing i \<Longrightarrow> reactor_step fin r (moved r (Flushing (Suc i)) [FlushEnd i])"
| Flushed: "re_worker r = Flushing (length fin) \<Longrightarrow> reactor_step fin r (moved r Finished [])"
| Stop: "re_owner r = Watching \<Longrightarrow> reactor_step fin r (ask_stop r)"
| Drain: "re_owner r = Watching \<Longrightarrow> reactor_step fin r (ask_stop r\<lparr>re_owner := Sending\<rparr>)"
| Send: "re_owner r = Sending \<Longrightarrow> reactor_step fin r (r\<lparr>re_chan := Some (b, f), re_owner := Joining\<rparr>)"
| Hurry: "re_owner r = Joining \<Longrightarrow> reactor_step fin r (r\<lparr>re_token := force (re_token r)\<rparr>)"
| Joined: "re_owner r = Joining \<Longrightarrow> re_worker r = Finished \<Longrightarrow> reactor_step fin r (r\<lparr>re_owner := Left\<rparr>)"
| Detached: "re_owner r = Joining \<Longrightarrow> reactor_step fin r (r\<lparr>re_owner := Left\<rparr>)"

inductive_cases reactor_stepE: "reactor_step fin r t"

subsection \<open>Histories\<close>

text \<open>The run that is open.\<close>

primrec in_run :: "event list \<Rightarrow> event option" where
  "in_run [] = None"
| "in_run (e # l) = (case e of TickBegin i \<Rightarrow> Some e | FlushBegin i \<Rightarrow> Some e | StopAsked \<Rightarrow> in_run l | _ \<Rightarrow> None)"

primrec serial :: "event list \<Rightarrow> bool" where
  "serial [] = True"
| "serial (e # l) \<longleftrightarrow> serial l \<and> (case e of
     TickBegin i \<Rightarrow> in_run l = None | FlushBegin i \<Rightarrow> in_run l = None
   | TickEnd i \<Rightarrow> in_run l = Some (TickBegin i) | FlushEnd i \<Rightarrow> in_run l = Some (FlushBegin i)
   | StopAsked \<Rightarrow> True)"

primrec flushes :: "event list \<Rightarrow> nat list" where
  "flushes [] = []"
| "flushes (e # l) = (case e of FlushBegin i \<Rightarrow> i # flushes l | _ \<Rightarrow> flushes l)"

text \<open>No periodic run follows a flush, and no flush precedes the request to stop.\<close>

primrec phased :: "event list \<Rightarrow> bool" where
  "phased [] = True"
| "phased (e # l) \<longleftrightarrow> phased l \<and> (case e of TickBegin i \<Rightarrow> flushes l = []
     | FlushBegin i \<Rightarrow> StopAsked \<in> set l | _ \<Rightarrow> True)"

primrec late_ticks :: "event list \<Rightarrow> nat" where
  "late_ticks [] = 0"
| "late_ticks (e # l) = (case e of TickBegin i \<Rightarrow> if StopAsked \<in> set l then 1 else 0 | _ \<Rightarrow> 0) + late_ticks l"

definition single_writer :: "event list \<Rightarrow> bool" where
  "single_writer l \<longleftrightarrow> serial l \<and> phased l \<and> sorted_wrt (>) (flushes l) \<and> late_ticks l \<le> 1"

subsection \<open>The invariant\<close>

fun worker_ok :: "worker \<Rightarrow> event list \<Rightarrow> bool" where
  "worker_ok (Scanning i) l \<longleftrightarrow> in_run l = None \<and> flushes l = []"
| "worker_ok (Cleared i) l \<longleftrightarrow> in_run l = None \<and> flushes l = [] \<and> late_ticks l = 0"
| "worker_ok (Ticking i) l \<longleftrightarrow> in_run l = Some (TickBegin i) \<and> flushes l = []"
| "worker_ok Waiting l \<longleftrightarrow> in_run l = None \<and> flushes l = []"
| "worker_ok (Flushing i) l \<longleftrightarrow> in_run l = None \<and> StopAsked \<in> set l \<and> (\<forall>j\<in>set (flushes l). j < i)"
| "worker_ok (Finishing i) l \<longleftrightarrow> in_run l = Some (FlushBegin i) \<and> StopAsked \<in> set l \<and>
     (\<forall>j\<in>set (flushes l). j \<le> i)"
| "worker_ok Finished l \<longleftrightarrow> in_run l = None"

lemma worker_ok_stop: "worker_ok a l \<Longrightarrow> worker_ok a (StopAsked # l)"
  by (cases a) simp_all

definition reactor_ok :: "reactor \<Rightarrow> bool" where
  "reactor_ok r \<longleftrightarrow> single_writer (re_log r) \<and> worker_ok (re_worker r) (re_log r) \<and>
     (tk_stop (re_token r) \<longleftrightarrow> StopAsked \<in> set (re_log r)) \<and>
     (\<not> tk_stop (re_token r) \<longrightarrow> re_owner r = Watching \<and> re_chan r = None)"

lemma no_stop_no_late: "StopAsked \<notin> set l \<Longrightarrow> late_ticks l = 0"
  by (induction l) (auto split: event.splits)

interpretation reactor: machine "\<lambda>r. r = reactor_new" "reactor_step fin" reactor_ok
proof
  show "reactor_ok r" if "r = reactor_new" for r
    using that by (simp add: reactor_new_def reactor_ok_def token_new_def single_writer_def)
  show "reactor_ok t" if "reactor_step fin r t" "reactor_ok r" for r t
    using that
    by (cases rule: reactor_step.cases)
      (auto simp: reactor_ok_def single_writer_def moved_def ask_stop_def request_stop_def force_def
        no_stop_no_late worker_ok_stop)
qed

lemma reactor_single_writer: "(reactor_step fin)\<^sup>*\<^sup>* reactor_new r \<Longrightarrow> single_writer (re_log r)"
  using reactor.reachable_inv [of reactor_new fin r] by (simp add: reactor_ok_def)

text \<open>The run that begins after the stop was asked for begins with the token set.\<close>

lemma late_tick_sees_stop: "reactor_ok r \<Longrightarrow> StopAsked \<in> set (re_log r) \<Longrightarrow> tk_stop (re_token r)"
  by (simp add: reactor_ok_def)

end
