(* ===== verification/ReaperThread.thy ===== *)
theory ReaperThread
  imports Reaper
begin

text \<open>
  The reaper's thread: \<open>run\<close> and \<open>set_idle\<close> of \<open>runtime/process/reaper.rs\<close>, around the pass of
  \<open>Reaper\<close>. Its flag \<open>IDLE\<close> is what \<open>quiesce\<close> waits for at shutdown. While the flag is set no status is
  between the kernel and its waiter; but the flag says nothing of children that no pass has seen yet.
\<close>

subsection \<open>The thread\<close>

record reaper_thread =
  rt_hub :: hub
  rt_pass :: bool  \<comment> \<open>inside \<open>tick\<close>\<close>
  rt_idle :: bool

definition set_idle :: "bool \<Rightarrow> reaper_thread \<Rightarrow> reaper_thread" where
  "set_idle idle t = t\<lparr>rt_idle := idle\<rparr>"

definition reaper_new :: reaper_thread where
  "reaper_new = \<lparr>rt_hub = hub_start, rt_pass = False, rt_idle = True\<rparr>"

text \<open>
  The loop marks the flag, makes a pass of reaps and deliveries in any order and number, and sets the
  flag again. Everybody else takes the steps of the hub that neither reap nor deliver.
\<close>

inductive thread_step :: "reaper_thread \<Rightarrow> reaper_thread \<Rightarrow> bool" where
  Begin: "\<not> rt_pass t \<Longrightarrow> thread_step t (set_idle False t\<lparr>rt_pass := True\<rparr>)"
| Take: "rt_pass t \<Longrightarrow> hb_pending (rt_hub t) = None \<Longrightarrow> thread_step t (t\<lparr>rt_hub := reap (rt_hub t) p\<rparr>)"
| Hand: "rt_pass t \<Longrightarrow> thread_step t (t\<lparr>rt_hub := deliver_waiter (rt_hub t)\<rparr>)"
| End: "rt_pass t \<Longrightarrow> hb_pending (rt_hub t) = None \<Longrightarrow> thread_step t (set_idle True (t\<lparr>rt_pass := False\<rparr>))"
| Others: "hub_step (rt_hub t) s \<Longrightarrow> hb_pending s = hb_pending (rt_hub t) \<Longrightarrow> thread_step t (t\<lparr>rt_hub := s\<rparr>)"

inductive_cases thread_stepE: "thread_step t u"

definition thread_ok :: "reaper_thread \<Rightarrow> bool" where
  "thread_ok t \<longleftrightarrow> hub_ok (rt_hub t) \<and> (rt_idle t \<longleftrightarrow> \<not> rt_pass t) \<and> (rt_idle t \<longrightarrow> hb_pending (rt_hub t) = None)"

text \<open>The thread refines the hub: each of its steps is one of the hub's, or none.\<close>

lemma thread_hub_step: "thread_step t u \<Longrightarrow> rt_hub u = rt_hub t \<or> hub_step (rt_hub t) (rt_hub u)"
  by (auto elim!: thread_stepE simp: set_idle_def intro: hub_step.intros)

interpretation reaper_loop: machine "\<lambda>t. t = reaper_new" thread_step thread_ok
proof (unfold_locales, goal_cases)
  case (1 t)
  then show ?case
    using hub.start_inv [OF refl] by (simp add: thread_ok_def reaper_new_def hub_start_def)
next
  case (2 t u)
  have "hub_ok (rt_hub u)"
    using thread_hub_step [OF 2(1)] 2(2) hub.step_inv by (auto simp: thread_ok_def)
  with 2 show ?case
    by (auto elim!: thread_stepE simp: thread_ok_def set_idle_def)
qed

lemma thread_refines: "thread_step\<^sup>*\<^sup>* t u \<Longrightarrow> hub_step\<^sup>*\<^sup>* (rt_hub t) (rt_hub u)"
proof (induction rule: rtranclp_induct)
  case (step u v)
  then show ?case
    using thread_hub_step [OF step(2)] by (auto intro: rtranclp.rtrancl_into_rtrancl)
qed simp

subsection \<open>What the flag means\<close>

text \<open>With the flag set, whoever is dead and reaped has had its status delivered.\<close>

lemma idle_delivered:
  assumes "thread_step\<^sup>*\<^sup>* reaper_new t" "rt_idle t" "hb_live (rt_hub t) n" "hb_exit (rt_hub t) n = Some st"
    and "\<not> with_proc (rt_hub t) n"
  shows "hb_slots (rt_hub t) n = Some st"
proof -
  have ok: "hub_ok (rt_hub t)" "hb_pending (rt_hub t) = None"
    using reaper_loop.reachable_inv [OF refl assms(1)] assms(2) by (auto simp: thread_ok_def)
  then obtain st' where "hb_slots (rt_hub t) n = Some st'"
    using hub_found [OF ok(1), of n] assms(3,5) by (auto simp: with_proc_def)
  with hub_slot [OF ok(1)] assms(4) show ?thesis
    by auto
qed

text \<open>
  The flag is set from the start and between any two passes, so it can be set while a child waits to be
  reaped: \<open>quiesce\<close> then returns at once, without the pass its comment promises.
\<close>

lemma idle_with_zombie: "\<exists>t. thread_step\<^sup>*\<^sup>* reaper_new t \<and> rt_idle t \<and> is_zombie (rt_hub t) 5"
proof -
  let ?t = "reaper_new\<lparr>rt_hub := spawned hub_start 5\<rparr>"
  let ?u = "?t\<lparr>rt_hub := proc_exit (spawned hub_start 5) 5 (Some 0) (Exited 5 3)\<rparr>"
  have "hub_step hub_start (spawned hub_start 5)"
    by (rule hub_step.Spawn) (simp_all add: hub_start_def)
  then have "thread_step reaper_new ?t"
    using thread_step.Others [of reaper_new "spawned hub_start 5"] by (simp add: reaper_new_def hub_start_def)
  moreover have "hub_step (spawned hub_start 5) (proc_exit (spawned hub_start 5) 5 (Some 0) (Exited 5 3))"
    by (rule hub_step.Exit) (simp_all add: hub_start_def ws_pid_def)
  then have "thread_step ?t ?u"
    using thread_step.Others [of ?t "proc_exit (spawned hub_start 5) 5 (Some 0) (Exited 5 3)"] by (simp add: hub_start_def)
  ultimately have "thread_step\<^sup>*\<^sup>* reaper_new ?u"
    by (meson converse_rtranclp_into_rtranclp r_into_rtranclp)
  moreover have "rt_idle ?u \<and> is_zombie (rt_hub ?u) 5"
    by (simp add: reaper_new_def is_zombie_def hub_start_def)
  ultimately show ?thesis
    by blast
qed

end
