(* ===== verification/Pidfd.thy ===== *)
theory Pidfd
  imports ReaperThread Process
begin

text \<open>
  \<open>runtime/process/pidfd.rs\<close> and its use in the pass of \<open>runtime/process/reaper.rs\<close>: which
  children a poll of their descriptors reports ready, and the pass over them. The two system calls are
  arguments: the result of \<open>pidfd_open\<close>, and \<open>poll\<close>, which answers the number of ready descriptors
  (or an error) and the returned events of each. The lemmas show the module's claim that a poll only
  ever costs latency: whatever it answers, the pass delivers every exit.
\<close>

text \<open>Milliseconds; \<open>poll\<close> takes an \<open>i32\<close>.\<close>

definition MAX_POLL_MS :: nat where "MAX_POLL_MS = 2 ^ 31 - 1"

text \<open>\<open>PidFd::open\<close>: a negative result is the failure of the call.\<close>

definition pidfd_open :: "int \<Rightarrow> unit + int" where
  "pidfd_open fd = (if fd < 0 then Inl () else Inr fd)"

type_synonym poll_call = "int list \<Rightarrow> nat \<Rightarrow> int \<times> 16 word list"

definition ready_indices :: "poll_call \<Rightarrow> int list \<Rightarrow> nat \<Rightarrow> nat list" where
  "ready_indices poll fds timeout =
     (if fds = [] then []
      else case poll fds (min timeout MAX_POLL_MS) of (n, revents) \<Rightarrow>
        if n \<le> 0 then []
        else map fst (filter (\<lambda>(i, r). r \<noteq> 0) (enumerate 0 revents)))"

text \<open>The pass: the registered children with their descriptors, in the order of the map.\<close>

definition reaper_pass :: "poll_call \<Rightarrow> (pid \<times> int) list \<Rightarrow> pid list \<Rightarrow> hub \<Rightarrow> hub" where
  "reaper_pass poll entries order s =
     reaper_tick (map (\<lambda>i. fst (entries ! i)) (ready_indices poll (map snd entries) POLL)) order s"

text \<open>\<open>poll\<close> fills the array it is given.\<close>

definition fills :: "poll_call \<Rightarrow> bool" where
  "fills poll \<longleftrightarrow> (\<forall>fds ms. length (snd (poll fds ms)) = length fds)"

lemma ready_index: "fills poll \<Longrightarrow> i \<in> set (ready_indices poll fds ms) \<Longrightarrow>
    i < length fds \<and> snd (poll fds (min ms MAX_POLL_MS)) ! i \<noteq> 0"
  by (cases "poll fds (min ms MAX_POLL_MS)")
    (auto simp: ready_indices_def fills_def in_set_enumerate_eq split: if_splits, (metis snd_conv)+)

lemma ready_sorted: "sorted_wrt (<) (ready_indices poll fds ms)"
proof -
  have "sorted_wrt (<) (map fst (filter P (enumerate k rs)))" for P and k :: nat and rs :: "16 word list"
    by (induction rs arbitrary: k) (auto simp: in_set_enumerate_eq)
  then show ?thesis
    by (simp add: ready_indices_def split: prod.split)
qed

text \<open>Only registered children are reaped by the poll, each at most once.\<close>

lemma ready_children:
  fixes ms :: nat
  assumes "fills poll" "distinct (map fst entries)"
  defines "ready \<equiv> map (\<lambda>i. fst (entries ! i)) (ready_indices poll (map snd entries) ms)"
  shows "set ready \<subseteq> set (map fst entries)" "distinct ready"
proof -
  have i: "i < length entries" if "i \<in> set (ready_indices poll (map snd entries) ms)" for i
    using ready_index [OF assms(1) that] by simp
  then show "set ready \<subseteq> set (map fst entries)"
    by (auto simp: ready_def)
  have "inj_on (\<lambda>i. fst (entries ! i)) (set (ready_indices poll (map snd entries) ms))"
    using assms(2) i by (auto intro!: inj_onI simp: distinct_conv_nth)
  moreover have "distinct (ready_indices poll (map snd entries) ms)"
    using ready_sorted strict_sorted_iff by blast
  ultimately show "distinct ready"
    by (simp add: ready_def distinct_map)
qed

text \<open>Whatever the poll answers, the pass delivers the status of every child that has exited.\<close>

lemma pass_delivers:
  assumes "hub_ok s" "hb_pending s = None" "\<And>p. is_zombie s p \<Longrightarrow> p \<in> set order"
    and "hb_live s n" "hb_exit s n = Some st"
  shows "hb_slots (reaper_pass poll entries order s) n = Some st"
  unfolding reaper_pass_def by (rule tick_delivers [OF assms])

lemma pass_steps: "hb_pending s = None \<Longrightarrow> hub_step\<^sup>*\<^sup>* s (reaper_pass poll entries order s)"
  unfolding reaper_pass_def by (simp add: tick_steps)

end
