(* ===== verification/S3Reader.thy ===== *)
theory S3Reader
  imports S3Service FakeServer
begin

text \<open>
  What a download brings back. \<open>s3_reader\<close> adds to \<open>s3_service\<close> the documented content of a
  \<open>GetObject\<close> response: its chunks are a piece of the object from the requested offset (from the
  start, when the service ignores the range), and it either declares the length of that rest or
  ends with it. The proofs show that \<open>Client::get\<close> then publishes the object itself, whatever
  breaks off or is retried on the way, provided no stale temp file lies at the target.
\<close>

subsection \<open>Responses\<close>

fun streamed :: "string \<Rightarrow> (unit + string) list \<Rightarrow> bool" where
  "streamed rest [] \<longleftrightarrow> True"
| "streamed rest (Inl _ # cs) \<longleftrightarrow> True"
| "streamed rest (Inr b # cs) \<longleftrightarrow> prefix b rest \<and> streamed (drop (length b) rest) cs"

text \<open>A stream that ends without an error (an empty chunk is its end) ends with the rest.\<close>

fun whole_stream :: "string \<Rightarrow> (unit + string) list \<Rightarrow> bool" where
  "whole_stream rest [] \<longleftrightarrow> rest = []"
| "whole_stream rest (Inl _ # cs) \<longleftrightarrow> True"
| "whole_stream rest (Inr b # cs) \<longleftrightarrow> (if b = [] then rest = [] else whole_stream (drop (length b) rest) cs)"

definition serves :: "string \<Rightarrow> response \<Rightarrow> bool" where
  "serves rest rp \<longleftrightarrow> streamed rest (rp_body rp) \<and>
     (declared_length rp = Some (length rest) \<or> declared_length rp = None \<and> whole_stream rest (rp_body rp))"

definition served_from :: "nat option \<Rightarrow> response \<Rightarrow> nat" where
  "served_from off rp = (case off of None \<Rightarrow> 0 | Some n \<Rightarrow> if rp_status rp = 206 then n else 0)"

locale s3_reader = s3_service dp cl bk up after
  for dp :: "'e deps" and cl :: client and bk :: "'e \<Rightarrow> string \<Rightarrow> string option"
    and up :: "'e \<Rightarrow> string \<Rightarrow> nat \<Rightarrow> (string \<times> string) option" and after :: "string option \<Rightarrow> string \<Rightarrow> bool" +
  assumes body_law: "d_http dp \<lparr>rq_client = cl, rq_action = GetObject off, rq_key = k, rq_body = d\<rparr> e = (Inr rp, e') \<Longrightarrow>
    accepted_by (Inr rp) \<Longrightarrow> \<exists>obj. bk e k = Some obj \<and> serves (drop (served_from off rp) obj) rp"

subsection \<open>The temp file is a piece of the object\<close>

definition piece :: "string \<Rightarrow> inode option \<Rightarrow> bool" where
  "piece obj x \<longleftrightarrow> (\<forall>i. x = Some i \<longrightarrow> prefix (f_data i) obj)"

definition piece_to :: "string \<Rightarrow> nat \<Rightarrow> inode option \<Rightarrow> bool" where
  "piece_to obj n x \<longleftrightarrow> has_len n x \<and> piece obj x"

lemma piece_to_data: "piece_to obj n x \<longleftrightarrow> (\<exists>i. x = Some i \<and> f_data i = take n obj) \<and> n \<le> length obj"
proof
  assume "piece_to obj n x"
  then show "(\<exists>i. x = Some i \<and> f_data i = take n obj) \<and> n \<le> length obj"
    by (auto simp: piece_to_def piece_def has_len_def prefix_def)
qed (auto simp: piece_to_def piece_def has_len_def take_is_prefix)

lemma open_temp_piece:
  "hoare (on_file tmp (\<lambda>x. piece obj x \<and> resumable start x)) (open_temp tmp (start = 0))
    (\<lambda>r. on_file tmp (\<lambda>x. case r of Inl _ \<Rightarrow> piece obj x | Inr _ \<Rightarrow> piece_to obj start x))"
  by (rule hoareI) (auto simp: open_temp_def opened_def resumable_def piece_to_def piece_def has_len_def
    dest!: run_next_fault split: prod.splits if_splits option.splits)

lemma write_all_piece: "prefix b (drop got obj) \<Longrightarrow>
    hoare (on_file tmp (piece_to obj got)) (write_all tmp b)
    (\<lambda>r. on_file tmp (\<lambda>x. case r of Inl _ \<Rightarrow> piece obj x | Inr _ \<Rightarrow> piece_to obj (got + length b) x))"
proof (rule hoareI)
  fix w r v
  assume b: "prefix b (drop got obj)" and w: "on_file tmp (piece_to obj got) w" and run: "run_state (write_all tmp b) w = (r, v)"
  obtain i where i: "file_at w tmp = Some i" "f_data i = take got obj" "got \<le> length obj"
    using w by (auto simp: piece_to_data)
  obtain t where t: "drop got obj = b @ t"
    using b by (auto simp: prefix_def)
  then have obj: "obj = take got obj @ b @ t"
    by (metis append_take_drop_id)
  have full: "prefix (take got obj @ b) obj" and torn: "prefix (take got obj @ take n b) obj" for n
    using obj by (metis append_assoc prefix_def, metis append_assoc append_take_drop_id prefix_def)
  show "on_file tmp (\<lambda>x. case r of Inl _ \<Rightarrow> piece obj x | Inr _ \<Rightarrow> piece_to obj (got + length b) x) v"
    using run i full torn
    by (auto simp: write_all_def appended_def piece_to_def piece_def has_len_def take_is_prefix
        dest!: run_next_fault split: prod.splits fault.splits)
qed

lemma piece_to_piece: "piece_to obj n x \<Longrightarrow> piece obj x"
  by (simp add: piece_to_def)

lemma piece_self [simp]: "piece (f_data i) (Some i)"
  by (simp add: piece_def)

text \<open>What a transfer leaves: a piece, and on success a longer one, the whole if the stream was whole.\<close>

definition transferred :: "string \<Rightarrow> nat \<Rightarrow> bool \<Rightarrow> s3_error + nat \<Rightarrow> inode option \<Rightarrow> bool" where
  "transferred obj start whole r x \<longleftrightarrow> piece obj x \<and>
     (case r of Inl _ \<Rightarrow> True | Inr n \<Rightarrow> piece_to obj n x \<and> start \<le> n \<and> (whole \<longrightarrow> n = length obj))"

lemma transferred_simps [simp]: "transferred obj start whole (Inl e) x \<longleftrightarrow> piece obj x"
  "transferred obj start whole (Inr n) x \<longleftrightarrow> piece_to obj n x \<and> start \<le> n \<and> (whole \<longrightarrow> n = length obj)"
  by (auto simp: transferred_def piece_to_piece split: sum.split)

lemma hoare_guard: "preserves P (env_op abort) \<Longrightarrow> hoare P m Q \<Longrightarrow> (\<And>s. P s \<Longrightarrow> Q (Inl Aborted) s) \<Longrightarrow>
    hoare P (guard_abort abort m) Q"
  unfolding guard_abort_def by (intro hoare_keep hoare_if) (auto intro: hoare_return)

lemma stream_body_piece: "streamed (drop got obj) cs \<Longrightarrow>
    hoare (on_file tmp (piece_to obj got)) (stream_body tmp ex abort got cs)
      (\<lambda>r. on_file tmp (transferred obj got (whole_stream (drop got obj) cs) r))"
proof (induction tmp ex abort got cs rule: stream_body.induct)
  case (1 tmp ex abort got)
  show ?case
    unfolding stream_body.simps
    by (intro hoare_guard env_op_preserves_fs hoare_return) (auto simp: piece_to_data piece_to_piece)
next
  case (2 tmp ex abort got u cs)
  show ?case
    unfolding stream_body.simps
    by (intro hoare_guard env_op_preserves_fs hoare_return) (auto simp: piece_to_piece)
next
  case (3 tmp ex abort got b cs)
  let ?Q = "\<lambda>r. on_file tmp (transferred obj got (whole_stream (drop got obj) (Inr b # cs)) r)"
  have err: "hoare (on_file tmp (piece obj)) (ret (Inl e)) ?Q" for e
    by (rule hoare_return) simp
  have go: "hoare (on_file tmp (piece_to obj got)) (do {
          r \<leftarrow> write_all tmp b;
          case r of Inl _ \<Rightarrow> ret (Inl WriteFailed)
          | Inr _ \<Rightarrow> stream_body tmp ex abort (got + length b) cs }) ?Q" if b: "b \<noteq> []" "over ex (got + length b) = None"
  proof (rule hoare_bind [OF write_all_piece])
    show "prefix b (drop got obj)"
      using 3 by simp
    fix r :: "io_error + unit"
    have rest: "hoare (on_file tmp (piece_to obj (got + length b))) (stream_body tmp ex abort (got + length b) cs) ?Q"
      by (rule hoare_weaken [OF 3(1) [OF b]])
        (use 3(2) b in \<open>auto simp: transferred_def add.commute split: sum.splits\<close>)
    show "hoare (\<lambda>w. on_file tmp (\<lambda>x. case r of Inl _ \<Rightarrow> piece obj x | Inr _ \<Rightarrow> piece_to obj (got + length b) x) w)
        (case r of Inl _ \<Rightarrow> ret (Inl WriteFailed) | Inr _ \<Rightarrow> stream_body tmp ex abort (got + length b) cs) ?Q"
      by (cases r; simp only: sum.case) (rule err, rule rest)
  qed
  have inner: "hoare (on_file tmp (piece_to obj got)) (if b = [] then ret (Inr got)
      else case over ex (got + length b) of Some e \<Rightarrow> ret (Inl e)
      | None \<Rightarrow> do {
          r \<leftarrow> write_all tmp b;
          case r of Inl _ \<Rightarrow> ret (Inl WriteFailed)
          | Inr _ \<Rightarrow> stream_body tmp ex abort (got + length b) cs }) ?Q"
  proof (cases "b = []")
    case True
    then show ?thesis
      by (simp, intro hoare_return) (auto simp: piece_to_data piece_to_piece)
  next
    case False
    show ?thesis
    proof (cases "over ex (got + length b)")
      case None
      with False go show ?thesis by simp
    next
      case (Some e)
      with False show ?thesis
        by (simp, intro hoare_return) (simp add: piece_to_piece)
    qed
  qed
  show ?case
    unfolding stream_body.simps by (intro hoare_guard env_op_preserves_fs inner) (simp add: piece_to_piece)
qed

text \<open>One response: what it leaves in the temp, from the position the client takes it to start at.\<close>

lemma receive_piece:
  assumes "serves (drop start obj) rp" "start \<le> length obj"
  shows "hoare (on_file tmp (\<lambda>x. piece obj x \<and> resumable start x)) (receive tmp ex abort start rp)
    (\<lambda>r. on_file tmp (transferred obj start True r))"
proof -
  let ?Q = "\<lambda>r. on_file tmp (transferred obj start True r)"
  let ?whole = "whole_stream (drop start obj) (rp_body rp)"
  have err: "hoare (on_file tmp (piece obj)) (ret (Inl e)) ?Q" for e
    by (rule hoare_return) simp
  have fin: "hoare (on_file tmp (transferred obj start ?whole (Inr n))) (finish_stream (declared_length rp) start n) ?Q" for n
  proof -
    have "n = length obj" if "n - start = length obj - start" "start \<le> n" "n \<le> length obj"
      using that by simp
    then have "hoare (on_file tmp (transferred obj start ?whole (Inr n)))
        (do { r \<leftarrow> fs_dir_op; ret (case r of Inl _ \<Rightarrow> Inl WriteFailed | Inr _ \<Rightarrow> Inr n) }) ?Q"
      if "declared_length rp = None \<or> declared_length rp = Some (n - start)"
      using assms that by (intro hoare_keep [OF temp_frame(4) [where ps = "{}"]] hoare_return)
        (auto simp: serves_def piece_to_data piece_to_piece split: sum.split)
    then show ?thesis
      unfolding finish_stream_def by (auto intro!: hoare_if hoare_return simp: piece_to_piece)
  qed
  have stream: "hoare (on_file tmp (piece_to obj start)) (do {
         s \<leftarrow> stream_body tmp ex abort start (rp_body rp);
         case s of Inl e \<Rightarrow> ret (Inl e)
         | Inr got \<Rightarrow> finish_stream (declared_length rp) start got }) ?Q"
  proof (rule hoare_bind [OF stream_body_piece])
    show "streamed (drop start obj) (rp_body rp)"
      using assms by (simp add: serves_def)
    fix r :: "s3_error + nat"
    show "hoare (\<lambda>w. on_file tmp (transferred obj start ?whole r) w) (case r of Inl e \<Rightarrow> ret (Inl e)
        | Inr got \<Rightarrow> finish_stream (declared_length rp) start got) ?Q"
      using fin by (cases r) (simp_all add: hoare_return)
  qed
  show ?thesis
    unfolding receive_def
  proof (rule hoare_bind [OF open_temp_piece])
    fix r :: "io_error + unit"
    show "hoare (\<lambda>w. on_file tmp (\<lambda>x. case r of Inl _ \<Rightarrow> piece obj x | Inr _ \<Rightarrow> piece_to obj start x) w)
        (case r of Inl _ \<Rightarrow> ret (Inl WriteFailed) | Inr _ \<Rightarrow> do {
         s \<leftarrow> stream_body tmp ex abort start (rp_body rp);
         case s of Inl e \<Rightarrow> ret (Inl e)
         | Inr got \<Rightarrow> finish_stream (declared_length rp) start got }) ?Q"
      using err stream by (cases r) (simp_all only: sum.case)
  qed
qed

lemma after_failure_again:
  "hoare (\<lambda>_. True) (after_failure tmp ex abort final e) (\<lambda>a _. \<forall>r. a = Done r \<longrightarrow> r = Inl e)"
  by (rule hoareI) (auto simp: after_failure_def Let_def split: prod.splits if_splits)

subsection \<open>The whole download\<close>

context s3_reader
begin

definition reading :: "(string \<Rightarrow> string option) \<Rightarrow> string \<Rightarrow> string \<Rightarrow> 'e world \<Rightarrow> bool" where
  "reading b key tmp w \<longleftrightarrow> bk (w_env w) = b \<and> (\<forall>obj. b key = Some obj \<longrightarrow> piece obj (file_at w tmp))"

definition attempted :: "(string \<Rightarrow> string option) \<Rightarrow> string \<Rightarrow> string \<Rightarrow> attempt \<Rightarrow> 'e world \<Rightarrow> bool" where
  "attempted b key tmp a w \<longleftrightarrow> reading b key tmp w \<and> (case a of
     Done (Inl _) \<Rightarrow> True
   | Done (Inr n) \<Rightarrow> b key = map_option f_data (file_at w tmp) \<and> has_len n (file_at w tmp)
   | Again k \<Rightarrow> resumable k (file_at w tmp))"

lemma reading_abort: "calm abort \<Longrightarrow> preserves (\<lambda>w. reading b key tmp w \<and> P (file_at w tmp)) (env_op abort)"
  by (rule preservesI) (auto simp: reading_def calm_def quiet_def env_op_def split: prod.splits, metis snd_conv)

lemma quiet_abort_env: "calm abort \<Longrightarrow> preserves (on_env (\<lambda>e. bk e = b)) (env_op abort)"
  by (rule preservesI) (auto simp: calm_def quiet_def env_op_def split: prod.splits, metis snd_conv)

lemma send_get: "hoare (\<lambda>w. reading b key tmp w \<and> P (file_at w tmp)) (send dp cl (GetObject off) key [])
    (\<lambda>r w. reading b key tmp w \<and> P (file_at w tmp) \<and> (\<forall>rp. r = Inr rp \<longrightarrow> accepted_by r \<longrightarrow>
      (\<exists>obj. b key = Some obj \<and> serves (drop (served_from off rp) obj) rp)))"
proof (rule hoareI)
  fix w r v
  assume w: "reading b key tmp w \<and> P (file_at w tmp)" and run: "run_state (send dp cl (GetObject off) key []) w = (r, v)"
  have r: "w_fs v = w_fs w" "d_http dp \<lparr>rq_client = cl, rq_action = GetObject off, rq_key = key, rq_body = []\<rparr> (w_env w) = (r, w_env v)"
    using run_send [OF run] by simp_all
  have "bk (w_env v) = bk (w_env w)"
    using get_object_law [OF r(2)] by simp
  with w r body_law show "reading b key tmp v \<and> P (file_at v tmp) \<and> (\<forall>rp. r = Inr rp \<longrightarrow> accepted_by r \<longrightarrow>
      (\<exists>obj. b key = Some obj \<and> serves (drop (served_from off rp) obj) rp))"
    unfolding reading_def by metis
qed

lemma after_failure_attempted:
  assumes "calm abort"
  shows "hoare (reading b key tmp) (after_failure tmp ex abort final e) (attempted b key tmp)"
proof -
  have env: "preserves (on_env (\<lambda>e. bk e = b)) (after_failure tmp ex abort final e)"
    unfolding after_failure_def Let_def by (intro preserves_rules temp_env quiet_abort_env assms)
  have "preserves (\<lambda>w. on_env (\<lambda>e. bk e = b) w \<and> on_file tmp (\<lambda>x. \<forall>obj. b key = Some obj \<longrightarrow> piece obj x) w)
      (after_failure tmp ex abort final e)"
    by (rule preserves_conj [OF env after_failure_other])
  then have keep: "preserves (reading b key tmp) (after_failure tmp ex abort final e)"
    by (simp add: reading_def [abs_def])
  show ?thesis
    by (rule hoare_both [OF keep hoare_conj [OF after_failure_ok after_failure_again]])
      (auto simp: attempted_def split: attempt.splits sum.splits)
qed

lemma attempt_once_attempted:
  assumes calm: "calm abort"
  shows "hoare (\<lambda>w. reading b key tmp w \<and> resumable offset (file_at w tmp))
    (attempt_once dp cl key tmp ex abort final offset) (attempted b key tmp)"
proof -
  let ?off = "if 0 < offset then Some offset else None"
  let ?P = "\<lambda>w. reading b key tmp w \<and> resumable offset (file_at w tmp)"
  have done_: "hoare ?P (ret (Done (Inl e))) (attempted b key tmp)" for e
    by (rule hoare_return) (simp add: attempted_def)
  have got: "hoare ?P (do {
             s \<leftarrow> receive tmp ex abort (if 0 < offset \<and> rp_status rp \<noteq> 206 then 0 else offset) rp;
             case s of Inr got \<Rightarrow> ret (Done (Inr got))
             | Inl e \<Rightarrow> after_failure tmp ex abort final e }) (attempted b key tmp)"
    if obj: "b key = Some obj" "serves (drop (served_from ?off rp) obj) rp" for rp obj
  proof -
    let ?start = "if 0 < offset \<and> rp_status rp \<noteq> 206 then 0 else offset"
    have start: "served_from ?off rp = ?start"
      by (simp add: served_from_def)
    have recv: "hoare ?P (receive tmp ex abort ?start rp)
        (\<lambda>r w. on_env (\<lambda>e. bk e = b) w \<and> transferred obj ?start True r (file_at w tmp))"
    proof (cases "?start \<le> length obj")
      case True
      show ?thesis
        by (rule hoare_both [OF receive_env [OF quiet_abort_env [OF calm]] receive_piece [OF _ True]])
          (use obj start in \<open>auto simp: reading_def split: if_splits\<close>)
    next
      case False
      have no: "\<not> ?P w" for w
        using False obj(1) by (auto simp: reading_def resumable_def piece_def has_len_def prefix_def split: if_splits)
      show ?thesis
        by (rule hoareI) (use no in blast)
    qed
    show ?thesis
    proof (rule hoare_bind [OF recv])
      fix s :: "s3_error + nat"
      show "hoare (\<lambda>w. on_env (\<lambda>e. bk e = b) w \<and> transferred obj ?start True s (file_at w tmp)) (case s of Inr got \<Rightarrow> ret (Done (Inr got))
             | Inl e \<Rightarrow> after_failure tmp ex abort final e) (attempted b key tmp)"
      proof (cases s)
        case (Inl e)
        show ?thesis
          unfolding Inl sum.case
          by (rule hoare_pre [OF after_failure_attempted [OF calm]]) (auto simp: reading_def obj)
      next
        case (Inr n)
        show ?thesis
          unfolding Inr sum.case
          by (rule hoare_return) (auto simp: attempted_def reading_def obj piece_to_data has_len_def)
      qed
    qed
  qed
  show ?thesis
    unfolding attempt_once_def
  proof (rule hoare_keep [OF reading_abort [OF calm]], rule hoare_if [OF done_], rule hoare_bind [OF send_get])
    fix r :: "ureq_error + response"
    let ?R = "\<lambda>w. reading b key tmp w \<and> resumable offset (file_at w tmp) \<and> (\<forall>rp. r = Inr rp \<longrightarrow> accepted_by r \<longrightarrow>
      (\<exists>obj. b key = Some obj \<and> serves (drop (served_from ?off rp) obj) rp))"
    show "hoare ?R (case r of
         Inl e \<Rightarrow> ret (if retryable e \<and> \<not> final then Again offset else Done (Inl (Http e)))
       | Inr rp \<Rightarrow> (case checked rp of
           Inl e \<Rightarrow> ret (Done (Inl e))
         | Inr rp \<Rightarrow> do {
             s \<leftarrow> receive tmp ex abort (if 0 < offset \<and> rp_status rp \<noteq> 206 then 0 else offset) rp;
             case s of Inr got \<Rightarrow> ret (Done (Inr got))
             | Inl e \<Rightarrow> after_failure tmp ex abort final e })) (attempted b key tmp)"
    proof (cases r)
      case (Inl e)
      show ?thesis
        unfolding Inl sum.case by (rule hoare_return) (auto simp: attempted_def)
    next
      case (Inr rp)
      show ?thesis
      proof (cases "accepted_by (Inr rp)")
        case False
        then obtain e where e: "checked rp = Inl e"
          by (auto simp: checked_def accepted_by_def)
        show ?thesis
          unfolding Inr sum.case e by (rule hoare_return) (simp add: attempted_def)
      next
        case True
        then have c: "checked rp = Inr rp"
          by (auto simp: checked_def accepted_by_def)
        show ?thesis
        proof (cases "\<exists>obj. b key = Some obj \<and> serves (drop (served_from ?off rp) obj) rp")
          case obj: True
          then obtain obj where obj: "b key = Some obj" "serves (drop (served_from ?off rp) obj) rp"
            by blast
          show ?thesis
            unfolding Inr sum.case c by (rule hoare_pre [OF got [OF obj]]) simp
        next
          case none: False
          show ?thesis
            using none True by (simp only: Inr hoare_def) blast
        qed
      qed
    qed
  qed
qed

lemma attempts_attempted:
  assumes "calm abort"
  shows "hoare (\<lambda>w. reading b key tmp w \<and> resumable offset (file_at w tmp))
    (attempts dp cl key tmp ex abort n offset) (\<lambda>r. attempted b key tmp (Done r))"
proof (induction n arbitrary: offset)
  case 0
  show ?case
    unfolding attempts.simps
  proof (rule hoare_bind [OF attempt_once_attempted [OF assms]])
    fix a
    show "hoare (attempted b key tmp a) (case a of Done r \<Rightarrow> ret r | Again _ \<Rightarrow> ret (Inl ReadFailed))
        (\<lambda>r. attempted b key tmp (Done r))"
      by (cases a) (auto intro!: hoare_return simp: attempted_def)
  qed
next
  case (Suc n)
  show ?case
    unfolding attempts.simps
  proof (rule hoare_bind [OF attempt_once_attempted [OF assms]])
    fix a
    show "hoare (attempted b key tmp a) (case a of Done r \<Rightarrow> ret r | Again k \<Rightarrow> attempts dp cl key tmp ex abort n k)
        (\<lambda>r. attempted b key tmp (Done r))"
    proof (cases a)
      case (Again k)
      show ?thesis
        unfolding Again attempt.case by (rule hoare_pre [OF Suc]) (simp add: attempted_def)
    qed (auto intro: hoare_return)
  qed
qed

lemma get_brings_object:
  assumes "calm abort"
  shows "hoare (reading b key (part_of path)) (s3_get dp cl key path ex abort)
    (on_ok (\<lambda>_ w. b key \<noteq> None \<and> data_at w path = b key))"
proof -
  let ?tmp = "part_of path"
  have offset: "hoare (reading b key ?tmp) (resumed_offset ?tmp k)
      (\<lambda>n w. reading b key ?tmp w \<and> resumable n (file_at w ?tmp))" for k
  proof (rule hoare_both [OF _ resumed_offset_resumable])
    have "preserves (\<lambda>w. on_env (\<lambda>e. bk e = b) w \<and> on_file ?tmp (\<lambda>x. \<forall>obj. b key = Some obj \<longrightarrow> piece obj x) w)
        (resumed_offset ?tmp k)"
      unfolding resumed_offset_def
      by (intro preserves_conj preserves_rules temp_env temp_frame(3) [where ps = "{}"]) simp_all
    then show "preserves (reading b key ?tmp) (resumed_offset ?tmp k)"
      by (simp add: reading_def [abs_def])
  qed auto
  have pub: "hoare (attempted b key ?tmp (Done r)) (staged_publish dp ?tmp path ex r)
      (on_ok (\<lambda>_ w. b key \<noteq> None \<and> data_at w path = b key))" for r
  proof (cases r)
    case (Inr n)
    let ?X = "\<lambda>x. x \<noteq> None \<and> map_option f_data x = b key"
    have "hoare (on_file ?tmp ?X) (publish dp ?tmp path ex n) (on_ok (\<lambda>_. on_file path ?X))"
      unfolding publish_def
      by (intro hoare_if hoare_error hoare_keep check_sha_frame hoare_sum hoare_bind [OF rename_ok])
        (auto intro!: hoare_return simp: on_ok_def split: sum.split)
    then show ?thesis
      unfolding Inr staged_publish_def sum.case
      by (rule hoare_weaken) (auto simp: attempted_def has_len_def data_at_def on_ok_def dest: sym split: sum.splits)
  qed (auto simp: staged_publish_def intro: hoare_error)
  have ab: "preserves (reading b key ?tmp) (env_op abort)"
    using reading_abort [OF assms, of b key ?tmp "\<lambda>_. True"] by simp
  show ?thesis
    unfolding s3_get_def
    by (intro hoare_guard_abort ab hoare_bind [OF offset] hoare_bind [OF attempts_attempted [OF assms]]
      hoare_cleanup_ok pub)
qed

end

subsection \<open>The server in memory serves its objects\<close>

lemma fake_serves: "serves d \<lparr>rp_status = 200, rp_etag = Some ''t'', rp_length = None, rp_body = [Inr d]\<rparr>"
  by (simp add: serves_def declared_length_def)

interpretation fake_reader: s3_reader "fake_deps digest" cl fake_bk fake_up fake_after for digest cl
proof (unfold_locales, goal_cases)
  case (1 off k d e rp e')
  then have "fake_http \<lparr>rq_client = cl, rq_action = GetObject off, rq_key = k, rq_body = d\<rparr> e = (Inr rp, e')"
    by (simp add: fake_deps_def)
  from fake_get_law [OF this] show ?case
    by (auto simp: ok_response_def served_from_def fake_serves split: option.splits)
qed

end
