(* ===== verification/Steady.thy ===== *)
theory Steady
  imports S3Reader
begin

text \<open>
  Runs in which nothing fails: no file-system call is scheduled to fail, the existence checks
  answer, the server answers every request, and nobody asks to stop. The other theories show what
  holds whatever fails; here the judgement \<open>leads P m r Q\<close> says that from \<open>P\<close> the program \<open>m\<close>
  does end with the result \<open>r\<close>, in a state of \<open>Q\<close>. \<open>steady_server\<close> states what such a server
  answers, \<open>steady_store\<close> what the callers of the client rely on, and the client of
  \<open>s3/client.rs\<close> over a steady server is shown to be a steady store.
\<close>

definition leads :: "('s \<Rightarrow> bool) \<Rightarrow> ('s, 'a) state \<Rightarrow> 'a \<Rightarrow> ('s \<Rightarrow> bool) \<Rightarrow> bool" where
  "leads P m r Q \<longleftrightarrow> hoare P m (\<lambda>a s. a = r \<and> Q s)"

lemma leadsI: "(\<And>s. P s \<Longrightarrow> \<exists>t. run_state m s = (r, t) \<and> Q t) \<Longrightarrow> leads P m r Q"
  unfolding leads_def by (rule hoareI) fastforce

lemma leadsD: "leads P m r Q \<Longrightarrow> P s \<Longrightarrow> \<exists>t. run_state m s = (r, t) \<and> Q t"
  unfolding leads_def by (cases "run_state m s") (auto dest: hoareD)

lemma leads_bind: "leads P m a R \<Longrightarrow> leads R (f a) r Q \<Longrightarrow> leads P (State_Monad.bind m f) r Q"
  unfolding leads_def by (erule hoare_bind) (auto simp: hoare_def)

lemma leads_return [intro!]: "r = a \<Longrightarrow> leads P (ret a) r P"
  unfolding leads_def by (rule hoare_return) simp

subsection \<open>A steady world\<close>

text \<open>\<open>G\<close> holds of the outside world; the bucket holds \<open>b\<close>, the disk \<open>F\<close>, and the clock reads \<open>t\<close>.\<close>

definition steady :: "('e \<Rightarrow> bool) \<Rightarrow> ('e \<Rightarrow> 'v) \<Rightarrow> nat \<Rightarrow> 'v \<Rightarrow> (string \<Rightarrow> inode option) \<Rightarrow> 'e world \<Rightarrow> bool" where
  "steady G bk t b F w \<longleftrightarrow> w_faults w = [] \<and> w_stat w = [] \<and> w_now w = t \<and> G (w_env w) \<and> bk (w_env w) = b \<and>
     bt_get (w_fs w) = F"

text \<open>An operation of the outside world that always answers \<open>r\<close> and leaves the bucket alone.\<close>

definition settled :: "('e \<Rightarrow> bool) \<Rightarrow> ('e \<Rightarrow> 'v) \<Rightarrow> ('e \<Rightarrow> 'a \<times> 'e) \<Rightarrow> 'a \<Rightarrow> bool" where
  "settled G bk f r \<longleftrightarrow> (\<forall>e. G e \<longrightarrow> fst (f e) = r \<and> G (snd (f e)) \<and> bk (snd (f e)) = bk e)"

definition dir_in :: "(string \<Rightarrow> inode option) \<Rightarrow> string \<Rightarrow> bool" where
  "dir_in F d \<longleftrightarrow> (\<exists>q. prefix (d @ ''/'') q \<and> F q \<noteq> None)"

lemma is_dir_in: "is_dir w d = dir_in (bt_get (w_fs w)) d"
proof -
  have "q \<in> fst ` set (w_fs w) \<longleftrightarrow> bt_get (w_fs w) q \<noteq> None" for q
    by (simp add: map_of_eq_None_iff)
  then show ?thesis
    unfolding is_dir_def dir_in_def list_ex_iff by (metis (no_types, lifting) image_iff)
qed

lemma bt_get_insert_fun: "bt_get (bt_insert k v m) = (bt_get m)(k \<mapsto> v)"
  by (simp add: fun_eq_iff)

lemma bt_get_remove_fun: "bt_get (bt_remove k m) = (bt_get m)(k := None)"
  by (simp add: fun_eq_iff)

lemmas steady_simps = steady_def next_fault_def data_at_def put_file_def drop_file_def written_def is_dir_in
  bt_get_insert_fun bt_get_remove_fun

lemma leads_env: "settled G bk f r \<Longrightarrow> leads (steady G bk t b F) (env_op f) r (steady G bk t b F)"
proof (rule leadsI)
  fix w
  assume f: "settled G bk f r" and w: "steady G bk t b F w"
  then have "fst (f (w_env w)) = r \<and> G (snd (f (w_env w))) \<and> bk (snd (f (w_env w))) = bk (w_env w)"
    by (simp add: settled_def steady_def)
  with w show "\<exists>v. run_state (env_op f) w = (r, v) \<and> steady G bk t b F v"
    by (cases "f (w_env w)") (simp add: steady_def env_op_def)
qed

lemma leads_read: "leads (steady G bk t b F) (fs_read p)
    (case F p of None \<Rightarrow> Inl NotFound | Some x \<Rightarrow> Inr (f_data x)) (steady G bk t b F)"
  unfolding leads_def by (rule hoareI) (auto simp: fs_read_def steady_simps)

lemma leads_read_there: "F p = Some x \<Longrightarrow> leads (steady G bk t b F) (fs_read p) (Inr (f_data x)) (steady G bk t b F)"
  using leads_read [of G bk t b F p] by simp

lemma leads_len: "F p = Some x \<Longrightarrow>
    leads (steady G bk t b F) (fs_len p) (Inr (length (f_data x))) (steady G bk t b F)"
  unfolding fs_len_def by (rule leads_bind [OF leads_read_there]) auto

lemma leads_exists: "leads (steady G bk t b F) (fs_exists p) (F p \<noteq> None \<or> dir_in F p) (steady G bk t b F)"
  unfolding leads_def by (rule hoareI) (auto simp: fs_exists_def steady_simps)

lemma leads_fits: "leads P m r Q \<Longrightarrow> (\<And>s. P' s \<Longrightarrow> P s) \<Longrightarrow> r = r' \<Longrightarrow> Q = Q' \<Longrightarrow> leads P' m r' Q'"
  unfolding leads_def by (auto intro: hoare_pre)

lemma leads_write: "leads (steady G bk t b F) (fs_write p d) (Inr ()) (steady G bk t b (F(p \<mapsto>
    \<lparr>f_data = d, f_private = (case F p of None \<Rightarrow> False | Some x \<Rightarrow> f_private x), f_mtime = t, f_ctime = t\<rparr>)))"
  unfolding leads_def by (rule hoareI) (auto simp: fs_write_def steady_simps)

lemma leads_remove: "leads (steady G bk t b F) (fs_remove p)
    (if F p = None then Inl NotFound else Inr ()) (steady G bk t b (F(p := None)))"
  unfolding leads_def by (rule hoareI) (auto simp: fs_remove_def steady_simps)

lemma leads_rename: "F a = Some y \<Longrightarrow>
    leads (steady G bk t b F) (fs_rename a c) (Inr ()) (steady G bk t b (F(a := None, c \<mapsto> y)))"
  unfolding leads_def by (rule hoareI) (auto simp: fs_rename_def steady_simps)

lemma leads_hard_link: "F a = Some y \<Longrightarrow> F c = None \<Longrightarrow> \<not> dir_in F c \<Longrightarrow>
    leads (steady G bk t b F) (fs_hard_link a c) (Inr ()) (steady G bk t b (F(c \<mapsto> y)))"
  unfolding leads_def by (rule hoareI) (auto simp: fs_hard_link_def steady_simps)

lemma leads_make_private: "F p = Some y \<Longrightarrow>
    leads (steady G bk t b F) (make_private p) (Inr ()) (steady G bk t b (F(p \<mapsto> y\<lparr>f_private := True\<rparr>)))"
  unfolding leads_def by (rule hoareI) (auto simp: make_private_def steady_simps)

lemma leads_dir_op: "leads (steady G bk t b F) fs_dir_op (Inr ()) (steady G bk t b F)"
  unfolding leads_def by (rule hoareI) (auto simp: fs_dir_op_def steady_simps)

lemma leads_gets: "(\<And>w. steady G bk t b F w \<Longrightarrow> f w = r) \<Longrightarrow>
    leads (steady G bk t b F) (gets f) r (steady G bk t b F)"
  unfolding leads_def by (rule hoareI) auto

lemma leads_guard: "settled G bk abort False \<Longrightarrow> leads (steady G bk t b F) m r Q \<Longrightarrow>
    leads (steady G bk t b F) (guard_abort abort m) r Q"
  unfolding guard_abort_def by (rule leads_bind [OF leads_env]) auto

subsection \<open>The contract of a store that does what it is asked\<close>

text \<open>A file a download publishes: owner-only, written now.\<close>

definition downloaded :: "nat \<Rightarrow> string \<Rightarrow> inode" where
  "downloaded t d = \<lparr>f_data = d, f_private = True, f_mtime = t, f_ctime = t\<rparr>"

locale steady_store =
  fixes st :: "'e store" and bk :: "'e \<Rightarrow> string \<Rightarrow> string option" and G :: "'e \<Rightarrow> bool" and digest :: "string \<Rightarrow> string"
  assumes put_goes: "settled G bk abort False \<Longrightarrow> F path = Some x \<Longrightarrow> length (f_data x) < MULTIPART_THRESHOLD \<Longrightarrow>
      leads (steady G bk t b F) (st_put st key path abort) (Inr ()) (steady G bk t (b(key \<mapsto> f_data x)) F)"
    and put_bytes_goes: "settled G bk abort False \<Longrightarrow>
      leads (steady G bk t b F) (st_put_bytes st key d abort) (Inr ()) (steady G bk t (b(key \<mapsto> d)) F)"
    and delete_goes: "settled G bk abort False \<Longrightarrow>
      leads (steady G bk t b F) (st_delete st key abort) (Inr ()) (steady G bk t (b(key := None)) F)"
    and get_text_goes: "settled G bk abort False \<Longrightarrow> (\<And>d. b key = Some d \<Longrightarrow> length d \<le> cap \<and> utf8_ok d) \<Longrightarrow>
      leads (steady G bk t b F) (st_get_text st key cap abort) (Inr (b key)) (steady G bk t b F)"
    and list_goes: "settled G bk abort False \<Longrightarrow> (\<And>k. prefix pre k \<Longrightarrow> b k = None) \<Longrightarrow>
      leads (steady G bk t b F) (st_list st pre abort) (Inr []) (steady G bk t b F)"
    and get_goes: "settled G bk abort False \<Longrightarrow> b key = Some d \<Longrightarrow> length d \<le> ex_max ex \<Longrightarrow>
      ex_size ex = None \<or> ex_size ex = Some (length d) \<Longrightarrow> ex_sha256 ex = None \<or> ex_sha256 ex = Some (digest d) \<Longrightarrow>
      F (part_of path) = None \<Longrightarrow>
      leads (steady G bk t b F) (st_get st key path ex abort) (Inr ())
        (steady G bk t b (F(part_of path := None, path \<mapsto> downloaded t d)))"

subsection \<open>The client over a steady server\<close>

text \<open>The body holds the whole object and no read of it fails.\<close>

definition delivers :: "string \<Rightarrow> response \<Rightarrow> bool" where
  "delivers d rp \<longleftrightarrow> streamed d (rp_body rp) \<and> whole_stream d (rp_body rp) \<and> Inl () \<notin> set (rp_body rp) \<and>
     (declared_length rp = None \<or> declared_length rp = Some (length d))"

locale steady_server =
  fixes dp :: "'e deps" and cl :: client and bk :: "'e \<Rightarrow> string \<Rightarrow> string option" and G :: "'e \<Rightarrow> bool"
  assumes put_answer: "G e \<Longrightarrow> \<exists>rp e'. d_http dp \<lparr>rq_client = cl, rq_action = PutObject, rq_key = k, rq_body = d\<rparr> e =
      (Inr rp, e') \<and> accepted_by (Inr rp) \<and> G e' \<and> bk e' = (bk e)(k \<mapsto> d)"
    and delete_answer: "G e \<Longrightarrow> \<exists>rp e'. d_http dp \<lparr>rq_client = cl, rq_action = DeleteObject, rq_key = k, rq_body = []\<rparr> e =
      (Inr rp, e') \<and> accepted_by (Inr rp) \<and> G e' \<and> bk e' = (bk e)(k := None)"
    and get_answer: "G e \<Longrightarrow> bk e k = Some d \<Longrightarrow>
      \<exists>rp e'. d_http dp \<lparr>rq_client = cl, rq_action = GetObject None, rq_key = k, rq_body = []\<rparr> e =
        (Inr rp, e') \<and> accepted_by (Inr rp) \<and> delivers d rp \<and> G e' \<and> bk e' = bk e"
    and missing_answer: "G e \<Longrightarrow> bk e k = None \<Longrightarrow>
      \<exists>e'. d_http dp \<lparr>rq_client = cl, rq_action = GetObject None, rq_key = k, rq_body = []\<rparr> e =
        (Inl (StatusCode 404), e') \<and> G e' \<and> bk e' = bk e"
    and list_answer: "G e \<Longrightarrow> (\<And>k. prefix pre k \<Longrightarrow> bk e k = None) \<Longrightarrow>
      \<exists>rp body e'. d_http dp \<lparr>rq_client = cl, rq_action = ListObjects None, rq_key = pre, rq_body = []\<rparr> e =
        (Inr rp, e') \<and> accepted_by (Inr rp) \<and> read_text LIST_BODY_CAP rp = Inr body \<and>
        d_parse_list dp body = Some ([], None) \<and> G e' \<and> bk e' = bk e"

lemma leads_retry: "leads P m r Q \<Longrightarrow> (\<And>e. r = Inl e \<Longrightarrow> \<not> retryable e) \<Longrightarrow> leads P (retrying dp m) r Q"
proof -
  assume m: "leads P m r Q" and e: "\<And>e. r = Inl e \<Longrightarrow> \<not> retryable e"
  have "leads P (retrying_from dp n m) r Q" for n
  proof (cases n)
    case (Suc k)
    show ?thesis
      unfolding Suc retrying_from.simps by (rule leads_bind [OF m]) (use e in \<open>auto split: sum.split\<close>)
  qed (simp add: m)
  then show ?thesis
    unfolding retrying_def .
qed

lemma accepted_checked: "accepted_by (Inr rp) \<Longrightarrow> checked rp = Inr rp"
  by (simp add: accepted_by_def checked_def)

lemma accepted_answer: "accepted_by (Inr rp) \<Longrightarrow> answer (Inr rp) = Inr rp"
  by (simp add: answer_Inr)

lemma empty_capped: "streamed [] cs \<Longrightarrow> Inl () \<notin> set cs \<Longrightarrow> read_capped cap cs = Inr []"
  by (induction cap cs rule: read_capped.induct) auto

lemma delivers_capped: "streamed d cs \<Longrightarrow> whole_stream d cs \<Longrightarrow> Inl () \<notin> set cs \<Longrightarrow> length d < cap \<Longrightarrow>
    read_capped cap cs = Inr d"
proof (induction cap cs arbitrary: d rule: read_capped.induct)
  case (3 cap b cs)
  then obtain r where d: "d = b @ r"
    by (auto simp: prefix_def)
  show ?case
  proof (cases "b = []")
    case True
    with 3 d empty_capped [of cs cap] show ?thesis by auto
  next
    case False
    with 3 d show ?thesis by auto
  qed
qed auto

lemma delivers_text: "delivers d rp \<Longrightarrow> length d < cap \<Longrightarrow> utf8_ok d \<Longrightarrow> read_text cap rp = Inr d"
  using delivers_capped [of d "rp_body rp" cap] by (simp add: delivers_def read_text_def)

text \<open>The download: the temp file is created, filled and renamed.\<close>

lemma leads_open_temp: "F p = None \<Longrightarrow> leads (steady G bk t b F) (open_temp p True) (Inr ())
    (steady G bk t b (F(p \<mapsto> downloaded t [])))"
  unfolding leads_def by (rule hoareI) (auto simp: open_temp_def opened_def downloaded_def steady_simps)

text \<open>The temp file after \<open>c\<close> was appended; nothing is written for an empty rest.\<close>

definition grown :: "nat \<Rightarrow> inode \<Rightarrow> string \<Rightarrow> inode" where
  "grown t x c = (if c = [] then x else x\<lparr>f_data := f_data x @ c, f_mtime := t, f_ctime := t\<rparr>)"

lemma grown_data [simp]: "f_data (grown t x c) = f_data x @ c"
  by (simp add: grown_def)

lemma grown_grown: "grown t (grown t x c) d = grown t x (c @ d)"
  by (simp add: grown_def)

lemma grown_downloaded: "grown t (downloaded t []) d = downloaded t d"
  by (simp add: grown_def downloaded_def)

lemma leads_write_all: "F p = Some x \<Longrightarrow> c \<noteq> [] \<Longrightarrow> leads (steady G bk t b F) (write_all p c) (Inr ())
    (steady G bk t b (F(p \<mapsto> grown t x c)))"
  unfolding leads_def by (rule hoareI) (auto simp: write_all_def appended_def grown_def steady_simps)

lemma leads_stream_body:
  assumes "settled G bk abort False" "F tmp = Some x"
    and "streamed rest cs" "whole_stream rest cs" "Inl () \<notin> set cs"
    and "got + length rest \<le> ex_max ex" "ex_size ex = None \<or> ex_size ex = Some (got + length rest)"
  shows "leads (steady G bk t b F) (stream_body tmp ex abort got cs) (Inr (got + length rest))
    (steady G bk t b (F(tmp \<mapsto> grown t x rest)))"
  using assms
proof (induction tmp ex abort got cs arbitrary: F x rest rule: stream_body.induct)
  case (1 tmp ex abort got)
  then have "F(tmp \<mapsto> grown t x rest) = F"
    by (simp add: fun_upd_idem grown_def)
  with 1 show ?case
    by (auto intro!: leads_guard)
next
  case (3 tmp ex abort got c cs)
  then obtain r where rest: "rest = c @ r"
    by (auto simp: prefix_def)
  show ?case
  proof (cases "c = []")
    case True
    with 3(5) have "rest = []" by simp
    with 3 True have "F(tmp \<mapsto> grown t x rest) = F"
      by (simp add: fun_upd_idem grown_def)
    with 3 True \<open>rest = []\<close> show ?thesis
      by (auto intro!: leads_guard)
  next
    case False
    have over: "over ex (got + length c) = None"
      using 3(7,8) rest by (auto simp: over_def)
    have "leads (steady G bk t b (F(tmp \<mapsto> grown t x c))) (stream_body tmp ex abort (got + length c) cs)
        (Inr (got + length c + length r)) (steady G bk t b (F(tmp \<mapsto> grown t x c, tmp \<mapsto> grown t (grown t x c) r)))"
      using 3 False rest by (intro 3(1) [OF False over]) (auto simp: add.assoc)
    then have step: "leads (steady G bk t b (F(tmp \<mapsto> grown t x c))) (stream_body tmp ex abort (got + length c) cs)
        (Inr (got + length rest)) (steady G bk t b (F(tmp \<mapsto> grown t x rest)))"
      by (simp add: rest add.assoc grown_grown)
    show ?thesis
      unfolding stream_body.simps
      by (rule leads_guard [OF 3(2)], simp only: False over if_False option.case,
          rule leads_bind [OF leads_write_all [where F = F and p = tmp, OF 3(3) False]], simp only: sum.case step)
  qed
qed simp

lemma leads_finish: "declared = None \<or> declared = Some (got - start) \<Longrightarrow>
    leads (steady G bk t b F) (finish_stream declared start got) (Inr got) (steady G bk t b F)"
  unfolding finish_stream_def by (auto intro!: leads_bind [OF leads_dir_op])

lemma leads_receive:
  assumes "settled G bk abort False" "F tmp = None" "delivers d rp"
    and "length d \<le> ex_max ex" "ex_size ex = None \<or> ex_size ex = Some (length d)"
  shows "leads (steady G bk t b F) (receive tmp ex abort 0 rp) (Inr (length d))
    (steady G bk t b (F(tmp \<mapsto> downloaded t d)))"
proof -
  have "leads (steady G bk t b (F(tmp \<mapsto> downloaded t []))) (stream_body tmp ex abort 0 (rp_body rp)) (Inr (0 + length d))
      (steady G bk t b (F(tmp \<mapsto> downloaded t [], tmp \<mapsto> grown t (downloaded t []) d)))"
    using assms by (intro leads_stream_body) (simp_all add: delivers_def)
  then have body: "leads (steady G bk t b (F(tmp \<mapsto> downloaded t []))) (stream_body tmp ex abort 0 (rp_body rp)) (Inr (length d))
      (steady G bk t b (F(tmp \<mapsto> downloaded t d)))"
    by (simp add: grown_downloaded)
  have fin: "leads (steady G bk t b (F(tmp \<mapsto> downloaded t d))) (finish_stream (declared_length rp) 0 (length d)) (Inr (length d))
      (steady G bk t b (F(tmp \<mapsto> downloaded t d)))"
    using assms(3) by (intro leads_finish) (simp add: delivers_def)
  show ?thesis
    unfolding receive_def simp_thms
    by (rule leads_bind [OF leads_open_temp [where F = F and p = tmp, OF assms(2)]], simp only: sum.case,
        rule leads_bind [OF body], simp only: sum.case fin)
qed

lemma leads_publish:
  assumes "F tmp = Some y" "tmp \<noteq> path" "ex_size ex = None \<or> ex_size ex = Some (length (f_data y))"
    and "ex_sha256 ex = None \<or> ex_sha256 ex = Some (sha256_hex dp (f_data y))"
  shows "leads (steady G bk t b F) (publish dp tmp path ex (length (f_data y))) (Inr ())
    (steady G bk t b (F(tmp := None, path \<mapsto> y)))"
proof -
  have hash: "leads (steady G bk t b F) (sha256_file dp tmp) (Inr (sha256_hex dp (f_data y))) (steady G bk t b F)"
    unfolding sha256_file_def
    by (rule leads_bind [OF leads_read_there [where F = F and p = tmp, OF assms(1)]]) auto
  have sha: "leads (steady G bk t b F) (check_sha dp tmp ex) (Inr ()) (steady G bk t b F)"
    unfolding check_sha_def using assms(4) by (auto intro!: leads_bind [OF hash])
  have ren: "leads (steady G bk t b F) (do { r \<leftarrow> fs_rename tmp path; ret (case r of Inl _ \<Rightarrow> Inl CannotPublish | Inr _ \<Rightarrow> Inr ()) })
      (Inr ()) (steady G bk t b (F(tmp := None, path \<mapsto> y)))"
    by (rule leads_bind [OF leads_rename [where F = F and a = tmp, OF assms(1)]]) auto
  show ?thesis
    unfolding publish_def using assms(3) by (auto intro!: leads_bind [OF sha] ren)
qed

context steady_server
begin

lemma get_attempt:
  assumes ab: "settled G bk abort False" and obj: "b key = Some d" and F: "F tmp = None"
    and ex: "length d \<le> ex_max ex" "ex_size ex = None \<or> ex_size ex = Some (length d)"
  shows "leads (steady G bk t b F) (attempt_once dp cl key tmp ex abort final 0) (Done (Inr (length d)))
    (steady G bk t b (F(tmp \<mapsto> downloaded t d)))"
proof (rule leadsI)
  fix w
  assume w: "steady G bk t b F w"
  obtain x where x: "run_state (env_op abort) w = (False, x)" "steady G bk t b F x"
    using leadsD [OF leads_env [OF ab] w] by blast
  from x(2) obj have "G (w_env x)" "bk (w_env x) key = Some d"
    by (simp_all add: steady_def)
  from get_answer [OF this] obtain rp e' where rp: "d_http dp \<lparr>rq_client = cl, rq_action = GetObject None, rq_key = key, rq_body = []\<rparr> (w_env x) = (Inr rp, e')"
      "accepted_by (Inr rp)" "delivers d rp" "G e'" "bk e' = bk (w_env x)"
    by blast
  have y: "steady G bk t b F (x\<lparr>w_env := e'\<rparr>)"
    using x(2) rp by (simp add: steady_def)
  obtain v where v: "run_state (receive tmp ex abort 0 rp) (x\<lparr>w_env := e'\<rparr>) = (Inr (length d), v)"
      "steady G bk t b (F(tmp \<mapsto> downloaded t d)) v"
    using leadsD [OF leads_receive [where F = F and tmp = tmp and d = d, OF ab F rp(3) ex] y] by blast
  have "run_state (attempt_once dp cl key tmp ex abort final 0) w = (Done (Inr (length d)), v)"
    using x(1) rp(1) v(1) accepted_checked [OF rp(2)] by (simp add: attempt_once_def send_def env_op_def)
  with v(2) show "\<exists>v. run_state (attempt_once dp cl key tmp ex abort final 0) w = (Done (Inr (length d)), v) \<and>
      steady G bk t b (F(tmp \<mapsto> downloaded t d)) v"
    by blast
qed

lemma client_get:
  assumes ab: "settled G bk abort False" and obj: "b key = Some d" and F: "F (part_of path) = None"
    and ex: "length d \<le> ex_max ex" "ex_size ex = None \<or> ex_size ex = Some (length d)"
    and sha: "ex_sha256 ex = None \<or> ex_sha256 ex = Some (sha256_hex dp d)"
  shows "leads (steady G bk t b F) (s3_get dp cl key path ex abort) (Inr ())
    (steady G bk t b (F(part_of path := None, path \<mapsto> downloaded t d)))"
proof -
  let ?tmp = "part_of path"
  have ne: "?tmp \<noteq> path"
    by (simp add: part_of_def)
  have off: "leads (steady G bk t b F) (resumed_offset ?tmp k) 0 (steady G bk t b F)" for k
    unfolding resumed_offset_def fs_len_def
    by (rule leads_bind, rule leads_bind, rule leads_read) (auto simp: F Let_def split: option.splits)
  have att: "leads (steady G bk t b F) (attempts dp cl key ?tmp ex abort n 0) (Inr (length d))
      (steady G bk t b (F(?tmp \<mapsto> downloaded t d)))" for n
    by (cases n) (auto intro!: leads_bind [OF get_attempt [where F = F and tmp = ?tmp and d = d and b = b, OF ab obj F ex]])
  have pub: "leads (steady G bk t b (F(?tmp \<mapsto> downloaded t d))) (publish dp ?tmp path ex (length d)) (Inr ())
      (steady G bk t b (F(?tmp := None, path \<mapsto> downloaded t d)))"
    using leads_publish [where F = "F(?tmp \<mapsto> downloaded t d)" and y = "downloaded t d", OF _ ne] ex(2) sha
    by (simp add: downloaded_def)
  show ?thesis
    unfolding s3_get_def
    by (rule leads_guard [OF ab], rule leads_bind [OF off], rule leads_bind [OF att],
        simp only: staged_publish_def sum.case, rule leads_bind [OF pub]) (simp add: cleanup_def leads_return)
qed

text \<open>A retried request that the server answers at once.\<close>

lemma request_leads:
  assumes run: "\<And>w. steady G bk t b F w \<Longrightarrow> run_state m w = (fst (h (w_env w)), w\<lparr>w_env := snd (h (w_env w))\<rparr>)"
    and goes: "\<And>e. G e \<Longrightarrow> bk e = b \<Longrightarrow> f (fst (h e)) = a \<and> G (snd (h e)) \<and> bk (snd (h e)) = b' \<and>
      (\<forall>x. fst (h e) = Inl x \<longrightarrow> \<not> retryable x)"
  shows "leads (steady G bk t b F) (do { r \<leftarrow> retrying dp m; ret (f r) }) a (steady G bk t b' F)"
proof (rule leadsI)
  fix w
  assume w: "steady G bk t b F w"
  let ?e = "w_env w" and ?v = "w\<lparr>w_env := snd (h (w_env w))\<rparr>"
  from w have e: "f (fst (h ?e)) = a" "G (snd (h ?e))" "bk (snd (h ?e)) = b'" "\<And>x. fst (h ?e) = Inl x \<Longrightarrow> \<not> retryable x"
    using goes [of ?e] by (simp_all add: steady_def)
  have "leads (\<lambda>v. v = w) m (fst (h ?e)) (\<lambda>v. v = ?v)"
    by (rule leadsI) (simp add: run [OF w])
  from leadsD [OF leads_retry [OF this e(4)]] have "run_state (retrying dp m) w = (fst (h ?e), ?v)"
    by simp
  moreover have "steady G bk t b' F ?v"
    using w e by (simp add: steady_def)
  ultimately show "\<exists>v. run_state (do { r \<leftarrow> retrying dp m; ret (f r) }) w = (a, v) \<and> steady G bk t b' F v"
    using e(1) by simp
qed

lemma run_send_at: "run_state (send dp cl act key d) w =
    (fst (d_http dp \<lparr>rq_client = cl, rq_action = act, rq_key = key, rq_body = d\<rparr> (w_env w)),
     w\<lparr>w_env := snd (d_http dp \<lparr>rq_client = cl, rq_action = act, rq_key = key, rq_body = d\<rparr> (w_env w))\<rparr>)"
  by (simp add: send_def env_op_def split: prod.split)

lemma client_put_bytes:
  assumes "settled G bk abort False"
  shows "leads (steady G bk t b F) (s3_put_bytes dp cl key d abort) (Inr ()) (steady G bk t (b(key \<mapsto> d)) F)"
proof -
  have "leads (steady G bk t b F) (do { r \<leftarrow> retrying dp (send dp cl PutObject key d); ret (no_body (answer r)) }) (Inr ())
      (steady G bk t (b(key \<mapsto> d)) F)"
    by (rule request_leads [OF run_send_at]) (use put_answer [where k = key and d = d] in \<open>fastforce simp: no_body_ok\<close>)
  then show ?thesis
    unfolding s3_put_bytes_def send_checked_def by (intro leads_guard [OF assms]) simp
qed

lemma client_delete:
  assumes "settled G bk abort False"
  shows "leads (steady G bk t b F) (s3_delete dp cl key abort) (Inr ()) (steady G bk t (b(key := None)) F)"
proof -
  have "leads (steady G bk t b F) (do { r \<leftarrow> retrying dp (send dp cl DeleteObject key []); ret (no_body (answer r)) }) (Inr ())
      (steady G bk t (b(key := None)) F)"
    by (rule request_leads [OF run_send_at]) (use delete_answer [where k = key] in \<open>fastforce simp: no_body_ok\<close>)
  then show ?thesis
    unfolding s3_delete_def send_checked_def by (intro leads_guard [OF assms]) simp
qed

lemma client_put:
  assumes "settled G bk abort False" "F path = Some x" "length (f_data x) < MULTIPART_THRESHOLD"
  shows "leads (steady G bk t b F) (s3_put dp cl key path abort) (Inr ()) (steady G bk t (b(key \<mapsto> f_data x)) F)"
proof -
  have run: "run_state (put_request dp cl key path) w = run_state (send dp cl PutObject key (f_data x)) w"
    if "steady G bk t b F w" for w
    using that assms(2) by (auto simp: put_request_def fs_read_def steady_simps)
  have "leads (steady G bk t b F) (do { r \<leftarrow> retrying dp (put_request dp cl key path); ret (no_body (answer r)) }) (Inr ())
      (steady G bk t (b(key \<mapsto> f_data x)) F)"
    by (rule request_leads [OF trans [OF run run_send_at]])
      (use put_answer [where k = key and d = "f_data x"] in \<open>fastforce simp: no_body_ok\<close>)+
  then show ?thesis
    unfolding s3_put_def using assms(3)
    by (intro leads_guard [OF assms(1)] leads_bind [OF leads_len [where F = F and p = path, OF assms(2)]]) simp
qed

lemma client_get_text:
  assumes "settled G bk abort False" "\<And>d. b key = Some d \<Longrightarrow> length d \<le> cap \<and> utf8_ok d"
  shows "leads (steady G bk t b F) (get_optional_text dp cl key cap abort) (Inr (b key)) (steady G bk t b F)"
proof -
  let ?h = "d_http dp \<lparr>rq_client = cl, rq_action = GetObject None, rq_key = key, rq_body = []\<rparr>"
  have goes: "optional_text cap (fst (?h e)) = Inr (b key) \<and> G (snd (?h e)) \<and> bk (snd (?h e)) = b \<and>
      (\<forall>x. fst (?h e) = Inl x \<longrightarrow> \<not> retryable x)" if "G e" "bk e = b" for e
  proof (cases "b key")
    case None
    with missing_answer [of e key] that show ?thesis
      by (auto simp: optional_text_def retryable_def)
  next
    case (Some d)
    from get_answer [of e key d] that Some obtain rp e' where rp: "?h e = (Inr rp, e')" "accepted_by (Inr rp)" "delivers d rp" "G e'" "bk e' = b"
      by auto
    have "read_text (cap + 1) rp = Inr d"
      using assms(2) [OF Some] by (intro delivers_text [OF rp(3)]) auto
    then show ?thesis
      using rp Some assms(2) [OF Some] accepted_checked [OF rp(2)] by (simp add: optional_text_def)
  qed
  show ?thesis
    unfolding get_optional_text_def
    by (rule leads_guard [OF assms(1)], rule request_leads [OF run_send_at]) (rule goes)
qed

lemma client_list:
  assumes "settled G bk abort False" "\<And>k. prefix pre k \<Longrightarrow> b k = None"
  shows "leads (steady G bk t b F) (s3_list dp cl pre abort) (Inr []) (steady G bk t b F)"
proof -
  let ?h = "d_http dp \<lparr>rq_client = cl, rq_action = ListObjects None, rq_key = pre, rq_body = []\<rparr>"
  let ?f = "\<lambda>r. case answer r of Inl e \<Rightarrow> Inl e
       | Inr rp \<Rightarrow> (case read_text LIST_BODY_CAP rp of Inl e \<Rightarrow> Inl e
         | Inr body \<Rightarrow> (case d_parse_list dp body of None \<Rightarrow> Inl Unparseable
           | Some (items, next) \<Rightarrow> (case page_items items of Inl e \<Rightarrow> Inl e
             | Inr ls \<Rightarrow> Inr (ls, next))))"
  have goes: "?f (fst (?h e)) = Inr ([], None) \<and> G (snd (?h e)) \<and> bk (snd (?h e)) = b \<and>
      (\<forall>x. fst (?h e) = Inl x \<longrightarrow> \<not> retryable x)" if "G e" "bk e = b" for e
    using list_answer [of e pre] that assms(2) accepted_answer by fastforce
  have "leads (steady G bk t b F) (do { r \<leftarrow> retrying dp (send dp cl (ListObjects None) pre []); ret (?f r) }) (Inr ([], None)) (steady G bk t b F)"
    by (rule request_leads [OF run_send_at]) (rule goes)
  then have page: "leads (steady G bk t b F) (list_page dp cl pre None) (Inr ([], None)) (steady G bk t b F)"
    unfolding list_page_def send_checked_def by simp
  have pages: "MAX_LIST_PAGES = Suc 1023"
    by (simp add: MAX_LIST_PAGES_def)
  show ?thesis
    unfolding s3_list_def pages list_from.simps
    by (rule leads_guard [OF assms(1)], rule leads_bind [OF page], simp add: leads_return)
qed

end

sublocale steady_server \<subseteq> store: steady_store "client_store dp cl" bk G "sha256_hex dp"
  by unfold_locales (simp_all add: client_put client_put_bytes client_delete client_get_text client_list client_get)

context steady_server
begin

lemma client_is_steady: "steady_store (client_store dp cl) bk G (sha256_hex dp)"
  by (rule store.steady_store_axioms)

end

subsection \<open>The server in memory\<close>

definition fake_steady :: "fake \<Rightarrow> bool" where
  "fake_steady e \<longleftrightarrow> fk_http e = [] \<and> \<not> fk_stop e"

interpretation fake_server: steady_server "fake_deps digest" cl fake_bk fake_steady for digest cl
proof (unfold_locales, goal_cases)
  case (5 e pre)
  have "listing pre (fk_bucket e) = []"
    using 5(2) by (auto simp: listing_def filter_empty_conv fake_bk_def map_of_eq_None_iff)
  then show ?case
    using 5(1) by (simp add: fake_deps_def fake_http_def fake_apply_def fake_steady_def ok_response_def accepted_by_def
        Let_def read_text_def LIST_BODY_CAP_def)
qed (auto simp: fake_deps_def fake_http_def fake_apply_def fake_steady_def fake_bk_def ok_response_def accepted_by_def
    delivers_def declared_length_def fun_eq_iff)

end
