(* ===== verification/RestoreSource.thy ===== *)
theory RestoreSource
  imports BackupTick BackupRestore S3Reader
begin

text \<open>
  Where a restored database comes from. Over a bucket that serves its objects (locale
  \<open>s3_reader\<close>), the restore of \<open>runtime/backup/restore.rs\<close> publishes, byte for byte, the object of
  the first candidate whose dump passes the integrity check: the sweep of the staging directory
  leaves no stale temp file to resume, the download brings back the object, and the import
  publishes what was downloaded.
\<close>

subsection \<open>The sweep leaves nothing to resume\<close>

text \<open>No file of a set of paths is there; nothing is below a path.\<close>

definition absent :: "string set \<Rightarrow> 'e world \<Rightarrow> bool" where
  "absent R w \<longleftrightarrow> (\<forall>q \<in> R. file_at w q = None)"

lemma framed_absent: "framed ps m \<Longrightarrow> ps \<inter> R = {} \<Longrightarrow> preserves (absent R) m"
  by (rule preservesI) (fastforce simp: absent_def frame_def dest!: framedD)

lemma remove_absent: "preserves (absent R) (fs_remove p)"
  by (rule preservesI)
    (auto simp: fs_remove_def absent_def dest!: run_next_fault split: prod.splits if_splits option.splits)

lemma remove_dir_all_absent: "preserves (absent R) (fs_remove_dir_all d)"
  by (rule preservesI)
    (auto simp: fs_remove_dir_all_def absent_def map_of_drop_below dest!: run_next_fault split: prod.splits if_splits)

text \<open>A directory entry that is still to be removed, when nothing lies below it.\<close>

definition pending :: "string \<Rightarrow> string \<Rightarrow> string list \<Rightarrow> 'e world \<Rightarrow> bool" where
  "pending d n names w \<longleftrightarrow> absent (below (d @ ''/'' @ n)) w \<and> (file_at w (d @ ''/'' @ n) \<noteq> None \<longrightarrow> n \<in> set names)"

lemma not_dir: "absent (below q) w \<Longrightarrow> \<not> is_dir w q"
proof
  assume a: "absent (below q) w" and "is_dir w q"
  then obtain e where e: "e \<in> set (w_fs w)" "fst e \<in> below q"
    by (auto simp: is_dir_def list_ex_iff below_def)
  then have "file_at w (fst e) \<noteq> None"
    by (simp add: map_of_eq_None_iff)
  with a e(2) show False
    by (simp add: absent_def)
qed

lemma remove_entry:
  "hoare (pending d n (m # names)) (do {
     b \<leftarrow> fs_is_dir (d @ ''/'' @ m);
     if b then fs_remove_dir_all (d @ ''/'' @ m) else fs_remove (d @ ''/'' @ m) })
    (on_ok (\<lambda>_. pending d n names))"
proof (rule hoareI)
  fix w r v
  let ?p = "d @ ''/'' @ m" and ?q = "d @ ''/'' @ n"
  let ?rm = "\<lambda>b. if b then fs_remove_dir_all ?p else fs_remove ?p"
  assume w: "pending d n (m # names) w" and run: "run_state (do { b \<leftarrow> fs_is_dir ?p; ?rm b }) w = (r, v)"
  obtain b u where b: "run_state (fs_is_dir ?p) w = (b, u)" and r: "run_state (?rm b) u = (r, v)"
    using run by (auto split: prod.splits)
  have u: "w_fs u = w_fs w" "b \<longrightarrow> is_dir w ?p"
    using b by (auto simp: fs_is_dir_def split: list.splits)
  have below: "absent (below ?q) u"
    using w u by (simp add: pending_def absent_def)
  have rm: "preserves (absent R) (?rm b)" for R
    by (simp add: remove_absent remove_dir_all_absent)
  have "absent (below ?q) v"
    by (rule preservesD [OF rm [of "below ?q"] below r])
  moreover have "n \<in> set names" if "file_at v ?q \<noteq> None" "r = Inr ()"
  proof -
    have "file_at w ?q = None \<longrightarrow> file_at v ?q = None"
      using preservesD [OF rm [of "{?q}"] _ r] u by (simp add: absent_def)
    then have "file_at w ?q \<noteq> None"
      using that(1) by metis
    with w have n: "n = m \<or> n \<in> set names"
      by (simp add: pending_def)
    moreover have "\<not> b" if "n = m"
      using w u not_dir that by (auto simp: pending_def)
    moreover have "file_at v ?p = None" if "\<not> b"
      using r \<open>r = Inr ()\<close> that by (auto simp: fs_remove_def dest!: run_next_fault split: prod.splits if_splits)
    ultimately show ?thesis
      using that by auto
  qed
  ultimately show "on_ok (\<lambda>_. pending d n names) r v"
    by (auto simp: on_ok_def pending_def split: sum.split)
qed

lemma sweep_entries_clean:
  "hoare (pending d n names) (sweep_entries d names) (\<lambda>ok w. ok \<longrightarrow> pending d n [] w)"
proof (induction names)
  case (Cons m names)
  have step: "sweep_entries d (m # names) = do {
      r \<leftarrow> (do { b \<leftarrow> fs_is_dir (d @ ''/'' @ m);
        if b then fs_remove_dir_all (d @ ''/'' @ m) else fs_remove (d @ ''/'' @ m) });
      case r of Inl _ \<Rightarrow> ret False | Inr _ \<Rightarrow> sweep_entries d names }"
    by simp
  show ?case
    unfolding step by (rule hoare_try [OF remove_entry]) (use Cons in \<open>auto intro: hoare_return\<close>)
qed (auto intro: hoare_return)

text \<open>A swept staging directory holds no file of the name, if there was no directory of that name.\<close>

lemma dir_children_name: "CHR ''/'' \<notin> set n \<Longrightarrow> file_at w (d @ ''/'' @ n) \<noteq> None \<Longrightarrow> n \<in> set (dir_children w d)"
proof -
  assume n: "CHR ''/'' \<notin> set n" and f: "file_at w (d @ ''/'' @ n) \<noteq> None"
  then obtain e where e: "e \<in> set (w_fs w)" "fst e = d @ ''/'' @ n"
    by (auto simp: map_of_eq_None_iff)
  moreover have "child_of d (fst e) = Some n"
    using n e(2) by (simp add: child_of_def strip_prefix_def) (metis takeWhile_eq_all_conv)
  ultimately show ?thesis
    by (force simp: dir_children_def List.map_filter_def)
qed

lemma sweep_clean:
  assumes "CHR ''/'' \<notin> set n"
  shows "hoare (absent (below (d @ ''/'' @ n))) (sweep_staging d)
    (\<lambda>ok w. ok \<longrightarrow> absent (insert (d @ ''/'' @ n) (below (d @ ''/'' @ n))) w)"
proof -
  let ?A = "absent (below (d @ ''/'' @ n))"
  have list: "hoare ?A (fs_read_made_dir d) (on_ok (\<lambda>names. pending d n names))"
  proof (rule hoareI)
    fix w r v
    assume "?A w" and run: "run_state (fs_read_made_dir d) w = (r, v)"
    moreover have "w_fs v = w_fs w \<and> (\<forall>names. r = Inr names \<longrightarrow> names = dir_children v d)"
      using run by (auto simp: fs_read_made_dir_def dest!: run_next_fault split: prod.splits if_splits)
    ultimately show "on_ok (\<lambda>names. pending d n names) r v"
      using dir_children_name [OF assms, of v d] by (auto simp: on_ok_def pending_def absent_def split: sum.split)
  qed
  have go: "hoare (on_ok (\<lambda>names. pending d n names) r) (case r of Inl _ \<Rightarrow> ret False | Inr names \<Rightarrow> sweep_entries d names)
     (\<lambda>ok w. ok \<longrightarrow> absent (insert (d @ ''/'' @ n) (below (d @ ''/'' @ n))) w)" for r :: "io_error + string list"
    by (cases r) (auto intro!: hoare_return hoare_weaken [OF sweep_entries_clean] simp: on_ok_def pending_def absent_def)
  have keep: "preserves ?A fs_dir_op"
    by (rule framed_absent [OF local_op_framed [OF local_op_dir_op [where ps = "{}"]]]) simp
  show ?thesis
    unfolding sweep_staging_def
    by (intro hoare_keep [OF keep] hoare_sum hoare_return hoare_bind [OF list] go) simp_all
qed

subsection \<open>The import publishes what was staged\<close>

definition refuses_dump :: "'e tools \<Rightarrow> string \<Rightarrow> bool" where
  "refuses_dump tt d \<longleftrightarrow> (\<exists>e. fst (tl_integrity tt d e) \<noteq> ''ok'')"

definition accepts_dump :: "'e tools \<Rightarrow> string \<Rightarrow> bool" where
  "accepts_dump tt d \<longleftrightarrow> (\<exists>e. fst (tl_integrity tt d e) = ''ok'')"

text \<open>The outcome of an import of the data \<open>d\<close> at \<open>p\<close>; a refused dump leaves the files alone.\<close>

definition imported :: "'e tools \<Rightarrow> string \<Rightarrow> string set \<Rightarrow> string \<Rightarrow> import_error + unit \<Rightarrow> 'e world \<Rightarrow> bool" where
  "imported tt d R p r w \<longleftrightarrow> (case r of Inr _ \<Rightarrow> data_at w p = Some d \<and> accepts_dump tt d
     | Inl InvalidDump \<Rightarrow> refuses_dump tt d \<and> absent R w | Inl LocalFailure \<Rightarrow> True)"

lemma imported_simps [simp]:
  "imported tt d R p (Inr u) w \<longleftrightarrow> data_at w p = Some d \<and> accepts_dump tt d" "imported tt d R p (Inl LocalFailure) w"
  "imported tt d R p (Inl InvalidDump) w \<longleftrightarrow> refuses_dump tt d \<and> absent R w"
  by (simp_all add: imported_def)

lemma integrity_refuses:
  "hoare (\<lambda>w. data_at w s = Some d \<and> absent R w) (integrity tt s)
    (\<lambda>c w. data_at w s = Some d \<and> absent R w \<and> (c \<noteq> ''ok'' \<longrightarrow> refuses_dump tt d) \<and> (c = ''ok'' \<longrightarrow> accepts_dump tt d))"
  by (rule hoareI) (auto simp: integrity_def env_op_def data_at_def absent_def refuses_dump_def accepts_dump_def split: prod.splits; metis fst_conv)

lemma make_private_data: "preserves (\<lambda>w. data_at w s = Some d) (make_private s)"
  by (rule preservesI)
    (auto simp: make_private_def data_at_def dest!: run_next_fault split: prod.splits if_splits option.splits)

lemma clear_live_error: "hoare (\<lambda>_. True) (clear_live tt p) (\<lambda>c _. c \<noteq> Inl InvalidDump)"
  by (rule hoareI) (auto simp: clear_live_def split: prod.splits sum.splits if_splits bool.splits)

lemma publish_db_data:
  assumes "s \<noteq> p" "accepts_dump tt d"
  shows "hoare (\<lambda>w. data_at w s = Some d) (publish_db s p) (imported tt d R p)"
proof -
  have link: "hoare (\<lambda>w. data_at w s = Some d) (fs_hard_link s p) (on_ok (\<lambda>_ w. data_at w p = Some d))"
    by (rule hoare_weaken [OF hard_link_ok [where P = "\<lambda>x. map_option f_data x = Some d" and R = "\<lambda>_. True"]])
      (auto simp: data_at_def on_ok_def split: sum.splits)
  have rm: "preserves (\<lambda>w. data_at w p = Some d) (fs_remove q)" if "q \<noteq> p" for q
    unfolding data_at_def using remove_other [of p q "\<lambda>x. map_option f_data x = Some d"] that by auto
  show ?thesis
    unfolding publish_db_def
    by (rule hoare_try [OF link]) (use assms in \<open>auto intro!: hoare_return hoare_keep [OF rm]\<close>)
qed

lemma import_passed:
  assumes "s \<noteq> p" "accepts_dump tt d"
  shows "hoare (\<lambda>w. data_at w s = Some d) (do {
      m \<leftarrow> make_private s; case m of Inl _ \<Rightarrow> ret (Inl LocalFailure)
      | Inr _ \<Rightarrow> do { c \<leftarrow> clear_live tt p; case c of Inl e \<Rightarrow> ret (Inl e) | Inr _ \<Rightarrow> publish_db s p } }) (imported tt d R p)"
proof -
  have keep: "preserves (\<lambda>w. data_at w s = Some d) (clear_live tt p)"
    unfolding data_at_def by (rule framed_preserves [OF framed_clear_live]) (use assms in simp)
  have mid: "hoare (\<lambda>w. data_at w s = Some d) (clear_live tt p)
      (\<lambda>c w. data_at w s = Some d \<and> c \<noteq> Inl InvalidDump)"
    by (rule hoare_both [OF keep clear_live_error]) simp_all
  have clear: "hoare (\<lambda>w. data_at w s = Some d) (do {
      c \<leftarrow> clear_live tt p; case c of Inl e \<Rightarrow> ret (Inl e) | Inr _ \<Rightarrow> publish_db s p }) (imported tt d R p)"
  proof (rule hoare_bind [OF mid])
    fix c :: "import_error + unit"
    let ?Q = "\<lambda>w. data_at w s = Some d \<and> c \<noteq> Inl InvalidDump"
    show "hoare ?Q (case c of Inl e \<Rightarrow> ret (Inl e) | Inr _ \<Rightarrow> publish_db s p) (imported tt d R p)"
    proof (cases c)
      case (Inl e)
      show ?thesis
        unfolding Inl sum.case by (rule hoare_return) (cases e; simp)
    next
      case (Inr u)
      show ?thesis
        unfolding Inr sum.case by (rule hoare_pre [OF publish_db_data [OF assms]]) simp
    qed
  qed
  show ?thesis
    by (intro hoare_keep [OF make_private_data] hoare_sum clear hoare_return) simp
qed

lemma import_data:
  assumes "s \<noteq> p"
  shows "hoare (\<lambda>w. data_at w s = Some d \<and> absent R w) (sqlite_import tt s p) (imported tt d R p)"
proof -
  have go: "hoare (\<lambda>w. data_at w s = Some d \<and> accepts_dump tt d) (do {
      m \<leftarrow> make_private s; case m of Inl _ \<Rightarrow> ret (Inl LocalFailure)
      | Inr _ \<Rightarrow> do { c \<leftarrow> clear_live tt p; case c of Inl e \<Rightarrow> ret (Inl e) | Inr _ \<Rightarrow> publish_db s p } }) (imported tt d R p)"
  proof (cases "accepts_dump tt d")
    case True
    show ?thesis
      by (rule hoare_pre [OF import_passed [OF assms True]]) simp
  qed (simp add: hoare_def)
  show ?thesis
    unfolding sqlite_import_def
    by (rule hoare_bind [OF integrity_refuses], rule hoare_if)
      (auto intro!: hoare_return hoare_pre [OF go])
qed

lemma sqlite_import_bucket:
  assumes "quiet_tools bk tt"
  shows "preserves (on_bucket bk P) (sqlite_import tt s p)"
proof -
  have tool: "preserves (on_bucket bk P) (integrity tt s)"
    unfolding integrity_def
    by (intro preserves_rules quiet_env) (use assms in \<open>simp add: quiet_tools_def\<close>)
  have clear: "preserves (on_bucket bk P) (clear_live tt p)"
    unfolding clear_live_def
    by (intro preserves_rules is_empty_bucket [OF assms] local_bucket [OF local_op_exists])
      (auto intro!: preserves_rules remove_bucket split: bool.split)
  show ?thesis
    unfolding sqlite_import_def publish_db_def
    by (intro preserves_rules tool clear remove_bucket local_bucket [OF local_op_make_private [OF singletonI]]
      local_bucket [OF local_op_hard_link [OF singletonI]])
qed

subsection \<open>The candidate that is restored\<close>

text \<open>\<open>b\<close> holds the good dump \<open>d\<close> under a candidate's key, and every candidate before it was refused.\<close>

definition first_usable :: "'e tools \<Rightarrow> (string \<Rightarrow> string option) \<Rightarrow> backup_candidate list \<Rightarrow> string \<Rightarrow> bool" where
  "first_usable tt b cs d \<longleftrightarrow> (\<exists>us c vs. cs = us @ c # vs \<and> b (cd_key c) = Some d \<and> accepts_dump tt d \<and>
     (\<forall>u \<in> set us. \<exists>x. b (cd_key u) = Some x \<and> refuses_dump tt x))"

lemma first_usable_here: "b (cd_key c) = Some d \<Longrightarrow> accepts_dump tt d \<Longrightarrow> first_usable tt b (c # cs) d"
  unfolding first_usable_def by (rule exI [of _ "[]"]) auto

lemma first_usable_next: "first_usable tt b cs d \<Longrightarrow> b (cd_key c) = Some x \<Longrightarrow> refuses_dump tt x \<Longrightarrow>
    first_usable tt b (c # cs) d"
proof -
  assume u: "first_usable tt b cs d" and c: "b (cd_key c) = Some x" "refuses_dump tt x"
  then obtain us k vs where cs: "cs = us @ k # vs" "b (cd_key k) = Some d" "accepts_dump tt d"
      "\<forall>u \<in> set us. \<exists>x. b (cd_key u) = Some x \<and> refuses_dump tt x"
    by (auto simp: first_usable_def)
  show ?thesis
    unfolding first_usable_def by (rule exI [of _ "c # us"], rule exI [of _ k], rule exI [of _ vs]) (use cs c in auto)
qed

text \<open>What a candidate leaves: the bucket as it was, and the live database or a refusal.\<close>

definition candidate_done :: "'e tools \<Rightarrow> (string \<Rightarrow> string option) \<Rightarrow> string \<Rightarrow> string set \<Rightarrow> string \<Rightarrow>
    restore_attempt \<Rightarrow> 'e world \<Rightarrow> bool" where
  "candidate_done tt b key R p a w \<longleftrightarrow> (case a of
     Imported \<Rightarrow> (\<exists>d. b key = Some d \<and> accepts_dump tt d \<and> data_at w p = Some d)
   | NotUsable \<Rightarrow> absent R w \<and> (\<exists>x. b key = Some x \<and> refuses_dump tt x)
   | AttemptFailed \<Rightarrow> True)"

lemma candidate_done_simps [simp]:
  "candidate_done tt b key R p Imported w \<longleftrightarrow> (\<exists>d. b key = Some d \<and> accepts_dump tt d \<and> data_at w p = Some d)"
  "candidate_done tt b key R p NotUsable w \<longleftrightarrow> absent R w \<and> (\<exists>x. b key = Some x \<and> refuses_dump tt x)"
  "candidate_done tt b key R p AttemptFailed w"
  by (simp_all add: candidate_done_def)

abbreviation restore_part :: "backup_config \<Rightarrow> string" where
  "restore_part cfg \<equiv> part_of (restore_staged cfg)"

lemma restore_part_name: "\<exists>n. restore_part cfg = bc_staging cfg @ ''/'' @ n \<and> CHR ''/'' \<notin> set n"
  by (rule exI [of _ "part_of (''restore-'' @ db_label)"]) (simp add: restore_staged_def part_of_def db_label_def)

lemma sweep_restore_part: "hoare (absent (below (restore_part cfg))) (sweep_staging (bc_staging cfg))
    (\<lambda>ok w. ok \<longrightarrow> absent (insert (restore_part cfg) (below (restore_part cfg))) w)"
proof -
  obtain n where n: "restore_part cfg = bc_staging cfg @ ''/'' @ n" "CHR ''/'' \<notin> set n"
    using restore_part_name by blast
  show ?thesis
    unfolding n(1) by (rule sweep_clean [OF n(2)])
qed

lemma staged_not_below: "restore_staged cfg \<notin> below (restore_part cfg)" "restore_part cfg \<notin> below (restore_part cfg)"
  by (auto simp: below_def part_of_def prefix_def)

lemma get_absent: "preserves (absent (below (restore_part cfg))) (s3_get dp cl key (restore_staged cfg) ex abort)"
  by (rule framed_absent [OF framed_get]) (use staged_not_below in auto)

context s3_reader
begin

lemma sweep_bucket: "preserves (\<lambda>w. bucket bk w = b) (sweep_staging d)"
  by (rule sweep_staging_bucket)

lemma get_staged:
  assumes "calm abort"
  shows "hoare (\<lambda>w. bucket bk w = b \<and> absent (insert (restore_part cfg) (below (restore_part cfg))) w)
    (s3_get dp cl key (restore_staged cfg) ex abort)
    (\<lambda>r w. bucket bk w = b \<and> on_ok (\<lambda>_ w. absent (below (restore_part cfg)) w \<and> b key \<noteq> None \<and>
      data_at w (restore_staged cfg) = b key) r w)"
proof (rule hoare_both [OF preserves_conj [OF get_bucket [OF assms] get_absent] get_brings_object [OF assms]])
  fix w :: "'e world"
  assume "bucket bk w = b \<and> absent (insert (restore_part cfg) (below (restore_part cfg))) w"
  then show "(bucket bk w = b \<and> absent (below (restore_part cfg)) w) \<and> reading b key (restore_part cfg) w"
    by (simp add: absent_def reading_def piece_def)
qed (simp add: on_ok_def split: sum.splits)

lemma restore_object_source:
  assumes calm: "calm abort" and tools: "quiet_tools bk tt"
    and apart: "bc_db_path cfg \<notin> below (bc_staging cfg)" "bc_db_path cfg \<noteq> sidecar_path (bc_db_path cfg)"
  shows "hoare (\<lambda>w. bucket bk w = b \<and> absent (below (restore_part cfg)) w)
    (restore_object tt (client_store dp cl) cfg abort c)
    (\<lambda>a w. bucket bk w = b \<and> candidate_done tt b (cd_key c) (below (restore_part cfg)) (bc_db_path cfg) a w)"
proof -
  let ?p = "bc_db_path cfg" and ?s = "restore_staged cfg" and ?R = "below (restore_part cfg)"
  let ?Q = "\<lambda>a w. bucket bk w = b \<and> candidate_done tt b (cd_key c) ?R ?p a w"
  have ne: "?s \<noteq> ?p"
    using apart staged_below by metis
  have failed: "hoare (\<lambda>w. bucket bk w = b \<and> P w) (ret AttemptFailed) ?Q" for P
    by (rule hoare_return) simp
  have rm: "preserves (\<lambda>w. bucket bk w = b \<and> imported tt d ?R ?p i w) (fs_remove ?s)" for d i
  proof (intro preserves_conj remove_bucket)
    have "preserves (\<lambda>w. data_at w ?p = Some d \<and> accepts_dump tt d) (fs_remove ?s)"
      unfolding data_at_def by (rule remove_other [OF ne [symmetric], where P = "\<lambda>x. map_option f_data x = Some d \<and> accepts_dump tt d"])
    moreover have "preserves (\<lambda>w. refuses_dump tt d \<and> absent ?R w) (fs_remove ?s)"
      by (intro preserves_conj remove_absent) (simp add: preservesI)
    ultimately show "preserves (imported tt d ?R ?p i) (fs_remove ?s)"
      unfolding imported_def by (cases i) (auto intro!: preservesI split: import_error.split dest: preservesD)
  qed
  have lin: "preserves (\<lambda>w. bucket bk w = b \<and> data_at w ?p = Some d \<and> accepts_dump tt d) (record_lineage cfg c)" for d
  proof (rule preserves_conj)
    show "preserves (\<lambda>w. bucket bk w = b) (record_lineage cfg c)"
      unfolding record_lineage_def lineage_write_name_def lineage_write_text_def
      by (intro preserves_rules lineage_write_bucket local_bucket [OF local_lineage_write(1)] local_bucket [OF local_lineage_write(2)])
    show "preserves (\<lambda>w. data_at w ?p = Some d \<and> accepts_dump tt d) (record_lineage cfg c)"
      unfolding data_at_def by (rule framed_preserves [OF framed_record_lineage]) (use apart in simp)
  qed
  have import: "hoare (\<lambda>w. bucket bk w = b \<and> absent ?R w \<and> b (cd_key c) \<noteq> None \<and> data_at w ?s = b (cd_key c)) (do {
           i \<leftarrow> sqlite_import tt ?s ?p; fs_remove ?s;
           case i of
             Inr _ \<Rightarrow> do { record_lineage cfg c; ret Imported }
           | Inl InvalidDump \<Rightarrow> ret NotUsable
           | Inl LocalFailure \<Rightarrow> ret AttemptFailed }) ?Q"
  proof (cases "b (cd_key c)")
    case (Some d)
    have imp: "hoare (\<lambda>w. bucket bk w = b \<and> absent ?R w \<and> b (cd_key c) \<noteq> None \<and> data_at w ?s = b (cd_key c))
        (sqlite_import tt ?s ?p) (\<lambda>i w. bucket bk w = b \<and> imported tt d ?R ?p i w)"
      by (rule hoare_both [OF sqlite_import_bucket [OF tools, where P = "\<lambda>x. x = b"] import_data [OF ne, where d = d and R = ?R]]) (auto simp: Some)
    show ?thesis
    proof (rule hoare_bind [OF imp], rule hoare_keep [OF rm])
      fix i :: "import_error + unit"
      show "hoare (\<lambda>w. bucket bk w = b \<and> imported tt d ?R ?p i w) (case i of
             Inr _ \<Rightarrow> do { record_lineage cfg c; ret Imported }
           | Inl InvalidDump \<Rightarrow> ret NotUsable
           | Inl LocalFailure \<Rightarrow> ret AttemptFailed) ?Q"
      proof (cases i)
        case (Inl e)
        show ?thesis
          unfolding Inl sum.case by (cases e; simp only: import_error.case; rule hoare_return; simp add: Some)
      next
        case (Inr u)
        show ?thesis
          unfolding Inr sum.case imported_simps by (intro hoare_keep [OF lin] hoare_return) (simp add: Some)
      qed
    qed
  qed (simp add: hoare_def)
  have get: "hoare (\<lambda>w. bucket bk w = b \<and> absent (insert (restore_part cfg) ?R) w) (do {
       r \<leftarrow> s3_get dp cl (cd_key c) ?s (restore_expect c) abort;
       case r of Inl _ \<Rightarrow> ret AttemptFailed
       | Inr _ \<Rightarrow> do {
           i \<leftarrow> sqlite_import tt ?s ?p; fs_remove ?s;
           case i of
             Inr _ \<Rightarrow> do { record_lineage cfg c; ret Imported }
           | Inl InvalidDump \<Rightarrow> ret NotUsable
           | Inl LocalFailure \<Rightarrow> ret AttemptFailed } }) ?Q"
  proof (rule hoare_bind [OF get_staged [OF calm]])
    fix r :: "s3_error + unit"
    show "hoare (\<lambda>w. bucket bk w = b \<and> on_ok (\<lambda>_ w. absent ?R w \<and> b (cd_key c) \<noteq> None \<and> data_at w ?s = b (cd_key c)) r w)
      (case r of Inl _ \<Rightarrow> ret AttemptFailed
       | Inr _ \<Rightarrow> do {
           i \<leftarrow> sqlite_import tt ?s ?p; fs_remove ?s;
           case i of
             Inr _ \<Rightarrow> do { record_lineage cfg c; ret Imported }
           | Inl InvalidDump \<Rightarrow> ret NotUsable
           | Inl LocalFailure \<Rightarrow> ret AttemptFailed }) ?Q"
      using import failed by (cases r) (simp_all only: sum.case on_ok_simps)
  qed
  have swept: "hoare (\<lambda>w. bucket bk w = b \<and> absent ?R w) (sweep_staging (bc_staging cfg))
      (\<lambda>clean w. bucket bk w = b \<and> (clean \<longrightarrow> absent (insert (restore_part cfg) ?R) w))"
    by (rule hoare_both [OF sweep_bucket sweep_restore_part]) simp_all
  show ?thesis
    unfolding restore_object_def client_store_simps
  proof (rule hoare_bind [OF swept])
    fix clean
    show "hoare (\<lambda>w. bucket bk w = b \<and> (clean \<longrightarrow> absent (insert (restore_part cfg) ?R) w)) (if \<not> clean then ret AttemptFailed
      else do {
       r \<leftarrow> s3_get dp cl (cd_key c) ?s (restore_expect c) abort;
       case r of Inl _ \<Rightarrow> ret AttemptFailed
       | Inr _ \<Rightarrow> do {
           i \<leftarrow> sqlite_import tt ?s ?p; fs_remove ?s;
           case i of
             Inr _ \<Rightarrow> do { record_lineage cfg c; ret Imported }
           | Inl InvalidDump \<Rightarrow> ret NotUsable
           | Inl LocalFailure \<Rightarrow> ret AttemptFailed } }) ?Q"
      using get failed [of "\<lambda>_. True"] by (cases clean) (simp_all only: if_True if_False not_True_eq_False not_False_eq_True simp_thms)
  qed
qed

lemma restore_first_source:
  assumes "calm abort" "quiet_tools bk tt"
    and "bc_db_path cfg \<notin> below (bc_staging cfg)" "bc_db_path cfg \<noteq> sidecar_path (bc_db_path cfg)"
  shows "hoare (\<lambda>w. bucket bk w = b \<and> absent (below (restore_part cfg)) w)
    (restore_first tt (client_store dp cl) cfg abort cs)
    (\<lambda>r w. r = Ready \<longrightarrow> (\<exists>d. data_at w (bc_db_path cfg) = Some d \<and> first_usable tt b cs d))"
proof (induction cs)
  case (Cons c cs)
  let ?p = "bc_db_path cfg" and ?R = "below (restore_part cfg)"
  let ?Q = "\<lambda>r w. r = Ready \<longrightarrow> (\<exists>d. data_at w ?p = Some d \<and> first_usable tt b (c # cs) d)"
  have stop: "preserves (\<lambda>w. bucket bk w = b \<and> absent ?R w) (env_op abort)"
    by (intro preserves_conj quiet_env store.calm_law [OF assms(1)] framed_absent [OF framed_env_op [of "{}"]]) simp
  have out: "hoare P (ret r) ?Q" if "r \<noteq> Ready" for P r
    by (rule hoare_return) (simp add: that)
  have step: "hoare (\<lambda>w. bucket bk w = b \<and> candidate_done tt b (cd_key c) ?R ?p a w) (case a of Imported \<Rightarrow> ret Ready
       | NotUsable \<Rightarrow> restore_first tt (client_store dp cl) cfg abort cs
       | AttemptFailed \<Rightarrow> do { stop' \<leftarrow> env_op abort; ret (if stop' then RestoreAborted else RestoreFailed) }) ?Q" for a
  proof (cases a)
    case Imported
    show ?thesis
      unfolding Imported restore_attempt.case by (rule hoare_return) (auto intro: first_usable_here)
  next
    case NotUsable
    show ?thesis
    proof (cases "\<exists>x. b (cd_key c) = Some x \<and> refuses_dump tt x")
      case True
      then obtain x where x: "b (cd_key c) = Some x" "refuses_dump tt x"
        by blast
      show ?thesis
        unfolding NotUsable restore_attempt.case
        by (rule hoare_weaken [OF Cons]) (use x in \<open>auto intro: first_usable_next [where b = b and c = c]\<close>)
    next
      case False
      then show ?thesis
        by (simp only: NotUsable hoare_def candidate_done_simps) blast
    qed
  next
    case AttemptFailed
    show ?thesis
      unfolding AttemptFailed restore_attempt.case by (rule hoare_bind [where R = "\<lambda>_ _. True"]) (auto intro!: hoare_return simp: hoare_def)
  qed
  show ?case
    unfolding restore_first.simps
    by (intro hoare_keep [OF stop] hoare_if out hoare_bind [OF restore_object_source [OF assms]] step) simp
qed (simp add: hoare_return)

end

text \<open>
  What the restore tries, newest first: the generations of the manifest, or without a readable one
  the dumps the listing names.
\<close>

definition candidates_of :: "backup_config \<Rightarrow> (string \<Rightarrow> string option) \<Rightarrow> backup_candidate list \<Rightarrow> bool" where
  "candidates_of cfg b cs \<longleftrightarrow>
     (\<exists>text es. b (backup_manifest_key cfg) = Some text \<and> generations_parse text = Inr es \<and> cs = manifest_candidates cfg es) \<or>
     (\<exists>names. map cd_key cs = map ((@) (backup_prefix cfg)) names \<and> sorted (rev names) \<and> list_all is_dump_name names)"

definition restorable :: "'e tools \<Rightarrow> backup_config \<Rightarrow> (string \<Rightarrow> string option) \<Rightarrow> string \<Rightarrow> bool" where
  "restorable tt cfg b d \<longleftrightarrow> (\<exists>cs. candidates_of cfg b cs \<and> first_usable tt b cs d)"

context object_store
begin

lemma load_generations_of:
  assumes "calm abort"
  shows "hoare (\<lambda>w. bucket bk w = b) (load_generations st cfg abort) (\<lambda>r w. bucket bk w = b \<and>
    (\<forall>es. r = Inr (Some es) \<longrightarrow> (\<exists>text. b (backup_manifest_key cfg) = Some text \<and> generations_parse text = Inr es)))"
proof -
  have "hoare (\<lambda>w. bucket bk w = b) (st_get_text st (backup_manifest_key cfg) MAX_BACKUP_MANIFEST_BYTES abort)
      (\<lambda>r w. bucket bk w = b \<and> on_ok (\<lambda>t _. b (backup_manifest_key cfg) = t) r w)"
    by (rule hoare_both [OF get_text_preserves_bucket [OF assms, where P = "\<lambda>x. x = b"] get_text_reads [OF assms]])
      (auto simp: on_ok_def split: sum.splits)
  then show ?thesis
    unfolding load_generations_def
    by (rule hoare_bind) (rule hoare_return, auto simp: on_ok_def read_generations_def split: sum.splits option.splits)
qed

lemma legacy_candidates_of:
  assumes "calm abort"
  shows "hoare (\<lambda>w. bucket bk w = b) (legacy_candidates st cfg abort) (on_ok (\<lambda>cs _. candidates_of cfg b cs))"
proof -
  have cand: "candidates_of cfg c (map (\<lambda>(name, n). \<lparr>cd_key = backup_prefix cfg @ name, cd_size = n, cd_generation = None\<rparr>)
      (rev (sort_key fst (List.map_filter (dump_name cfg) ls))))" for ls c
  proof -
    let ?l = "sort_key fst (List.map_filter (dump_name cfg) ls)"
    have "map cd_key (map (\<lambda>(name, n). \<lparr>cd_key = backup_prefix cfg @ name, cd_size = n, cd_generation = None\<rparr>) (rev ?l))
        = map ((@) (backup_prefix cfg)) (map fst (rev ?l))"
      by (simp add: split_beta)
    moreover have "sorted (rev (map fst (rev ?l)))"
      by (simp add: rev_map [symmetric])
    moreover have "list_all is_dump_name (map fst (rev ?l))"
      using dump_names_keys [of _ cfg ls] by (auto simp: list_all_iff)
    ultimately show ?thesis
      unfolding candidates_of_def by blast
  qed
  show ?thesis
    unfolding legacy_candidates_def list_objects_def
    by (rule hoareI) (auto simp: on_ok_def cand split: prod.splits sum.splits)
qed

lemma backup_candidates_of:
  assumes "calm abort"
  shows "hoare (\<lambda>w. bucket bk w = b) (backup_candidates st cfg abort) (on_ok (\<lambda>cs _. candidates_of cfg b cs))"
proof -
  have legacy: "hoare (\<lambda>w. bucket bk w = b \<and> P w) (legacy_candidates st cfg abort) (on_ok (\<lambda>cs _. candidates_of cfg b cs))" for P
    by (rule hoare_pre [OF legacy_candidates_of [OF assms]]) simp
  have found: "hoare (\<lambda>w. bucket bk w = b \<and> (\<forall>es'. Inr (Some es) = Inr (Some es') \<longrightarrow>
      (\<exists>text. b (backup_manifest_key cfg) = Some text \<and> generations_parse text = Inr es')))
    (ret (Inr (manifest_candidates cfg es))) (on_ok (\<lambda>cs _. candidates_of cfg b cs))" for es
    by (rule hoare_return) (auto simp: candidates_of_def)
  show ?thesis
    unfolding backup_candidates_def
  proof (rule hoare_bind [OF load_generations_of [OF assms]])
    fix r :: "backup_error + generations option"
    show "hoare (\<lambda>w. bucket bk w = b \<and> (\<forall>es. r = Inr (Some es) \<longrightarrow>
        (\<exists>text. b (backup_manifest_key cfg) = Some text \<and> generations_parse text = Inr es)))
      (case r of Inr (Some es) \<Rightarrow> ret (Inr (manifest_candidates cfg es))
       | Inr None \<Rightarrow> legacy_candidates st cfg abort | Inl _ \<Rightarrow> legacy_candidates st cfg abort)
      (on_ok (\<lambda>cs _. candidates_of cfg b cs))"
      using legacy found by (cases r) (auto simp only: sum.case option.case split: option.split)
  qed
qed

lemma backup_candidates_bucket: "calm abort \<Longrightarrow> preserves (\<lambda>w. bucket bk w = b) (backup_candidates st cfg abort)"
  unfolding backup_candidates_def legacy_candidates_def load_generations_def list_objects_def
  by (intro preserves_rules get_text_preserves_bucket list_preserves_bucket)

end

context s3_reader
begin

lemma restore_from_source:
  assumes calm: "calm abort" and tools: "quiet_tools bk (tt :: 'e tools)" and dp: "tl_deps tt = dp"
    and apart: "bc_db_path cfg \<notin> below (bc_staging cfg)" "bc_db_path cfg \<noteq> sidecar_path (bc_db_path cfg)"
  shows "hoare (\<lambda>w. bucket bk w = b \<and> absent (below (restore_part cfg)) w \<and> data_at w (bc_db_path cfg) = x)
    (restore_from tt (client_store dp cl) cfg abort)
    (\<lambda>r w. r = Ready \<longrightarrow> data_at w (bc_db_path cfg) = x \<or> (\<exists>d. data_at w (bc_db_path cfg) = Some d \<and> restorable tt cfg b d))"
    (is "hoare ?P _ ?Q")
proof -
  let ?R = "below (restore_part cfg)" and ?p = "bc_db_path cfg"
  have keep: "preserves ?P (backup_candidates (client_store dp cl) cfg abort)"
    unfolding data_at_def
    by (intro preserves_conj store.backup_candidates_bucket [OF calm] framed_absent [OF framed_backup_candidates [of "{}"]]
      framed_preserves [OF framed_backup_candidates [of "{}"]]) simp_all
  have cand: "hoare ?P (backup_candidates (client_store dp cl) cfg abort)
      (\<lambda>cs w. ?P w \<and> on_ok (\<lambda>cs _. candidates_of cfg b cs) cs w)"
    by (rule hoare_both [OF keep store.backup_candidates_of [OF calm]]) auto
  have out: "hoare P (ret r) ?Q" if "r \<noteq> Ready" for P r
    by (rule hoare_return) (simp add: that)
  have go: "hoare (\<lambda>w. ?P w \<and> candidates_of cfg b cs) (if cs = [] then ret Ready else restore_first tt (client_store dp cl) cfg abort cs) ?Q" for cs
  proof (cases "candidates_of cfg b cs")
    case True
    show ?thesis
      by (intro hoare_if) (rule hoare_return, simp,
        rule hoare_weaken [OF restore_first_source [OF calm tools apart, where cs = cs and b = b]], simp, use True in \<open>auto simp: restorable_def\<close>)
  qed (simp add: hoare_def)
  show ?thesis
    unfolding restore_from_def
  proof (rule hoare_bind [OF cand])
    fix cs :: "backup_error + backup_candidate list"
    show "hoare (\<lambda>w. ?P w \<and> on_ok (\<lambda>cs _. candidates_of cfg b cs) cs w) (case cs of
       Inl _ \<Rightarrow> do { stop \<leftarrow> env_op abort; ret (if stop then RestoreAborted else RestoreFailed) }
     | Inr cs \<Rightarrow> if cs = [] then ret Ready else restore_first tt (client_store dp cl) cfg abort cs) ?Q"
    proof (cases cs)
      case (Inl e)
      show ?thesis
        unfolding Inl sum.case by (rule hoare_bind [where R = "\<lambda>_ _. True"]) (auto intro!: out simp: hoare_def)
    next
      case (Inr c)
      show ?thesis
        unfolding Inr sum.case on_ok_simps by (rule go)
    qed
  qed
qed

end

text \<open>Every client the configuration connects reads a bucket that serves its objects.\<close>

definition serves_objects :: "'e deps \<Rightarrow> sync_config \<Rightarrow> ('e \<Rightarrow> string \<Rightarrow> string option) \<Rightarrow>
    ('e \<Rightarrow> string \<Rightarrow> nat \<Rightarrow> (string \<times> string) option) \<Rightarrow> (string option \<Rightarrow> string \<Rightarrow> bool) \<Rightarrow> bool" where
  "serves_objects dp sc bk up after \<longleftrightarrow> (\<forall>cl. connect dp (sc_target sc) = Inr cl \<longrightarrow> s3_reader dp cl bk up after)"

lemma restore_source:
  assumes served: "serves_objects (tl_deps tt) (bc_sync cfg) bk up after"
    and q: "quiet bk abort" "quiet up abort" "quiet_tools bk tt"
    and apart: "bc_db_path cfg \<notin> below (bc_staging cfg)" "bc_db_path cfg \<noteq> sidecar_path (bc_db_path cfg)"
  shows "hoare (\<lambda>w. bucket bk w = b \<and> absent (below (restore_part cfg)) w \<and> data_at w (bc_db_path cfg) = x)
    (restore_if_empty tt cfg abort)
    (\<lambda>r w. r = Ready \<longrightarrow> data_at w (bc_db_path cfg) = x \<or> (\<exists>d. data_at w (bc_db_path cfg) = Some d \<and> restorable tt cfg b d))"
    (is "hoare ?P _ ?Q")
proof -
  let ?p = "bc_db_path cfg"
  have ie: "framed {} (is_empty tt ?p)"
    unfolding is_empty_def db_files_def by (intro framed_rules framed_fs)
  have keep: "preserves ?P (is_empty tt ?p)"
    unfolding data_at_def
    by (intro preserves_conj is_empty_bucket [OF q(3)] framed_absent [OF ie] framed_preserves [OF ie]) simp_all
  have out: "hoare ?P (ret r) ?Q" for r
    by (rule hoare_return) simp
  have go: "hoare ?P (case connect (tl_deps tt) (sc_target (bc_sync cfg)) of Inl _ \<Rightarrow> ret Ready
       | Inr cl \<Rightarrow> restore_from tt (client_store (tl_deps tt) cl) cfg abort) ?Q"
  proof (rule hoare_sum, rule out)
    fix cl assume "connect (tl_deps tt) (sc_target (bc_sync cfg)) = Inr cl"
    with served have r: "s3_reader (tl_deps tt) cl bk up after"
      by (simp add: serves_objects_def)
    then have s: "s3_service (tl_deps tt) cl bk up after"
      by (rule s3_reader.axioms)
    show "hoare ?P (restore_from tt (client_store (tl_deps tt) cl) cfg abort) ?Q"
      by (rule s3_reader.restore_from_source [OF r _ q(3) refl apart]) (simp add: calm_quiet [OF s] q)
  qed
  show ?thesis
    unfolding restore_if_empty_def
    by (intro hoare_if out hoare_keep [OF keep] hoare_sum) (auto intro: out go split: bool.split)
qed

text \<open>Tools whose integrity check refuses one text, over the server in memory.\<close>

definition strict_tools :: "fake tools" where
  "strict_tools = fake_tools\<lparr>tl_integrity := (\<lambda>d e. (if d = ''bad'' then ''malformed'' else ''ok'', e))\<rparr>"

lemma strict_quiet: "quiet_tools fake_bk strict_tools"
  by (simp add: quiet_def quiet_tools_def strict_tools_def fake_tools_def)

lemma strict_passed: "accepts_dump strict_tools d \<longleftrightarrow> d \<noteq> ''bad''"
  by (simp add: accepts_dump_def strict_tools_def)

lemma strict_serves: "serves_objects (tl_deps strict_tools) sc fake_bk fake_up fake_after"
  by (simp add: serves_objects_def strict_tools_def fake_tools_def fake_reader.s3_reader_axioms)

lemma candidates_key: "candidates_of cfg b cs \<Longrightarrow> c \<in> set cs \<Longrightarrow> prefix (backup_prefix cfg) (cd_key c)"
proof -
  assume cand: "candidates_of cfg b cs" and c: "c \<in> set cs"
  show ?thesis
  proof (cases "\<exists>names. map cd_key cs = map ((@) (backup_prefix cfg)) names")
    case True
    then obtain names where "map cd_key cs = map ((@) (backup_prefix cfg)) names"
      by blast
    moreover have "cd_key c \<in> set (map cd_key cs)"
      using c by simp
    ultimately show ?thesis
      by (simp only:) auto
  next
    case False
    with cand c show ?thesis
      by (auto simp: candidates_of_def manifest_candidates_def)
  qed
qed

end
