(* ===== verification/BackupRoundTrip.thy ===== *)
theory BackupRoundTrip
  imports RestoreSource
begin

text \<open>
  The backup cycle and the boot-time restore together: what one machine's cycles put into the
  bucket is all another machine's restore can bring back. Every object below the backup prefix but
  the manifest stays the complete output of a \<open>VACUUM INTO\<close> that succeeded on a database that was
  live when its cycle ran: a torn or foreign staging file is never shipped.
\<close>

subsection \<open>Dumps of databases\<close>

text \<open>\<open>D\<close> holds databases with their write-ahead logs; \<open>d\<close> is a complete dump of one of them.\<close>

definition dump_of :: "'e tools \<Rightarrow> (string \<times> string option) set \<Rightarrow> string \<Rightarrow> bool" where
  "dump_of tt D d \<longleftrightarrow> (\<exists>db wal e. (db, wal) \<in> D \<and> fst (tl_vacuum tt db wal e) = (True, Some d))"

definition snapshots :: "'e tools \<Rightarrow> (string \<times> string option) set \<Rightarrow> backup_config \<Rightarrow> (string \<Rightarrow> string option) \<Rightarrow> bool" where
  "snapshots tt D cfg b \<longleftrightarrow>
     (\<forall>name d. name \<noteq> ''manifest'' \<longrightarrow> b (backup_prefix cfg @ name) = Some d \<longrightarrow> dump_of tt D d)"

definition live_in :: "(string \<times> string option) set \<Rightarrow> string \<Rightarrow> 'e world \<Rightarrow> bool" where
  "live_in D p w \<longleftrightarrow> (\<forall>d. data_at w p = Some d \<longrightarrow> (d, data_at w (p @ ''-wal'')) \<in> D)"

definition staged_in :: "'e tools \<Rightarrow> (string \<times> string option) set \<Rightarrow> string \<Rightarrow> 'e world \<Rightarrow> bool" where
  "staged_in tt D p w \<longleftrightarrow> (\<forall>d. data_at w p = Some d \<longrightarrow> dump_of tt D d)"

text \<open>A \<open>VACUUM INTO\<close> that reports success wrote its output file.\<close>

definition vacuum_writes :: "'e tools \<Rightarrow> bool" where
  "vacuum_writes tt \<longleftrightarrow> (\<forall>db wal e x. fst (tl_vacuum tt db wal e) = (True, x) \<longrightarrow> x \<noteq> None)"

lemma snapshots_manifest: "snapshots tt D cfg b \<Longrightarrow> snapshots tt D cfg (b(backup_manifest_key cfg := x))"
  by (auto simp: snapshots_def backup_manifest_key_def)

lemma snapshots_delete: "snapshots tt D cfg b \<Longrightarrow> snapshots tt D cfg (b(k := None))"
  by (auto simp: snapshots_def)

lemma snapshots_upload: "snapshots tt D cfg b \<Longrightarrow> dump_of tt D d \<Longrightarrow> snapshots tt D cfg (b(k \<mapsto> d))"
  by (auto simp: snapshots_def)

lemma dump_of_mono: "dump_of tt D d \<Longrightarrow> D \<subseteq> E \<Longrightarrow> dump_of tt E d"
  unfolding dump_of_def by blast

subsection \<open>The staged file\<close>

lemma live_in_framed: "framed ps m \<Longrightarrow> p \<notin> ps \<Longrightarrow> p @ ''-wal'' \<notin> ps \<Longrightarrow> preserves (live_in D p) m"
  by (rule preservesI) (simp add: live_in_def data_at_def frame_def framedD [unfolded frame_def])

lemma live_in_fs: "live_in D p w = (\<lambda>f. \<forall>d. map_option f_data (bt_get f p) = Some d \<longrightarrow>
    (d, map_option f_data (bt_get f (p @ ''-wal''))) \<in> D) (w_fs w)"
  by (simp add: live_in_def data_at_def)

lemma staged_in_env: "preserves (staged_in tt D p) (env_op f)"
  unfolding staged_in_def data_at_def by (rule env_op_preserves_fs)

lemma staged_in_make_private: "preserves (staged_in tt D p) (make_private p)"
  by (rule preservesI) (auto simp: make_private_def staged_in_def data_at_def dest!: run_next_fault
      split: prod.splits if_splits option.splits)

lemma staged_in_read: "local_op {} m \<Longrightarrow> preserves (staged_in tt D p) m"
  unfolding staged_in_def data_at_def
  by (rule local_preserves_file [where P = "\<lambda>x. \<forall>d. map_option f_data x = Some d \<longrightarrow> dump_of tt D d", rotated]) simp_all

lemma staged_in_repeat: "preserves (staged_in tt D p) (is_repeat a b)"
  unfolding is_repeat_def same_bytes_def by (intro preserves_rules staged_in_read local_op_read)

lemma sqlite_dump_staged:
  assumes "vacuum_writes tt"
  shows "hoare (live_in D p) (sqlite_dump tt p staged) (\<lambda>ok w. ok \<longrightarrow> staged_in tt D staged w)"
proof (rule hoareI, rule impI)
  fix w ok v
  assume live: "live_in D p w" and run: "run_state (sqlite_dump tt p staged) w = (ok, v)" and ok
  from run \<open>ok\<close> obtain d where d: "data_at w p = Some d"
    by (cases "data_at w p") (simp_all add: sqlite_dump_def db_files_def)
  let ?wal = "data_at w (p @ ''-wal'')"
  obtain s x e where vac: "tl_vacuum tt d ?wal (w_env w) = ((s, x), e)"
    by (metis prod.collapse)
  have step: "run_state (sqlite_dump tt p staged) w = run_state (do {
       (case x of None \<Rightarrow> ret () | Some out \<Rightarrow> modify (written staged out));
       if s then ret True else do { fs_remove staged; ret False } }) (w\<lparr>w_env := e\<rparr>)"
    by (simp add: sqlite_dump_def db_files_def env_op_def d vac)
  have s: s
    using run \<open>ok\<close> unfolding step by (cases s; cases x) (simp_all split: prod.splits)
  then obtain out where out: "x = Some out"
    using assms vac unfolding vacuum_writes_def by (metis (full_types) fst_conv option.exhaust)
  have "dump_of tt D out"
    unfolding dump_of_def by (rule exI [of _ d], rule exI [of _ ?wal], rule exI [of _ "w_env w"])
      (use live d vac s out in \<open>simp add: live_in_def\<close>)
  moreover have "data_at v staged = Some out"
    using run unfolding step out by (auto simp: s)
  ultimately show "staged_in tt D staged v"
    by (simp add: staged_in_def)
qed

subsection \<open>A cycle ships dumps only\<close>

context object_store
begin

lemma delete_snapshots: "calm abort \<Longrightarrow> preserves (on_bucket bk (snapshots tt D cfg)) (st_delete st key abort)"
  by (rule preservesI, frule (1) delete_law) (auto simp: snapshots_delete)

lemma prune_snapshots: "calm abort \<Longrightarrow> preserves (on_bucket bk (snapshots tt D cfg)) (prune st cfg ev abort)"
  by (induction ev) (auto intro!: delete_snapshots)

lemma store_generations_snapshots:
  "calm abort \<Longrightarrow> preserves (on_bucket bk (snapshots tt D cfg)) (store_generations st cfg es abort)"
  by (rule preservesI, frule (1) store_generations_law) (auto simp: snapshots_manifest)

lemma publish_dump_snapshots:
  assumes "calm abort"
  shows "preserves (on_bucket bk (snapshots tt D cfg)) (publish_dump st cfg abort es staged e)"
  unfolding publish_dump_def
  by (intro preserves_rules store_generations_snapshots lineage_write_bucket retain_dump_bucket prune_snapshots
    remove_bucket delete_snapshots assms)

lemma push_dump_snapshots:
  assumes calm: "calm abort"
  shows "hoare (\<lambda>w. snapshots tt D cfg (bucket bk w) \<and> staged_in tt D staged w)
    (push_dump st cfg abort es staged e) (\<lambda>_. on_bucket bk (snapshots tt D cfg))"
proof -
  have "hoare (\<lambda>w. snapshots tt D cfg (bucket bk w) \<and> staged_in tt D staged w)
      (st_put st (backup_prefix cfg @ gn_name e) staged abort) (\<lambda>_. on_bucket bk (snapshots tt D cfg))"
    by (rule hoareI, frule put_law [OF calm]) (auto simp: staged_in_def snapshots_upload)
  then show ?thesis
    unfolding push_dump_def
    by (rule hoare_bind) (intro hoare_sum hoare_keep [OF remove_bucket] hoare_return
      hoare_lift [OF publish_dump_snapshots [OF calm]])
qed

lemma take_dump_snapshots:
  assumes calm: "calm abort" and q: "quiet_tools bk tt" "vacuum_writes tt"
    and apart: "bc_db_path cfg \<notin> below (bc_staging cfg)" "bc_db_path cfg @ ''-wal'' \<notin> below (bc_staging cfg)"
  shows "hoare (\<lambda>w. snapshots tt D cfg (bucket bk w) \<and> live_in D (bc_db_path cfg) w)
    (take_dump tt st cfg abort es known ts g) (\<lambda>_. on_bucket bk (snapshots tt D cfg))"
proof -
  let ?staged = "staged_path cfg ts"
  let ?S = "\<lambda>w. snapshots tt D cfg (bucket bk w) \<and> staged_in tt D ?staged w"
  have drop: "hoare (\<lambda>w. snapshots tt D cfg (bucket bk w) \<and> P w) (do { fs_remove ?staged; ret () })
      (\<lambda>_. on_bucket bk (snapshots tt D cfg))" for P
    by (rule hoare_pre [where P' = "on_bucket bk (snapshots tt D cfg)"])
      (intro hoare_keep [OF remove_bucket] hoare_return, simp_all)
  have ship: "hoare ?S (ship_dump st cfg abort es known ?staged (object_name cfg ts) g)
      (\<lambda>_. on_bucket bk (snapshots tt D cfg))"
    unfolding ship_dump_def
    by (intro hoare_keep [OF preserves_conj] hoare_sum hoare_if drop push_dump_snapshots calm
        local_lineage_write(2) [THEN local_bucket] staged_in_make_private local_op_len [THEN local_bucket]
        staged_in_read local_op_len is_repeat_bucket staged_in_repeat)
  have dump: "hoare (\<lambda>w. snapshots tt D cfg (bucket bk w) \<and> live_in D (bc_db_path cfg) w)
      (sqlite_dump tt (bc_db_path cfg) ?staged)
      (\<lambda>ok w. snapshots tt D cfg (bucket bk w) \<and> (ok \<longrightarrow> staged_in tt D ?staged w))"
    by (rule hoare_both [OF sqlite_dump_bucket [OF q(1), where P = "snapshots tt D cfg"] sqlite_dump_staged [OF q(2)]]) auto
  have next_step: "hoare (\<lambda>w. snapshots tt D cfg (bucket bk w) \<and> (ok \<longrightarrow> staged_in tt D ?staged w))
      (if \<not> ok then ret () else ship_dump st cfg abort es known ?staged (object_name cfg ts) g)
      (\<lambda>_. on_bucket bk (snapshots tt D cfg))" for ok
    by (cases ok) (use ship in \<open>auto intro: hoare_return\<close>)
  show ?thesis
    unfolding take_dump_def
    by (rule hoare_keep [OF preserves_conj [OF sweep_staging_bucket live_in_framed [OF framed_sweep_staging apart]]])
      (auto intro: hoare_return hoare_bind [OF dump next_step])
qed

lemma bucket_history_fs: "calm abort \<Longrightarrow> preserves (on_fs P) (bucket_history st cfg abort)"
  unfolding bucket_history_def load_generations_def list_objects_def
  by (intro preserves_rules get_text_preserves_fs list_preserves_fs)

lemma tick_with_snapshots:
  assumes calm: "calm abort" and q: "quiet_tools bk tt" "vacuum_writes tt"
    and apart: "bc_db_path cfg \<notin> below (bc_staging cfg)" "bc_db_path cfg @ ''-wal'' \<notin> below (bc_staging cfg)"
  shows "hoare (\<lambda>w. snapshots tt D cfg (bucket bk w) \<and> live_in D (bc_db_path cfg) w)
    (tick_with tt st cfg abort) (\<lambda>_. on_bucket bk (snapshots tt D cfg))"
    (is "hoare ?P _ _")
proof -
  have read: "framed {} (lineage_read (bc_db_path cfg))"
    unfolding lineage_read_def by (intro framed_rules local_op_framed [OF local_op_read_to_string])
  have stamp: "framed {} (timestamp tt)"
    unfolding timestamp_def by (intro framed_rules)
  have hist: "preserves (live_in D (bc_db_path cfg)) (bucket_history st cfg abort)"
    unfolding live_in_fs by (rule bucket_history_fs [OF calm])
  have rest: "hoare ?P (do {
         recorded \<leftarrow> lineage_read (bc_db_path cfg);
         if verdict (resolve_known recorded es) (latest es) = Refuse then ret ()
         else do {
           ts \<leftarrow> timestamp tt;
           case next_generation es of None \<Rightarrow> ret ()
           | Some g \<Rightarrow> take_dump tt st cfg abort es (resolve_known recorded es) ts g } })
      (\<lambda>_. on_bucket bk (snapshots tt D cfg))" for es
    by (intro hoare_keep [OF preserves_conj [OF lineage_read_bucket live_in_framed [OF read]]]
        hoare_keep [OF preserves_conj [OF timestamp_bucket [OF q(1)] live_in_framed [OF stamp]]] hoare_if)
      (auto intro!: hoare_return take_dump_snapshots calm q apart split: option.split)
  show ?thesis
    unfolding tick_with_def
    by (rule hoare_keep [OF preserves_conj [OF bucket_history_bucket [OF calm] hist]])
      (auto intro!: hoare_return rest split: option.split)
qed

end

lemma tick_snapshots:
  assumes "served (tl_deps tt) (bc_sync cfg) bk up after" "quiet bk abort" "quiet up abort" "quiet_tools bk tt"
    and "vacuum_writes tt" "bc_db_path cfg \<notin> below (bc_staging cfg)" "bc_db_path cfg @ ''-wal'' \<notin> below (bc_staging cfg)"
  shows "hoare (\<lambda>w. snapshots tt D cfg (bucket bk w) \<and> live_in D (bc_db_path cfg) w) (tick tt cfg abort)
    (\<lambda>_. on_bucket bk (snapshots tt D cfg))"
proof (rule tick_lift [OF assms(1-4)])
  let ?P = "\<lambda>w. snapshots tt D cfg (bucket bk w) \<and> live_in D (bc_db_path cfg) w"
  show "preserves ?P (env_op f :: ('a world, bool) state)" if "quiet bk f" for f
    unfolding live_in_fs by (intro preserves_conj env_op_quiet [OF that] run_env_op_fs)
  show "preserves ?P (is_empty tt (bc_db_path cfg))"
    unfolding live_in_fs by (intro preserves_conj is_empty_bucket [OF assms(4)] is_empty_fs)
  show "hoare ?P (tick_with tt (client_store (tl_deps tt) cl) cfg abort) (\<lambda>_. on_bucket bk (snapshots tt D cfg))"
    if "object_store (client_store (tl_deps tt) cl) bk (s3_service.calm bk up)" "s3_service.calm bk up abort" for cl
    by (rule object_store.tick_with_snapshots [OF that assms(4-7)])
qed simp

subsection \<open>What a restore can bring back\<close>

lemma restorable_accepted: "restorable tt cfg b d \<Longrightarrow> accepts_dump tt d"
  by (auto simp: restorable_def first_usable_def)

lemma cycle_end_names:
  assumes "cycle_end cfg b" "b (backup_manifest_key cfg) = Some text" "generations_parse text = Inr es" "x \<in> set es"
  shows "gn_name x \<noteq> ''manifest''"
  using assms by (auto simp: cycle_end_def sound_bucket_def newest_dangling_def names_live_def backup_manifest_key_def)

lemma candidate_names:
  assumes "cycle_end cfg b" "candidates_of cfg b cs" "c \<in> set cs"
  shows "\<exists>name. cd_key c = backup_prefix cfg @ name \<and> name \<noteq> ''manifest''"
  using assms(2) unfolding candidates_of_def
proof (elim disjE exE conjE)
  fix m es
  assume mf: "b (backup_manifest_key cfg) = Some m" "generations_parse m = Inr es" "cs = manifest_candidates cfg es"
  then obtain x where "x \<in> set es" "cd_key c = backup_prefix cfg @ gn_name x"
    using assms(3) by (auto simp: manifest_candidates_def newest_first_def)
  with cycle_end_names [OF assms(1) mf(1,2)] show ?thesis
    by blast
next
  fix names
  assume n: "map cd_key cs = map ((@) (backup_prefix cfg)) names" "list_all is_dump_name names"
  have "cd_key c \<in> set (map cd_key cs)"
    using assms(3) by simp
  then obtain name where "name \<in> set names" "cd_key c = backup_prefix cfg @ name"
    unfolding n(1) by auto
  with n(2) dump_name_manifest show ?thesis
    by (auto simp: list_all_iff)
qed

lemma restorable_snapshot:
  assumes "cycle_end cfg b" "snapshots tt D cfg b" "restorable tt cfg b d"
  shows "dump_of tt D d"
proof -
  from assms(3) obtain cs us c vs where "candidates_of cfg b cs" "cs = us @ c # vs" "b (cd_key c) = Some d"
    by (auto simp: restorable_def first_usable_def)
  moreover from this obtain name where "cd_key c = backup_prefix cfg @ name" "name \<noteq> ''manifest''"
    using candidate_names [OF assms(1)] by (metis in_set_conv_decomp)
  ultimately show ?thesis
    using assms(2) unfolding snapshots_def by metis
qed

lemma reader_served: "serves_objects dp sc bk up after \<Longrightarrow> served dp sc bk up after"
  by (simp add: serves_objects_def served_def s3_reader.axioms)

end
