(* ===== verification/BackupGoes.thy ===== *)
theory BackupGoes
  imports Steady BackupRoundTrip
begin

text \<open>
  The backup cycle and the boot-time restore when nothing fails (\<open>steady_store\<close>): the cycle ships
  the dump of the live database and publishes the manifest that names it as the newest generation,
  and a boot on an empty volume brings the newest generation back, owner-only and with its lineage
  recorded beside it.
\<close>

subsection \<open>The manifest is text\<close>

lemma utf8_ok_append: "utf8_ok a \<Longrightarrow> utf8_ok c \<Longrightarrow> utf8_ok (a @ c)"
proof (induction a rule: length_induct)
  case (1 a)
  show ?case
  proof (cases a)
    case (Cons x s)
    have step: "utf8_ok (r @ c)" if "length r < length a" "utf8_ok r" for r
      using 1 that by blast
    from 1(2) have "utf8_ok (x # s)"
      by (simp only: Cons)
    then show ?thesis
    proof (cases rule: utf8_ok_cases)
      case 1
      then show ?thesis using step [of s] by (simp add: Cons)
    next
      case (2 b r)
      then have "\<not> byte_in 0 0x7F x"
        by (simp add: byte_in_def)
      with 2 show ?thesis using step [of r] by (simp add: Cons)
    next
      case (3 b d r)
      then have "\<not> byte_in 0 0x7F x" "\<not> byte_in 0xC2 0xDF x"
        by (simp_all add: byte_in_def)
      with 3 show ?thesis using step [of r] second_ok_3 [OF 3(1), of b "d # r"] by (simp add: Cons)
    next
      case (4 b d e r)
      then have "\<not> byte_in 0 0x7F x" "\<not> byte_in 0xC2 0xDF x" "\<not> byte_in 0xE0 0xEF x"
        by (simp_all add: byte_in_def)
      with 4 show ?thesis using step [of r] second_ok_4 [OF 4(1), of b "d # e # r"] by (simp add: Cons)
    qed
  qed (simp add: 1)
qed

lemma utf8_ok_digits: "list_all is_digit s \<Longrightarrow> utf8_ok s"
  by (induction s) (auto simp: is_digit_def byte_in_def less_eq_char_def)

lemma utf8_ok_word: "utf8_ok (show_word n)"
  by (rule utf8_ok_digits) (simp add: show_word_def show_nat_digits)

lemma generations_text: "\<forall>x \<in> set es. utf8_ok (gn_name x) \<Longrightarrow> utf8_ok (generations_render es)"
proof -
  assume es: "\<forall>x \<in> set es. utf8_ok (gn_name x)"
  have line: "utf8_ok (render_generation x)" if "utf8_ok (gn_name x)" for x
  proof -
    have sep: "utf8_ok (SP # s) = utf8_ok s" for s
      by (simp add: byte_in_def)
    have "utf8_ok (show_word (gn_size x) @ [NL])"
      by (rule utf8_ok_append [OF utf8_ok_word]) (simp add: byte_in_def)
    then have "utf8_ok (gn_name x @ SP # show_word (gn_size x) @ [NL])"
      using that by (intro utf8_ok_append) (simp_all only: sep)
    then show ?thesis
      unfolding render_generation_def by (intro utf8_ok_append utf8_ok_word) (simp only: sep)
  qed
  have "utf8_ok (concat (map render_generation es))"
    using es by (induction es) (simp_all add: utf8_ok_append line)
  then show ?thesis
    by (simp add: generations_render_def byte_in_def)
qed

subsection \<open>Local steps\<close>

lemma dir_children_none: "\<not> dir_in (bt_get (w_fs w)) d \<Longrightarrow> dir_children w d = []"
proof -
  assume d: "\<not> dir_in (bt_get (w_fs w)) d"
  have "child_of d (fst e) = None" if "e \<in> set (w_fs w)" for e
  proof (rule ccontr)
    assume "child_of d (fst e) \<noteq> None"
    then have "prefix (d @ ''/'') (fst e)"
      by (auto simp: child_of_def strip_prefix_def split: option.splits if_splits)
    moreover have "bt_get (w_fs w) (fst e) \<noteq> None"
      using that by (simp add: map_of_eq_None_iff)
    ultimately show False
      using d by (auto simp: dir_in_def)
  qed
  then show ?thesis
    by (simp add: dir_children_def List.map_filter_def filter_empty_conv)
qed

lemma sweep_goes:
  assumes "\<not> dir_in F d"
  shows "leads (steady G bk t b F) (sweep_staging d) True (steady G bk t b F)"
proof -
  have made: "leads (steady G bk t b F) (fs_read_made_dir d) (Inr []) (steady G bk t b F)"
    unfolding leads_def
    by (rule hoareI) (use assms dir_children_none in \<open>auto simp: fs_read_made_dir_def steady_def next_fault_def\<close>)
  show ?thesis
    unfolding sweep_staging_def
    by (rule leads_bind [OF leads_dir_op], simp only: sum.case, rule leads_bind [OF leads_dir_op],
        simp only: sum.case, rule leads_bind [OF made]) (simp add: leads_return)
qed

lemma db_files_goes: "F p = Some x \<Longrightarrow> leads (steady G bk t b F) (db_files p)
    (Some (f_data x, map_option f_data (F (p @ ''-wal'')))) (steady G bk t b F)"
  unfolding db_files_def by (rule leads_gets) (auto simp: steady_def data_at_def)

lemma is_empty_absent: "F p = None \<Longrightarrow> \<not> dir_in F p \<Longrightarrow>
    leads (steady G bk t b F) (is_empty tt p) (Inr True) (steady G bk t b F)"
  unfolding is_empty_def by (rule leads_bind [OF leads_exists]) (simp add: leads_return)

lemma is_empty_counted:
  assumes "F p = Some x" "settled G bk (tl_count tt (f_data x) (map_option f_data (F (p @ ''-wal'')))) (Some n)"
  shows "leads (steady G bk t b F) (is_empty tt p) (Inr (n = 0)) (steady G bk t b F)"
  unfolding is_empty_def
  by (rule leads_bind [OF leads_exists], simp add: assms(1), rule leads_bind [OF db_files_goes [where F = F and p = p, OF assms(1)]],
      simp, rule leads_bind [OF leads_env [OF assms(2)]]) (simp add: leads_return)

lemma downloaded_private: "(downloaded t d)\<lparr>f_private := True\<rparr> = downloaded t d"
  by (simp add: downloaded_def)

lemma lineage_write_goes: "leads (steady G bk t b F) (lineage_write p g) ()
    (steady G bk t b (F(sidecar_path p \<mapsto> downloaded t (show_word g @ [NL]))))"
proof -
  let ?q = "sidecar_path p"
  let ?y = "\<lparr>f_data = show_word g @ [NL], f_private = (case F ?q of None \<Rightarrow> False | Some x \<Rightarrow> f_private x), f_mtime = t, f_ctime = t\<rparr>"
  have "leads (steady G bk t b (F(?q \<mapsto> ?y))) (make_private ?q) (Inr ())
      (steady G bk t b (F(?q \<mapsto> downloaded t (show_word g @ [NL]))))"
    by (rule leads_fits [OF leads_make_private [where F = "F(?q \<mapsto> ?y)" and p = ?q and y = ?y]])
      (simp_all add: downloaded_def)
  then show ?thesis
    unfolding lineage_write_def lineage_write_text_def
    by (intro leads_bind [OF leads_write]) (simp add: leads_bind leads_return)
qed

subsection \<open>The restore on an empty volume\<close>

text \<open>The database, its neighbours and the staging directory are different places.\<close>

definition places_apart :: "backup_config \<Rightarrow> bool" where
  "places_apart cfg \<longleftrightarrow> bc_db_path cfg \<notin> below (bc_staging cfg) \<and> bc_db_path cfg \<noteq> sidecar_path (bc_db_path cfg) \<and>
     sidecar_path (bc_db_path cfg) \<notin> below (bc_staging cfg) \<and> restore_staged cfg \<notin> below (bc_db_path cfg) \<and>
     last_path (bc_db_path cfg) \<notin> below (bc_staging cfg)"

definition restored_disk :: "backup_config \<Rightarrow> nat \<Rightarrow> string \<Rightarrow> u64 \<Rightarrow> (string \<Rightarrow> inode option) \<Rightarrow> string \<Rightarrow> inode option" where
  "restored_disk cfg t d g F = F(restore_part cfg := None, restore_staged cfg := None, bc_db_path cfg \<mapsto> downloaded t d,
     bc_db_path cfg @ ''-wal'' := None, bc_db_path cfg @ ''-shm'' := None,
     sidecar_path (bc_db_path cfg) \<mapsto> downloaded t (show_word g @ [NL]))"

lemma dir_in_upd: "q \<notin> below p \<Longrightarrow> dir_in (F(q := x)) p \<longleftrightarrow> dir_in F p"
  unfolding dir_in_def below_def by auto

lemma staged_in_staging: "restore_staged cfg \<in> below (bc_staging cfg)" "restore_part cfg \<in> below (bc_staging cfg)"
  by (simp_all add: below_def restore_staged_def part_of_def)

lemma part_not_below: "restore_staged cfg \<notin> below p \<Longrightarrow> F (restore_part cfg) = None \<Longrightarrow> dir_in (F(restore_part cfg := None)) p = dir_in F p"
  by (simp add: fun_upd_idem)

lemma import_goes:
  assumes ok: "settled G bk (tl_integrity tt d) ''ok''" and s: "F s = Some (downloaded t d)"
    and p: "F p = None" "\<not> dir_in F p" "p \<noteq> s"
  shows "leads (steady G bk t b F) (sqlite_import tt s p) (Inr ())
    (steady G bk t b (F(p \<mapsto> downloaded t d, s := None, p @ ''-wal'' := None, p @ ''-shm'' := None)))"
proof -
  let ?S = "steady G bk t b"
  have int: "leads (?S F) (integrity tt s) ''ok'' (?S F)"
    unfolding integrity_def
    by (rule leads_bind [OF leads_gets [where r = "Some d"]])
      (auto simp: steady_def data_at_def s downloaded_def intro: leads_env ok)
  have priv: "leads (?S F) (make_private s) (Inr ()) (?S F)"
    by (rule leads_fits [OF leads_make_private [where F = F and p = s, OF s]])
      (simp_all add: downloaded_private fun_upd_idem s)
  have clear: "leads (?S F) (clear_live tt p) (Inr ()) (?S F)"
    unfolding clear_live_def by (rule leads_bind [OF leads_exists]) (simp add: p leads_return)
  have pub: "leads (?S F) (publish_db s p) (Inr ())
      (?S (F(p \<mapsto> downloaded t d, s := None, p @ ''-wal'' := None, p @ ''-shm'' := None)))"
    unfolding publish_db_def
    by (rule leads_bind [OF leads_hard_link [where F = F and a = s and c = p, OF s p(1,2)]], simp only: sum.case,
        rule leads_bind [OF leads_remove], rule leads_bind [OF leads_remove], rule leads_bind [OF leads_remove])
      (simp add: leads_return)
  show ?thesis
    unfolding sqlite_import_def
    by (rule leads_bind [OF int], simp, rule leads_bind [OF priv], simp only: sum.case, rule leads_bind [OF clear],
        simp only: sum.case pub)
qed

context steady_store
begin

lemma restore_object_goes:
  assumes apart: "places_apart cfg" and ab: "settled G bk abort False"
    and ok: "settled G bk (tl_integrity tt d) ''ok''"
    and F: "\<not> dir_in F (bc_staging cfg)" "F (bc_db_path cfg) = None" "\<not> dir_in F (bc_db_path cfg)"
    and obj: "b (cd_key c) = Some d" "unat (cd_size c) = length d" "length d \<le> MAX_DB_OBJECT_BYTES"
    and g: "cd_generation c = Some g"
  shows "leads (steady G bk t b F) (restore_object tt st cfg abort c) Imported (steady G bk t b (restored_disk cfg t d g F))"
proof -
  let ?S = "steady G bk t b" and ?p = "bc_db_path cfg" and ?s = "restore_staged cfg" and ?part = "restore_part cfg"
  let ?F1 = "F(?part := None, ?s \<mapsto> downloaded t d)"
  let ?F2 = "?F1(?p \<mapsto> downloaded t d, ?s := None, ?p @ ''-wal'' := None, ?p @ ''-shm'' := None)"
  have ps: "?p \<noteq> ?s" "?p \<noteq> ?part"
    using apart staged_in_staging [of cfg] by (auto simp: places_apart_def)
  have part: "F ?part = None"
    using F(1) staged_in_staging(2) [of cfg] by (auto simp: dir_in_def below_def)
  have get: "leads (?S F) (st_get st (cd_key c) ?s (restore_expect c) abort) (Inr ()) (?S ?F1)"
    by (rule get_goes [where b = b and d = d, OF ab]) (simp_all add: restore_expect_def obj part)
  have dir: "\<not> dir_in ?F1 ?p"
    using F(3) apart part by (simp add: dir_in_upd places_apart_def fun_upd_idem)
  have imp: "leads (?S ?F1) (sqlite_import tt ?s ?p) (Inr ()) (?S ?F2)"
    by (rule import_goes [OF ok _ _ dir ps(1)]) (simp_all add: F(2) ps)
  have disk: "?F2(?s := None, sidecar_path ?p \<mapsto> downloaded t (show_word g @ [NL])) = restored_disk cfg t d g F"
    unfolding restored_disk_def fun_eq_iff using ps by auto
  have rec: "leads (?S (?F2(?s := None))) (record_lineage cfg c) () (?S (restored_disk cfg t d g F))"
    unfolding record_lineage_def g option.case disk [symmetric] by (rule lineage_write_goes)
  show ?thesis
    unfolding restore_object_def
    by (rule leads_bind [OF sweep_goes [OF F(1)]], simp, rule leads_bind [OF get], simp only: sum.case,
        rule leads_bind [OF imp], rule leads_bind [OF leads_remove], simp only: sum.case, rule leads_bind [OF rec])
      (simp add: leads_return)
qed

lemma load_generations_goes:
  assumes ab: "settled G bk abort False"
    and m: "b (backup_manifest_key cfg) = map_option generations_render es" "\<And>x. es = Some x \<Longrightarrow> generations_ok x \<and>
      length (generations_render x) \<le> MAX_BACKUP_MANIFEST_BYTES \<and> utf8_ok (generations_render x)"
  shows "leads (steady G bk t b F) (load_generations st cfg abort) (Inr es) (steady G bk t b F)"
proof -
  have "leads (steady G bk t b F) (st_get_text st (backup_manifest_key cfg) MAX_BACKUP_MANIFEST_BYTES abort)
      (Inr (map_option generations_render es)) (steady G bk t b F)"
    unfolding m(1) [symmetric] by (rule get_text_goes [OF ab]) (use m in auto)
  moreover have "read_generations (Inr (map_option generations_render es)) = Inr es"
    using m(2) by (cases es) (simp_all add: read_generations_def generations_round_trip)
  ultimately show ?thesis
    unfolding load_generations_def by (auto intro: leads_bind)
qed

lemma restore_from_goes:
  assumes apart: "places_apart cfg" and ab: "settled G bk abort False"
    and ok: "settled G bk (tl_integrity tt d) ''ok''"
    and F: "\<not> dir_in F (bc_staging cfg)" "F (bc_db_path cfg) = None" "\<not> dir_in F (bc_db_path cfg)"
    and m: "b (backup_manifest_key cfg) = Some (generations_render (es @ [x]))" "generations_ok (es @ [x])"
      "length (generations_render (es @ [x])) \<le> MAX_BACKUP_MANIFEST_BYTES" "utf8_ok (generations_render (es @ [x]))"
    and obj: "b (backup_prefix cfg @ gn_name x) = Some d" "unat (gn_size x) = length d" "length d \<le> MAX_DB_OBJECT_BYTES"
  shows "leads (steady G bk t b F) (restore_from tt st cfg abort) Ready (steady G bk t b (restored_disk cfg t d (gn_generation x) F))"
proof -
  have "leads (steady G bk t b F) (backup_candidates st cfg abort) (Inr (manifest_candidates cfg (es @ [x]))) (steady G bk t b F)"
    unfolding backup_candidates_def
    by (rule leads_bind [OF load_generations_goes [OF ab, where es = "Some (es @ [x])"]]) (use m in \<open>auto simp: leads_return\<close>)
  then show ?thesis
    unfolding restore_from_def
  proof (rule leads_bind)
    let ?c = "\<lparr>cd_key = backup_prefix cfg @ gn_name x, cd_size = gn_size x, cd_generation = Some (gn_generation x)\<rparr>"
    have cs: "manifest_candidates cfg (es @ [x]) = ?c # manifest_candidates cfg es"
      by (simp add: manifest_candidates_def newest_first_def)
    have "leads (steady G bk t b F) (restore_object tt st cfg abort ?c) Imported
        (steady G bk t b (restored_disk cfg t d (gn_generation x) F))"
      by (rule restore_object_goes [OF apart ab ok F]) (simp_all add: obj)
    then have "leads (steady G bk t b F) (restore_first tt st cfg abort (?c # manifest_candidates cfg es)) Ready
        (steady G bk t b (restored_disk cfg t d (gn_generation x) F))"
      unfolding restore_first.simps
      by (intro leads_bind [OF leads_env [OF ab]]) (auto intro!: leads_bind)
    then show "leads (steady G bk t b F) (case Inr (manifest_candidates cfg (es @ [x])) of
       Inl _ \<Rightarrow> do { stop \<leftarrow> env_op abort; ret (if stop then RestoreAborted else RestoreFailed) }
     | Inr cs \<Rightarrow> if cs = [] then ret Ready else restore_first tt st cfg abort cs) Ready
      (steady G bk t b (restored_disk cfg t d (gn_generation x) F))"
      by (simp only: sum.case cs list.distinct if_False)
  qed
qed

end

subsection \<open>The cycle\<close>

text \<open>The keys of the evicted dumps are removed, one after the other.\<close>

definition pruned :: "backup_config \<Rightarrow> generations \<Rightarrow> (string \<Rightarrow> string option) \<Rightarrow> string \<Rightarrow> string option" where
  "pruned cfg ev b = foldl (\<lambda>b e. b(backup_prefix cfg @ gn_name e := None)) b ev"

lemma pruned_other: "(\<And>e. e \<in> set ev \<Longrightarrow> k \<noteq> backup_prefix cfg @ gn_name e) \<Longrightarrow> pruned cfg ev b k = b k"
  by (induction ev arbitrary: b) (simp_all add: pruned_def)

text \<open>The bucket after the dump \<open>d\<close> was published as the generation \<open>e\<close> on top of \<open>es\<close>.\<close>

definition published_bucket :: "backup_config \<Rightarrow> generations \<Rightarrow> generation \<Rightarrow> string \<Rightarrow> (string \<Rightarrow> string option) \<Rightarrow> string \<Rightarrow> string option" where
  "published_bucket cfg es e d b = (case retain (bc_keep cfg) (push_generation e es) of (ks, ev) \<Rightarrow>
     pruned cfg ev (b(backup_prefix cfg @ gn_name e \<mapsto> d, backup_manifest_key cfg \<mapsto> generations_render ks)))"

definition shipped_disk :: "backup_config \<Rightarrow> nat \<Rightarrow> string \<Rightarrow> generation \<Rightarrow> string \<Rightarrow> (string \<Rightarrow> inode option) \<Rightarrow> string \<Rightarrow> inode option" where
  "shipped_disk cfg t staged e d F = F(sidecar_path (bc_db_path cfg) \<mapsto> downloaded t (show_word (gn_generation e) @ [NL]),
     staged := None, last_path (bc_db_path cfg) \<mapsto> downloaded t d)"

lemma retain_dump_goes:
  assumes "F staged = Some (downloaded t d)"
  shows "leads (steady G bk t b F) (retain_dump staged p) () (steady G bk t b (F(staged := None, last_path p \<mapsto> downloaded t d)))"
proof -
  let ?F = "F(staged := None, last_path p \<mapsto> downloaded t d)"
  have "leads (steady G bk t b ?F) (make_private (last_path p)) (Inr ()) (steady G bk t b ?F)"
    by (rule leads_fits [OF leads_make_private [where F = ?F and p = "last_path p" and y = "downloaded t d"]])
      (simp_all add: downloaded_private)
  then show ?thesis
    unfolding retain_dump_def
    by (intro leads_bind [OF leads_rename [where F = F and a = staged, OF assms]]) (auto intro: leads_bind)
qed

context steady_store
begin

lemma prune_goes: "settled G bk abort False \<Longrightarrow>
    leads (steady G bk t b F) (prune st cfg ev abort) () (steady G bk t (pruned cfg ev b) F)"
proof (induction ev arbitrary: b)
  case (Cons e ev)
  then have "leads (steady G bk t (b(backup_prefix cfg @ gn_name e := None)) F) (prune st cfg ev abort) ()
      (steady G bk t (pruned cfg (e # ev) b) F)"
    by (simp add: pruned_def)
  then show ?case
    unfolding prune.simps by (rule leads_bind [OF delete_goes [OF Cons.prems]])
qed (simp add: pruned_def leads_return)

lemma push_dump_goes:
  assumes ab: "settled G bk abort False" and F: "F staged = Some (downloaded t d)" "staged \<noteq> sidecar_path (bc_db_path cfg)"
    and d: "length d < MULTIPART_THRESHOLD"
    and ks: "length (generations_render (fst (retain (bc_keep cfg) (push_generation e es)))) \<le> MAX_BACKUP_MANIFEST_BYTES"
  shows "leads (steady G bk t b F) (push_dump st cfg abort es staged e) ()
    (steady G bk t (published_bucket cfg es e d b) (shipped_disk cfg t staged e d F))"
proof (cases "retain (bc_keep cfg) (push_generation e es)")
  case (Pair ks ev)
  let ?S = "steady G bk t" and ?p = "bc_db_path cfg"
  let ?b1 = "b(backup_prefix cfg @ gn_name e \<mapsto> d)"
  let ?b2 = "?b1(backup_manifest_key cfg \<mapsto> generations_render ks)"
  let ?F1 = "F(sidecar_path ?p \<mapsto> downloaded t (show_word (gn_generation e) @ [NL]))"
  have put: "leads (?S b F) (st_put st (backup_prefix cfg @ gn_name e) staged abort) (Inr ()) (?S ?b1 F)"
    by (rule leads_fits [OF put_goes [where F = F and path = staged, OF ab F(1)]]) (simp_all add: downloaded_def d)
  have store: "leads (?S ?b1 F) (store_generations st cfg ks abort) (Inr ()) (?S ?b2 F)"
    unfolding store_generations_def using ks Pair by (auto intro!: leads_bind [OF put_bytes_goes [OF ab]])
  have keep: "leads (?S ?b2 ?F1) (retain_dump staged ?p) () (?S ?b2 (shipped_disk cfg t staged e d F))"
    unfolding shipped_disk_def by (rule retain_dump_goes) (use F in simp)
  have prune: "leads (?S ?b2 (shipped_disk cfg t staged e d F)) (prune st cfg ev abort) ()
      (?S (published_bucket cfg es e d b) (shipped_disk cfg t staged e d F))"
    unfolding published_bucket_def Pair prod.case by (rule prune_goes [OF ab])
  show ?thesis
    unfolding push_dump_def publish_dump_def Pair prod.case
    by (rule leads_bind [OF put], simp only: sum.case, rule leads_bind [OF store], simp only: sum.case,
        rule leads_bind [OF lineage_write_goes], rule leads_bind [OF keep], rule prune)
qed

lemma ship_dump_goes:
  assumes apart: "places_apart cfg" and ab: "settled G bk abort False" and F: "F staged = None" "staged \<in> below (bc_staging cfg)"
    and d: "length d < MULTIPART_THRESHOLD" and e: "e = \<lparr>gn_generation = g, gn_name = name, gn_size = of_nat (length d)\<rparr>"
    and new: "es = [] \<or> (\<forall>y. F (last_path (bc_db_path cfg)) = Some y \<longrightarrow> f_data y \<noteq> d)"
    and ks: "length (generations_render (fst (retain (bc_keep cfg) (push_generation e es)))) \<le> MAX_BACKUP_MANIFEST_BYTES"
  shows "leads (steady G bk t b (F(staged \<mapsto> \<lparr>f_data = d, f_private = False, f_mtime = t, f_ctime = t\<rparr>)))
    (ship_dump st cfg abort es known staged name g) ()
    (steady G bk t (published_bucket cfg es e d b) (shipped_disk cfg t staged e d (F(staged \<mapsto> downloaded t d))))"
proof -
  let ?S = "steady G bk t b" and ?last = "last_path (bc_db_path cfg)"
  let ?y = "\<lparr>f_data = d, f_private = False, f_mtime = t, f_ctime = t\<rparr>"
  let ?F = "F(staged \<mapsto> downloaded t d)"
  let ?same = "F ?last \<noteq> None \<and> map_option f_data (F ?last) = Some d"
  have ne: "?last \<noteq> staged" "staged \<noteq> sidecar_path (bc_db_path cfg)"
    using apart F(2) by (auto simp: places_apart_def)
  have priv: "leads (?S (F(staged \<mapsto> ?y))) (make_private staged) (Inr ()) (?S ?F)"
    by (rule leads_fits [OF leads_make_private [where F = "F(staged \<mapsto> ?y)" and p = staged and y = ?y]])
      (simp_all add: downloaded_def)
  have len: "leads (?S ?F) (fs_len staged) (Inr (length d)) (?S ?F)"
    by (rule leads_fits [OF leads_len [where F = ?F and p = staged and x = "downloaded t d"]]) (simp_all add: downloaded_def)
  have read: "leads (?S ?F) (fs_read staged) (Inr d) (?S ?F)"
    by (rule leads_fits [OF leads_read_there [where F = ?F and p = staged and x = "downloaded t d"]]) (simp_all add: downloaded_def)
  have rep: "leads (?S ?F) (is_repeat staged (bc_db_path cfg)) ?same (?S ?F)"
    unfolding is_repeat_def same_bytes_def
    by (rule leads_bind, rule leads_bind [OF read], simp only: sum.case, rule leads_bind [OF leads_read], rule leads_return [OF refl])
      (auto simp: ne leads_return split: option.split)
  have go: "\<not> upload_is_redundant known (latest es) ?same"
    using new by (auto simp: upload_is_redundant_def latest_def)
  have push: "leads (?S ?F) (push_dump st cfg abort es staged e) ()
      (steady G bk t (published_bucket cfg es e d b) (shipped_disk cfg t staged e d ?F))"
    by (rule push_dump_goes [OF ab _ ne(2) d ks]) simp
  show ?thesis
    unfolding ship_dump_def
    by (rule leads_bind [OF priv], simp only: sum.case, rule leads_bind [OF len], rule leads_bind [OF rep])
      (simp only: go if_False sum.case push e [symmetric])
qed

end

text \<open>What the lineage sidecar tells a cycle.\<close>

definition recorded_at :: "(string \<Rightarrow> inode option) \<Rightarrow> string \<Rightarrow> known option" where
  "recorded_at F p = (case F (sidecar_path p) of None \<Rightarrow> None
     | Some y \<Rightarrow> if utf8_ok (f_data y) then parse_sidecar (f_data y) else None)"

lemma lineage_read_goes: "leads (steady G bk t b F) (lineage_read p) (recorded_at F p) (steady G bk t b F)"
proof -
  let ?x = "case F (sidecar_path p) of None \<Rightarrow> Inl NotFound | Some y \<Rightarrow> if utf8_ok (f_data y) then Inr (f_data y) else Inl OtherIo"
  have "leads (steady G bk t b F) (fs_read_to_string (sidecar_path p)) ?x (steady G bk t b F)"
    unfolding fs_read_to_string_def by (rule leads_bind [OF leads_read]) (auto simp: leads_return split: option.split)
  then show ?thesis
    unfolding lineage_read_def by (rule leads_bind) (auto simp: recorded_at_def split: option.split)
qed

text \<open>
  A cycle that has everything it needs: a database that holds tables, tools that answer (the dump is
  \<open>d\<close>), a bucket that is empty below the prefix or whose manifest is \<open>es\<close>, a recorded lineage that owns
  it, and a dump that differs from the last one shipped. It publishes the generation \<open>e\<close>.
\<close>

definition history_in :: "backup_config \<Rightarrow> generations \<Rightarrow> (string \<Rightarrow> string option) \<Rightarrow> bool" where
  "history_in cfg es b \<longleftrightarrow>
     b (backup_manifest_key cfg) = Some (generations_render es) \<and> generations_ok es \<and>
       length (generations_render es) \<le> MAX_BACKUP_MANIFEST_BYTES \<and> (\<forall>x \<in> set es. utf8_ok (gn_name x)) \<or>
     es = [] \<and> (\<forall>name. b (backup_prefix cfg @ name) = None)"

definition dumps_to :: "('e \<Rightarrow> bool) \<Rightarrow> ('e \<Rightarrow> string \<Rightarrow> string option) \<Rightarrow> 'e tools \<Rightarrow> inode \<Rightarrow> string option \<Rightarrow> string \<Rightarrow> string \<Rightarrow> bool" where
  "dumps_to G bk tt x wal d ts \<longleftrightarrow> (\<exists>n r s. n \<noteq> 0 \<and> settled G bk (tl_count tt (f_data x) wal) (Some n) \<and>
     settled G bk (tl_vacuum tt (f_data x) wal) (True, Some d) \<and> settled G bk (tl_random tt) (Some r) \<and>
     settled G bk (tl_stamp tt) s \<and> ts = s @ ''-'' @ hex r)"

definition cycle_ready :: "('e \<Rightarrow> bool) \<Rightarrow> ('e \<Rightarrow> string \<Rightarrow> string option) \<Rightarrow> 'e tools \<Rightarrow> backup_config \<Rightarrow> (string \<Rightarrow> string option) \<Rightarrow>
    (string \<Rightarrow> inode option) \<Rightarrow> generations \<Rightarrow> generation \<Rightarrow> string \<Rightarrow> string \<Rightarrow> bool" where
  "cycle_ready G bk tt cfg b F es e d ts \<longleftrightarrow>
     (\<exists>x. F (bc_db_path cfg) = Some x \<and> dumps_to G bk tt x (map_option f_data (F (bc_db_path cfg @ ''-wal''))) d ts) \<and>
     next_generation es = Some (gn_generation e) \<and> gn_name e = object_name cfg ts \<and> gn_size e = of_nat (length d) \<and>
     length d < MULTIPART_THRESHOLD \<and> \<not> dir_in F (bc_staging cfg) \<and> history_in cfg es b \<and>
     verdict (resolve_known (recorded_at F (bc_db_path cfg)) es) (latest es) = Proceed \<and>
     (es = [] \<or> (\<forall>y. F (last_path (bc_db_path cfg)) = Some y \<longrightarrow> f_data y \<noteq> d)) \<and>
     length (generations_render (fst (retain (bc_keep cfg) (push_generation e es)))) \<le> MAX_BACKUP_MANIFEST_BYTES"

context steady_store
begin

lemma bucket_history_goes:
  assumes ab: "settled G bk abort False" and h: "history_in cfg es b"
  shows "leads (steady G bk t b F) (bucket_history st cfg abort) (Some es) (steady G bk t b F)"
proof (cases "b (backup_manifest_key cfg)")
  case (Some m)
  with h have "leads (steady G bk t b F) (load_generations st cfg abort) (Inr (Some es)) (steady G bk t b F)"
    by (intro load_generations_goes [OF ab]) (auto simp: history_in_def backup_manifest_key_def generations_text)
  then show ?thesis
    unfolding bucket_history_def by (rule leads_bind) (simp add: leads_return)
next
  case None
  with h have es: "es = []" "\<And>name. b (backup_prefix cfg @ name) = None"
    by (auto simp: history_in_def)
  have load: "leads (steady G bk t b F) (load_generations st cfg abort) (Inr None) (steady G bk t b F)"
    by (rule load_generations_goes [OF ab]) (simp_all add: None)
  have "leads (steady G bk t b F) (st_list st (backup_prefix cfg) abort) (Inr []) (steady G bk t b F)"
    by (rule list_goes [OF ab]) (auto simp: prefix_def es)
  then have "leads (steady G bk t b F) (list_objects st cfg abort) (Inr []) (steady G bk t b F)"
    unfolding list_objects_def by (rule leads_bind) (simp add: leads_return List.map_filter_def)
  then show ?thesis
    unfolding bucket_history_def
    by (intro leads_bind [OF load]) (auto intro!: leads_bind simp: es from_listing_def enumerate_eq_zip)
qed

lemma take_dump_goes:
  assumes apart: "places_apart cfg" and ab: "settled G bk abort False" and ready: "cycle_ready G bk tt cfg b F es e d ts"
  shows "leads (steady G bk t b F) (take_dump tt st cfg abort es known ts (gn_generation e)) ()
    (steady G bk t (published_bucket cfg es e d b)
      (shipped_disk cfg t (staged_path cfg ts) e d (F(staged_path cfg ts \<mapsto> downloaded t d))))"
proof -
  let ?S = "steady G bk t b" and ?s = "staged_path cfg ts"
  let ?F = "F(?s \<mapsto> \<lparr>f_data = d, f_private = False, f_mtime = t, f_ctime = t\<rparr>)"
  obtain x where x: "F (bc_db_path cfg) = Some x"
      "settled G bk (tl_vacuum tt (f_data x) (map_option f_data (F (bc_db_path cfg @ ''-wal'')))) (True, Some d)"
    using ready by (auto simp: cycle_ready_def dumps_to_def)
  have s: "?s \<in> below (bc_staging cfg)"
    by (simp add: staged_path_def below_def)
  have none: "F ?s = None"
    using ready s by (auto simp: cycle_ready_def dir_in_def below_def)
  have out: "leads (?S F) (modify (written ?s d)) () (?S ?F)"
    unfolding leads_def by (rule hoareI) (use none in \<open>auto simp: steady_simps\<close>)
  have dump: "leads (?S F) (sqlite_dump tt (bc_db_path cfg) ?s) True (?S ?F)"
    unfolding sqlite_dump_def
    by (rule leads_bind [OF db_files_goes [where F = F and p = "bc_db_path cfg", OF x(1)]], simp only: option.case prod.case,
        rule leads_bind [OF leads_env [OF x(2)]], simp only: fst_conv snd_conv option.case if_True,
        rule leads_bind [OF out]) (simp add: leads_return)
  have ship: "leads (?S ?F) (ship_dump st cfg abort es known ?s (object_name cfg ts) (gn_generation e)) ()
      (steady G bk t (published_bucket cfg es e d b) (shipped_disk cfg t ?s e d (F(?s \<mapsto> downloaded t d))))"
    by (rule ship_dump_goes [where F = F and staged = ?s and d = d and e = e, OF apart ab none s]) (use ready in \<open>auto simp: cycle_ready_def\<close>)
  have swept: "\<not> dir_in F (bc_staging cfg)"
    using ready by (simp add: cycle_ready_def)
  show ?thesis
    unfolding take_dump_def
    by (rule leads_bind [OF sweep_goes [OF swept]], simp only: not_True_eq_False if_False, rule leads_bind [OF dump],
        simp only: not_True_eq_False if_False ship)
qed

lemma timestamp_goes: "dumps_to G bk tt x wal d ts \<Longrightarrow> leads (steady G bk t b F) (timestamp tt) ts (steady G bk t b F)"
  unfolding dumps_to_def timestamp_def
  by (elim exE conjE, rule leads_bind, erule leads_env, simp only: option.case, rule leads_bind, rule leads_return, rule refl,
      rule leads_bind, erule leads_env) (simp add: leads_return)

lemma tick_with_goes:
  assumes "places_apart cfg" "settled G bk abort False" "cycle_ready G bk tt cfg b F es e d ts"
  shows "leads (steady G bk t b F) (tick_with tt st cfg abort) ()
    (steady G bk t (published_bucket cfg es e d b)
      (shipped_disk cfg t (staged_path cfg ts) e d (F(staged_path cfg ts \<mapsto> downloaded t d))))"
proof -
  have h: "history_in cfg es b" and v: "verdict (resolve_known (recorded_at F (bc_db_path cfg)) es) (latest es) \<noteq> Refuse"
    and g: "next_generation es = Some (gn_generation e)" and stamp: "\<exists>x wal. dumps_to G bk tt x wal d ts"
    using assms(3) by (auto simp: cycle_ready_def)
  from stamp obtain x wal where x: "dumps_to G bk tt x wal d ts" by blast
  show ?thesis
    unfolding tick_with_def
    by (rule leads_bind [OF bucket_history_goes [OF assms(2) h]], simp only: option.case, rule leads_bind [OF lineage_read_goes],
        simp only: v if_False, rule leads_bind [OF timestamp_goes [OF x]], simp only: g option.case,
        rule take_dump_goes [OF assms])
qed

end

subsection \<open>One machine backs up, another restores\<close>

text \<open>The configured remote is a steady server.\<close>

definition serves_steadily :: "'e deps \<Rightarrow> sync_config \<Rightarrow> ('e \<Rightarrow> string \<Rightarrow> string option) \<Rightarrow> ('e \<Rightarrow> bool) \<Rightarrow> bool" where
  "serves_steadily dp sc bk G \<longleftrightarrow> (\<exists>cl. connect dp (sc_target sc) = Inr cl \<and> steady_server dp cl bk G)"

lemma serving_store: "serves_steadily dp sc bk G \<Longrightarrow>
    \<exists>cl. connect dp (sc_target sc) = Inr cl \<and> steady_store (client_store dp cl) bk G (sha256_hex dp)"
  unfolding serves_steadily_def by (blast intro: steady_server.client_is_steady)

lemma tick_goes:
  assumes "serves_steadily (tl_deps tt) (bc_sync cfg) bk G" "places_apart cfg" "settled G bk abort False"
    and ready: "cycle_ready G bk tt cfg b F es e d ts"
  shows "leads (steady G bk t b F) (tick tt cfg abort) ()
    (steady G bk t (published_bucket cfg es e d b)
      (shipped_disk cfg t (staged_path cfg ts) e d (F(staged_path cfg ts \<mapsto> downloaded t d))))"
proof -
  obtain cl where cl: "connect (tl_deps tt) (sc_target (bc_sync cfg)) = Inr cl"
      "steady_store (client_store (tl_deps tt) cl) bk G (sha256_hex (tl_deps tt))"
    using serving_store [OF assms(1)] by blast
  obtain x n where x: "F (bc_db_path cfg) = Some x" "n \<noteq> (0::nat)"
      "settled G bk (tl_count tt (f_data x) (map_option f_data (F (bc_db_path cfg @ ''-wal'')))) (Some n)"
    using ready by (auto simp: cycle_ready_def dumps_to_def)
  have full: "leads (steady G bk t b F) (is_empty tt (bc_db_path cfg)) (Inr False) (steady G bk t b F)"
    using is_empty_counted [where F = F and p = "bc_db_path cfg", OF x(1) x(3)] x(2) by simp
  show ?thesis
    unfolding tick_def
    by (rule leads_bind [OF leads_env [OF assms(3)]], simp only: if_False, rule leads_bind [OF full],
        simp only: sum.case bool.case cl(1), rule steady_store.tick_with_goes [OF cl(2) assms(2-4)])
qed

lemma restore_goes:
  assumes "serves_steadily (tl_deps tt) (bc_sync cfg) bk G" "bc_restore cfg"
    and apart: "places_apart cfg" "settled G bk abort False" "settled G bk (tl_integrity tt d) ''ok''"
    and F: "\<not> dir_in F (bc_staging cfg)" "F (bc_db_path cfg) = None" "\<not> dir_in F (bc_db_path cfg)"
    and m: "b (backup_manifest_key cfg) = Some (generations_render (es @ [x]))" "generations_ok (es @ [x])"
      "length (generations_render (es @ [x])) \<le> MAX_BACKUP_MANIFEST_BYTES" "utf8_ok (generations_render (es @ [x]))"
    and obj: "b (backup_prefix cfg @ gn_name x) = Some d" "unat (gn_size x) = length d" "length d \<le> MAX_DB_OBJECT_BYTES"
  shows "leads (steady G bk t b F) (restore_if_empty tt cfg abort) Ready (steady G bk t b (restored_disk cfg t d (gn_generation x) F))"
proof -
  obtain cl where cl: "connect (tl_deps tt) (sc_target (bc_sync cfg)) = Inr cl"
      "steady_store (client_store (tl_deps tt) cl) bk G (sha256_hex (tl_deps tt))"
    using serving_store [OF assms(1)] by blast
  have empty: "leads (steady G bk t b F) (is_empty tt (bc_db_path cfg)) (Inr True) (steady G bk t b F)"
    by (rule is_empty_absent [where F = F, OF F(2,3)])
  show ?thesis
    unfolding restore_if_empty_def
    by (simp only: assms(2) simp_thms if_False, rule leads_bind [OF empty], simp only: sum.case bool.case cl(1),
        rule steady_store.restore_from_goes [where d = d, OF cl(2) apart F m obj])
qed

lemma published_reads:
  assumes keep: "0 < bc_keep cfg" and h: "history_in cfg es b" and g: "next_generation es = Some (gn_generation e)"
    and fresh: "fresh_name_for cfg b (gn_name e)" and names: "names_live cfg b es"
  obtains ks where "fst (retain (bc_keep cfg) (push_generation e es)) = ks @ [e]" "generations_ok (ks @ [e])"
    "published_bucket cfg es e d b (backup_manifest_key cfg) = Some (generations_render (ks @ [e]))"
    "published_bucket cfg es e d b (backup_prefix cfg @ gn_name e) = Some d"
proof (cases "retain (bc_keep cfg) (push_generation e es)")
  case (Pair l ev)
  have ok: "generations_ok es"
    using h by (auto simp: history_in_def generations_ok_def)
  have "find_name es (gn_name e) = None"
    using fresh names by (auto simp: fresh_name_for_def names_live_def find_name_def find_None_iff)
  then have ef: "entry_fresh es e"
    using next_generation_greater [OF g] fresh by (simp add: entry_fresh_def fresh_name_for_def)
  have m: "gn_name e \<noteq> ''manifest''"
    using fresh dump_name_manifest by (auto simp: fresh_name_for_def)
  obtain ks where ks: "l = ks @ [e]" "set ev \<subseteq> set es"
    using retain_snoc [OF keep Pair] by blast
  have "generations_ok l"
    by (rule retain_ok [OF push_ok [OF ok ef] Pair])
  moreover have "x \<in> set ev \<Longrightarrow> gn_name x \<noteq> ''manifest'' \<and> gn_name x \<noteq> gn_name e" for x
    using names ks(2) fresh_name [OF ef] by (auto simp: names_live_def)
  then have "pruned cfg ev c k = c k" if "k = backup_manifest_key cfg \<or> k = backup_prefix cfg @ gn_name e" for c k
    using that by (intro pruned_other) (auto simp: backup_manifest_key_def)
  ultimately show thesis
    using m by (intro that [of ks]) (simp_all add: Pair published_bucket_def ks(1) key_manifest)
qed

text \<open>The whole path: what a cycle publishes, a boot on an empty volume brings back.\<close>

lemma backup_then_restore:
  assumes serve: "serves_steadily (tl_deps tt) (bc_sync cfg) bk G" and cfg: "places_apart cfg" "bc_restore cfg" "0 < bc_keep cfg"
    and calm: "settled G bk abort False" and ok: "settled G bk (tl_integrity tt d) ''ok''"
    and ready: "cycle_ready G bk tt cfg b F es e d ts" and utf: "\<forall>x \<in> set es. utf8_ok (gn_name x)" "utf8_ok (gn_name e)"
    and fresh: "fresh_name_for cfg b (gn_name e)" and names: "names_live cfg b es"
    and disk: "\<not> dir_in E (bc_staging cfg)" "E (bc_db_path cfg) = None" "\<not> dir_in E (bc_db_path cfg)"
    and w: "steady G bk t b F w" and u: "steady G bk t' (bk (w_env (snd (run_state (tick tt cfg abort) w)))) E u"
  shows "\<exists>v. run_state (restore_if_empty tt cfg abort) u = (Ready, v) \<and>
    steady G bk t' (bk (w_env u)) (restored_disk cfg t' d (gn_generation e) E) v"
proof -
  have r: "history_in cfg es b" "next_generation es = Some (gn_generation e)" "gn_size e = of_nat (length d)"
      "length d < MULTIPART_THRESHOLD"
      "length (generations_render (fst (retain (bc_keep cfg) (push_generation e es)))) \<le> MAX_BACKUP_MANIFEST_BYTES"
    using ready by (simp_all add: cycle_ready_def)
  obtain ks where ks: "fst (retain (bc_keep cfg) (push_generation e es)) = ks @ [e]" "generations_ok (ks @ [e])"
      "published_bucket cfg es e d b (backup_manifest_key cfg) = Some (generations_render (ks @ [e]))"
      "published_bucket cfg es e d b (backup_prefix cfg @ gn_name e) = Some d"
    using published_reads [OF cfg(3) r(1,2) fresh names] by blast
  have "bk (w_env (snd (run_state (tick tt cfg abort) w))) = published_bucket cfg es e d b"
    using leadsD [OF tick_goes [OF serve cfg(1) calm ready] w] by (auto simp: steady_def)
  with u have u': "steady G bk t' (published_bucket cfg es e d b) E u"
    by simp
  have "set ks \<subseteq> set es"
    using retain_snoc [OF cfg(3), of e es] ks(1) by (cases "retain (bc_keep cfg) (push_generation e es)") fastforce
  then have utf8: "utf8_ok (generations_render (ks @ [e]))"
    using utf by (intro generations_text) auto
  have "length d < 2 ^ 64" "length d \<le> MAX_DB_OBJECT_BYTES"
    using r(4) by (simp_all add: MULTIPART_THRESHOLD_def MAX_DB_OBJECT_BYTES_def)
  then have sz: "unat (gn_size e) = length d" "length d \<le> MAX_DB_OBJECT_BYTES"
    by (simp_all add: r(3) unat_of_nat)
  have small: "length (generations_render (ks @ [e])) \<le> MAX_BACKUP_MANIFEST_BYTES"
    using r(5) ks(1) by simp
  have b: "bk (w_env u) = published_bucket cfg es e d b"
    using u' by (simp add: steady_def)
  from leadsD [OF restore_goes [where d = d, OF serve cfg(2,1) calm ok disk ks(3,2) small utf8 ks(4) sz] u'] show ?thesis
    unfolding b by blast
qed

subsection \<open>A concrete cycle\<close>

text \<open>The first cycle of \<open>demo_backup\<close> over the server in memory.\<close>

definition demo_entry :: generation where
  "demo_entry = \<lparr>gn_generation = 1, gn_name = demo_name, gn_size = 1\<rparr>"

definition demo_stamp_text :: string where
  "demo_stamp_text = ''20260101T000000Z'' @ ''-'' @ hex ''abcd''"

lemma demo_serves: "serves_steadily (tl_deps fake_tools) (bc_sync demo_backup) fake_bk fake_steady"
  unfolding serves_steadily_def fake_tools_deps
  by (simp add: connect_def demo_backup_def demo_sync_def demo_remote_def fake_deps_def)
    (simp flip: fake_deps_def add: fake_server.steady_server_axioms)

lemma demo_places: "places_apart demo_backup"
  unfolding places_apart_def demo_sidecar
  by (simp add: demo_backup_def below_def restore_staged_def db_label_def last_path_def) code_simp

lemma demo_calm: "settled fake_steady fake_bk fake_abort False"
  by (simp add: settled_def fake_abort_def fake_steady_def)

lemma demo_integrity: "settled fake_steady fake_bk (tl_integrity fake_tools d) ''ok''"
  by (simp add: settled_def fake_tools_def)

lemma demo_restores: "bc_restore demo_backup"
  by (simp add: demo_backup_def)

lemma demo_kept: "0 < bc_keep demo_backup"
  by (simp add: demo_keep)

lemma demo_render: "length (generations_render [demo_entry]) \<le> MAX_BACKUP_MANIFEST_BYTES"
  by (simp add: generations_render_def render_generation_def demo_entry_def demo_name_def MAX_BACKUP_MANIFEST_BYTES_def
      show_word_def show_nat.simps)

lemma demo_entry_text: "utf8_ok (gn_name demo_entry)"
  by (simp add: demo_entry_def demo_name_def byte_in_def)

lemma demo_entry_fresh: "fresh_name_for cfg (\<lambda>_. None) (gn_name demo_entry)"
  using demo_name_ok object_name_dump [of cfg demo_stamp_text]
  by (simp add: fresh_name_for_def demo_entry_def demo_name_def object_name_def demo_stamp_text_def hex_demo db_label_def db_ext_def)

lemma demo_ready: "cycle_ready fake_steady fake_bk fake_tools demo_backup (\<lambda>_. None)
    (bt_get (w_fs (demo_world [(''/data/db.sqlite3'', ''x'')] e))) [] demo_entry ''x'' demo_stamp_text"
proof -
  have dumps: "dumps_to fake_steady fake_bk fake_tools \<lparr>f_data = ''x'', f_private = True, f_mtime = 1, f_ctime = 1\<rparr> wal ''x'' demo_stamp_text" for wal
    unfolding dumps_to_def
    by (rule exI [of _ 1], rule exI [of _ "''abcd''"], rule exI [of _ "''20260101T000000Z''"])
      (simp add: settled_def fake_tools_def demo_stamp_text_def)
  have name: "gn_name demo_entry = object_name demo_backup demo_stamp_text"
    by (simp add: demo_entry_def demo_name_def object_name_def demo_stamp_text_def hex_demo db_label_def db_ext_def)
  have "fst (retain (bc_keep demo_backup) (push_generation demo_entry [])) = [demo_entry]"
    by (simp add: demo_keep retain_def push_generation_def)
  then show ?thesis
    unfolding cycle_ready_def using dumps name demo_render
    by (auto simp: demo_world_def demo_backup_def next_generation_def latest_def checked_inc_def demo_entry_def
        MULTIPART_THRESHOLD_def dir_in_def history_in_def verdict_def)
qed

lemma demo_steady: "steady fake_steady fake_bk 2 (\<lambda>_. None)
    (bt_get (w_fs (demo_world [(''/data/db.sqlite3'', ''x'')] (fake_server [] []))))
    (demo_world [(''/data/db.sqlite3'', ''x'')] (fake_server [] []))"
  by (simp add: steady_def demo_world_def fake_server_def fake_steady_def fake_bk_def fun_eq_iff)

lemma demo_ticked: "fake_steady (w_env (snd (run_state (tick fake_tools demo_backup fake_abort)
    (demo_world [(''/data/db.sqlite3'', ''x'')] (fake_server [] [])))))"
proof -
  note goes = tick_goes [OF demo_serves demo_places demo_calm demo_ready [of "fake_server [] []"]]
  obtain v where "run_state (tick fake_tools demo_backup fake_abort)
      (demo_world [(''/data/db.sqlite3'', ''x'')] (fake_server [] [])) = ((), v)" "fake_steady (w_env v)"
    using leadsD [OF goes, OF demo_steady] unfolding steady_def by blast
  then show ?thesis
    by simp
qed

end
