(* ===== verification/SyncSource.thy ===== *)
theory SyncSource
  imports SyncSafety RestoreSource Steady
begin

text \<open>
  Where a pulled file comes from. A target of a listing carries no digest, so what the pull publishes
  is what the download brings back: over a bucket that serves its objects, and without a temp file at
  the target, that is the object itself. The removal of stale temp files at boot
  (\<open>clear_partials\<close> of \<open>runtime/sync/synced.rs\<close>) looks into the data root and the three trees only; a
  temp file elsewhere, as a nested state file leaves it, is resumed and published with the old bytes in front.
\<close>

subsection \<open>The object itself\<close>

lemma fetch_unhashed: "tg_sha256 t = None \<Longrightarrow> fetch (client_store dp cl) cfg p abort t =
    s3_get dp cl (legacy_key cfg t) p (expect_of (tg_size t) None) abort"
  unfolding fetch_def client_store_simps primary_key_def
  by (rule state.expand, rule ext) (simp split: prod.split sum.split)

context s3_reader
begin

lemma pull_brings_object:
  assumes "calm abort" "tg_sha256 t = None"
  shows "hoare (\<lambda>w. bucket bk w = b \<and> file_at w (part_of (join root (tg_rel t))) = None)
    (pull_one (client_store dp cl) cfg root abort t)
    (\<lambda>r w. r = Pulled \<longrightarrow> b (legacy_key cfg t) \<noteq> None \<and> data_at w (join root (tg_rel t)) = b (legacy_key cfg t))"
    (is "hoare ?P _ ?Q")
proof -
  let ?p = "join root (tg_rel t)" and ?key = "legacy_key cfg t"
  have keep: "preserves ?P m" if "local_op {} m" for m :: "('e world, 'a) state"
    using that local_preserves_env local_preserves_file
    by (intro preserves_conj local_preserves_env [OF that, where P = "\<lambda>e. bk e = b"]
        local_preserves_file [OF that, where P = "\<lambda>x. x = None"]) simp_all
  have fail: "hoare P (ret r) ?Q" if "r \<noteq> Pulled" for P r
    by (rule hoare_return) (simp add: that)
  note fetch = fetch_unhashed [OF assms(2), of dp cl cfg ?p abort]
  have get: "hoare ?P (s3_get dp cl ?key ?p (expect_of (tg_size t) None) abort)
      (on_ok (\<lambda>_ w. b ?key \<noteq> None \<and> data_at w ?p = b ?key))"
    by (rule hoare_pre [OF get_brings_object [OF assms(1)]]) (simp add: reading_def piece_def)
  have go: "hoare ?P (do {
            r \<leftarrow> fetch (client_store dp cl) cfg ?p abort t;
            ret (case r of Inl _ \<Rightarrow> PullFailed | Inr _ \<Rightarrow> Pulled) }) ?Q"
    unfolding fetch by (rule hoare_bind [OF get], rule hoare_return) (auto simp: on_ok_def split: sum.splits)
  show ?thesis
    unfolding pull_one_def should_pull_def
    by (intro hoare_if fail hoare_keep [OF keep] hoare_sum go local_op_bind local_op_exists local_op_dir_op local_op_return) simp_all
qed

end

subsection \<open>A temp file that is not cleared\<close>

lemma framed_collect_set: "(\<And>x. x \<in> set xs \<Longrightarrow> framed ps (f x)) \<Longrightarrow> framed ps (collect f xs)"
  by (induction xs) auto

lemma child_names: "child_of d q = Some n \<Longrightarrow> CHR ''/'' \<notin> set n"
  by (auto simp: child_of_def split: option.splits dest: set_takeWhileD)

lemma entries_names: "hoare (\<lambda>_. True) (entries_of d) (\<lambda>ns _. \<forall>n \<in> set ns. CHR ''/'' \<notin> set n)"
proof (rule hoareI)
  fix w ns v
  assume "run_state (entries_of d) w = (ns, v)"
  then have "ns = [] \<or> ns = dir_children v d"
    by (auto simp: entries_of_def fs_read_dir_def split: prod.splits if_splits)
  then show "\<forall>n \<in> set ns. CHR ''/'' \<notin> set n"
    using child_names by (fastforce simp: dir_children_def List.map_filter_def)
qed

lemma below_child: "d @ ''/'' @ n \<in> below d" "below (d @ ''/'' @ n) \<subseteq> below d"
  by (auto simp: below_def prefix_def)

lemma remove_partial_apart: "q \<notin> B \<Longrightarrow> framed (- B) (remove_partial q name)"
  unfolding remove_partial_def by (intro framed_rules local_op_framed [OF local_op_remove]) simp

lemma clear_recursive_apart: "B \<inter> below d = {} \<Longrightarrow> framed (- B) (clear_recursive n d)"
proof (induction n arbitrary: d)
  case (Suc n)
  show ?case
    unfolding clear_recursive.simps
    by (intro framed_rules framed_collect framed_queries remove_partial_apart Suc.IH)
      (use Suc.prems below_child [of d] in blast)+
qed (simp add: framed_return)

lemma clear_flat_apart: "CHR ''/'' \<notin> set k \<Longrightarrow> framed (- below (d @ ''/'' @ k)) (clear_flat d)"
proof -
  assume k: "CHR ''/'' \<notin> set k"
  have out: "d @ CHR ''/'' # n \<notin> below (d @ CHR ''/'' # k)" if "CHR ''/'' \<notin> set n" for n
    using that by (auto simp: below_def prefix_def)
  show ?thesis
    unfolding clear_flat_def
  proof (rule framed_bind_ret [OF _ entries_names])
    fix names
    assume names: "\<forall>n \<in> set names. CHR ''/'' \<notin> set n"
    show "framed (- below (d @ ''/'' @ k)) (collect (\<lambda>name. do {
       f \<leftarrow> fs_is_file (d @ ''/'' @ name);
       if f then remove_partial (d @ ''/'' @ name) name else ret [] }) names)"
      by (intro framed_collect_set framed_bind framed_if framed_return framed_queries remove_partial_apart)
        (use names out in simp)
  qed (rule framed_queries)
qed

lemma clear_partials_apart:
  assumes "CHR ''/'' \<notin> set k" "k \<notin> set TREES"
  shows "framed (- below (''/data/'' @ k)) (clear_partials ''/data'')"
proof -
  have "below (''/data/'' @ k) \<inter> below (join ''/data'' tree) = {}" if tree: "tree \<in> set TREES" for tree
  proof -
    have j: "join ''/data'' tree = ''/data/'' @ tree" and n: "CHR ''/'' \<notin> set tree" "tree \<noteq> k"
      using tree assms(2) by (auto simp: TREES_def join_def)
    have "False" if "''/data/'' @ k @ ''/'' @ r = ''/data/'' @ tree @ ''/'' @ s" for r s
    proof -
      from that have "k @ CHR ''/'' # r = tree @ CHR ''/'' # s"
        by simp
      moreover have "takeWhile (\<lambda>c. c \<noteq> CHR ''/'') (m @ CHR ''/'' # x) = m" if "CHR ''/'' \<notin> set m" for m x
        using that by (induction m) auto
      ultimately show False
        using assms(1) n by metis
    qed
    then show ?thesis
      unfolding j by (auto simp: below_def prefix_def)
  qed
  moreover have "framed (- below (''/data/'' @ k)) (clear_flat ''/data'')"
    using clear_flat_apart [OF assms(1), of "''/data''"] by simp
  ultimately show ?thesis
    unfolding clear_partials_def by (intro framed_rules framed_collect_set clear_recursive_apart)
qed

text \<open>In a steady world the clearing removes files and does nothing else.\<close>

definition still :: "nat \<Rightarrow> 'e \<Rightarrow> 'e world \<Rightarrow> bool" where
  "still t e w \<longleftrightarrow> w_faults w = [] \<and> w_stat w = [] \<and> w_now w = t \<and> w_env w = e"

lemma still_steps: "preserves (still t e) (fs_is_file p)" "preserves (still t e) (fs_is_dir p)"
  "preserves (still t e) (entries_of p)" "preserves (still t e) (remove_partial p name)"
  by (rule preservesI, auto simp: still_def fs_is_file_def fs_is_dir_def entries_of_def fs_read_dir_def remove_partial_def
      fs_remove_def next_fault_def split: if_splits)+

lemma gone_steps: "preserves (absent R) (fs_is_file p)" "preserves (absent R) (fs_is_dir p)"
  "preserves (absent R) (entries_of p)" "preserves (absent R) (remove_partial p name)"
  unfolding remove_partial_def
  by (intro preserves_rules remove_absent framed_absent [OF framed_queries(1), where ps = "{}"]
      framed_absent [OF framed_queries(2), where ps = "{}"] framed_absent [OF framed_queries(3), where ps = "{}"]; simp)+

lemma clear_partials_keeps:
  assumes "\<And>p. preserves I (fs_is_file p)" "\<And>p. preserves I (fs_is_dir p)" "\<And>p. preserves I (entries_of p)"
    and "\<And>p name. preserves I (remove_partial p name)"
  shows "preserves I (clear_partials root)"
proof -
  have "preserves I (clear_recursive n d)" for n d
    by (induction n arbitrary: d) (auto intro!: preserves_rules preserves_collect assms)
  then show ?thesis
    unfolding clear_partials_def clear_flat_def by (intro preserves_rules preserves_collect assms)
qed

lemma clear_partials_misses:
  assumes k: "CHR ''/'' \<notin> set k" "k \<notin> set TREES" and q: "q \<in> below (''/data/'' @ k)"
    and w: "steady G bk t b F w" and F: "F q = None" "\<not> dir_in F q"
    and run: "run_state (clear_partials ''/data'') w = (n, v)"
  shows "\<exists>E. steady G bk t b E v \<and> E q = None \<and> \<not> dir_in E q \<and> E (part_of q) = F (part_of q)"
proof -
  have "still t (w_env w) v"
    by (rule preservesD [OF clear_partials_keeps [OF still_steps] _ run]) (use w in \<open>simp add: still_def steady_def\<close>)
  with w have v: "steady G bk t b (bt_get (w_fs v)) v"
    by (auto simp: still_def steady_def)
  have "absent (insert q (below q)) w"
    using w F by (auto simp: absent_def steady_def dir_in_def below_def)
  from preservesD [OF clear_partials_keeps [OF gone_steps] this run]
  have gone: "bt_get (w_fs v) q = None" "\<not> dir_in (bt_get (w_fs v)) q"
    by (auto simp: absent_def dir_in_def below_def)
  have "part_of q \<in> below (''/data/'' @ k)"
    using q by (auto simp: below_def part_of_def prefix_def)
  then have "bt_get (w_fs v) (part_of q) = F (part_of q)"
    using framedD [OF clear_partials_apart [OF k] run] w by (simp add: frame_def steady_def)
  with v gone show ?thesis
    by blast
qed

subsection \<open>It is resumed\<close>

text \<open>The server answers a ranged request for the object with the rest of it.\<close>

definition answers_range :: "'e deps \<Rightarrow> client \<Rightarrow> ('e \<Rightarrow> bool) \<Rightarrow> ('e \<Rightarrow> string \<Rightarrow> string option) \<Rightarrow> string \<Rightarrow> nat \<Rightarrow> bool" where
  "answers_range dp cl G bk key k \<longleftrightarrow> (\<forall>e d. G e \<longrightarrow> bk e key = Some d \<longrightarrow>
     (\<exists>rp e'. d_http dp \<lparr>rq_client = cl, rq_action = GetObject (Some k), rq_key = key, rq_body = []\<rparr> e = (Inr rp, e') \<and>
       rp_status rp = 206 \<and> delivers (drop k d) rp \<and> G e' \<and> bk e' = bk e))"

lemma leads_receive_rest:
  assumes "settled G bk abort False" "F tmp = Some x" "delivers rest rp" "0 < k"
    and "k + length rest \<le> ex_max ex" "ex_size ex = Some (k + length rest)"
  shows "leads (steady G bk t b F) (receive tmp ex abort k rp) (Inr (k + length rest)) (steady G bk t b (F(tmp \<mapsto> grown t x rest)))"
proof -
  have opn: "leads (steady G bk t b F) (open_temp tmp (k = 0)) (Inr ()) (steady G bk t b F)"
    unfolding leads_def by (rule hoareI) (use assms(2,4) in \<open>auto simp: open_temp_def opened_def steady_simps fun_upd_idem\<close>)
  have body: "leads (steady G bk t b F) (stream_body tmp ex abort k (rp_body rp)) (Inr (k + length rest))
      (steady G bk t b (F(tmp \<mapsto> grown t x rest)))"
    using assms by (intro leads_stream_body) (simp_all add: delivers_def)
  have fin: "leads (steady G bk t b (F(tmp \<mapsto> grown t x rest))) (finish_stream (declared_length rp) k (k + length rest))
      (Inr (k + length rest)) (steady G bk t b (F(tmp \<mapsto> grown t x rest)))"
    using assms(3) by (intro leads_finish) (auto simp: delivers_def)
  show ?thesis
    unfolding receive_def
    by (rule leads_bind [OF opn], simp only: sum.case, rule leads_bind [OF body], simp only: sum.case fin)
qed

lemma resumed_attempt:
  assumes ab: "settled G bk abort False" and obj: "b key = Some d" and rng: "answers_range dp cl G bk key k"
    and F: "F tmp = Some x" and k: "0 < k" "k \<le> length d" and ex: "length d \<le> ex_max ex" "ex_size ex = Some (length d)"
  shows "leads (steady G bk t b F) (attempt_once dp cl key tmp ex abort final k) (Done (Inr (length d)))
    (steady G bk t b (F(tmp \<mapsto> grown t x (drop k d))))"
proof (rule leadsI)
  fix w
  assume w: "steady G bk t b F w"
  obtain y where y: "run_state (env_op abort) w = (False, y)" "steady G bk t b F y"
    using leadsD [OF leads_env [OF ab], OF w] by blast
  from y(2) obj have "G (w_env y)" "bk (w_env y) key = Some d"
    by (simp_all add: steady_def)
  with rng obtain rp e' where rp: "d_http dp \<lparr>rq_client = cl, rq_action = GetObject (Some k), rq_key = key, rq_body = []\<rparr> (w_env y) = (Inr rp, e')"
      "rp_status rp = 206" "delivers (drop k d) rp" "G e'" "bk e' = bk (w_env y)"
    unfolding answers_range_def by blast
  have z: "steady G bk t b F (y\<lparr>w_env := e'\<rparr>)"
    using y(2) rp by (simp add: steady_def)
  have len: "k + length (drop k d) = length d"
    using k by simp
  have "leads (steady G bk t b F) (receive tmp ex abort k rp) (Inr (k + length (drop k d)))
      (steady G bk t b (F(tmp \<mapsto> grown t x (drop k d))))"
    by (rule leads_receive_rest [where F = F and tmp = tmp and x = x, OF ab F rp(3) k(1)]) (simp_all only: len ex)
  from leadsD [OF this, OF z] obtain v where v: "run_state (receive tmp ex abort k rp) (y\<lparr>w_env := e'\<rparr>) = (Inr (length d), v)"
      "steady G bk t b (F(tmp \<mapsto> grown t x (drop k d))) v"
    unfolding len by blast
  have "run_state (attempt_once dp cl key tmp ex abort final k) w = (Done (Inr (length d)), v)"
    using y(1) rp(1,2) v(1) k(1) by (simp add: attempt_once_def send_def env_op_def checked_def)
  with v(2) show "\<exists>v. run_state (attempt_once dp cl key tmp ex abort final k) w = (Done (Inr (length d)), v) \<and>
      steady G bk t b (F(tmp \<mapsto> grown t x (drop k d))) v"
    by blast
qed

lemma resumed_get:
  assumes ab: "settled G bk abort False" and obj: "b key = Some d" and rng: "answers_range dp cl G bk key (length (f_data x))"
    and F: "F (part_of path) = Some x" and k: "f_data x \<noteq> []" "length (f_data x) < length d"
    and ex: "length d \<le> ex_max ex" "ex_size ex = Some (length d)" "ex_sha256 ex = None"
  shows "leads (steady G bk t b F) (s3_get dp cl key path ex abort) (Inr ())
    (steady G bk t b (F(part_of path := None, path \<mapsto> grown t x (drop (length (f_data x)) d))))"
proof -
  let ?tmp = "part_of path" and ?k = "length (f_data x)"
  let ?y = "grown t x (drop ?k d)"
  have ne: "?tmp \<noteq> path"
    by (simp add: part_of_def)
  have off: "leads (steady G bk t b F) (resumed_offset ?tmp (ex_size ex)) ?k (steady G bk t b F)"
    unfolding resumed_offset_def
    by (rule leads_bind [OF leads_len [where F = F and p = ?tmp, OF F]]) (use k in \<open>simp add: ex leads_return\<close>)
  have once: "leads (steady G bk t b F) (attempt_once dp cl key ?tmp ex abort final ?k) (Done (Inr (length d)))
      (steady G bk t b (F(?tmp \<mapsto> ?y)))" for final
    by (rule resumed_attempt [where F = F and tmp = ?tmp and b = b and d = d, OF ab obj rng F]) (use k ex in auto)
  have att: "leads (steady G bk t b F) (attempts dp cl key ?tmp ex abort n ?k) (Inr (length d)) (steady G bk t b (F(?tmp \<mapsto> ?y)))" for n
    by (cases n) (auto intro!: leads_bind [OF once])
  have len: "length (f_data ?y) = length d"
    using k by simp
  have pub: "leads (steady G bk t b (F(?tmp \<mapsto> ?y))) (publish dp ?tmp path ex (length d)) (Inr ())
      (steady G bk t b (F(?tmp := None, path \<mapsto> ?y)))"
    using leads_publish [where F = "F(?tmp \<mapsto> ?y)" and y = ?y and t = t and b = b and G = G and bk = bk and dp = dp, OF _ ne, of ex]
    unfolding len by (simp add: ex)
  show ?thesis
    unfolding s3_get_def
    by (rule leads_guard [OF ab], rule leads_bind [OF off], rule leads_bind [OF att],
        simp only: staged_publish_def sum.case, rule leads_bind [OF pub]) (simp add: cleanup_def leads_return)
qed

lemma resumed_pull:
  assumes ab: "settled G bk abort False" and t: "is_synced_file (tg_rel tg) (sc_state_file cfg)" "tg_sha256 tg = None" "tg_size tg = Some (length d)"
    and obj: "b (legacy_key cfg tg) = Some d" "length d \<le> MAX_SYNC_OBJECT_BYTES"
    and rng: "answers_range dp cl G bk (legacy_key cfg tg) (length (f_data x))"
    and F: "F p = None" "\<not> dir_in F p" "F (part_of p) = Some x" and p: "p = join root (tg_rel tg)"
    and k: "f_data x \<noteq> []" "length (f_data x) < length d"
  shows "leads (steady G bk t b F) (pull_one (client_store dp cl) cfg root abort tg) Pulled
    (steady G bk t b (F(part_of p := None, p \<mapsto> grown t x (drop (length (f_data x)) d))))"
proof -
  have there: "leads (steady G bk t b F) (should_pull p) True (steady G bk t b F)"
    unfolding should_pull_def by (rule leads_bind [OF leads_exists]) (simp add: F leads_return)
  have get: "leads (steady G bk t b F) (s3_get dp cl (legacy_key cfg tg) p (expect_of (Some (length d)) None) abort) (Inr ())
      (steady G bk t b (F(part_of p := None, p \<mapsto> grown t x (drop (length (f_data x)) d))))"
    by (rule resumed_get [where F = F and b = b and d = d, OF ab obj(1) rng F(3) k]) (simp_all add: expect_of_def obj)
  show ?thesis
    unfolding pull_one_def p [symmetric] fetch_unhashed [OF t(2)] t(3)
    by (simp only: t(1) simp_thms if_False, rule leads_bind [OF there], simp only: simp_thms if_False,
        rule leads_bind [OF leads_dir_op], simp only: sum.case, rule leads_bind [OF get]) (simp add: leads_return)
qed

subsection \<open>A concrete boot\<close>

text \<open>The server in memory, with ranges.\<close>

definition ranged_http :: "request \<Rightarrow> fake \<Rightarrow> (ureq_error + response) \<times> fake" where
  "ranged_http rq e = (case rq_action rq of
     GetObject (Some k) \<Rightarrow> (case bt_get (fk_bucket e) (rq_key rq) of
       None \<Rightarrow> (Inl (StatusCode 404), e)
     | Some d \<Rightarrow> (Inr \<lparr>rp_status = 206, rp_etag = None, rp_length = None, rp_body = [Inr (drop k d)]\<rparr>, e))
   | _ \<Rightarrow> fake_http rq e)"

definition ranged_deps :: "fake deps" where
  "ranged_deps = fake_deps (\<lambda>d. d) \<lparr>d_http := ranged_http\<rparr>"

lemma ranged_answers: "answers_range ranged_deps cl fake_steady fake_bk key k"
  by (auto simp: answers_range_def ranged_deps_def ranged_http_def fake_bk_def delivers_def declared_length_def)

definition nested_sync :: sync_config where
  "nested_sync = demo_sync\<lparr>sc_state_file := Some ''ts/state''\<rparr>"

lemma nested_key: "legacy_key nested_sync \<lparr>tg_rel = ''ts/state'', tg_size = n, tg_sha256 = h\<rparr> = ''ts/state''"
  by (simp add: legacy_key_def sync_prefix_def nested_sync_def demo_sync_def demo_remote_def)

end
