(* ===== verification/Log.thy ===== *)
theory Log
  imports S3Types
begin

text \<open>
  \<open>util/log.rs\<close>: the line a message becomes, and \<open>sanitize\<close>, which escapes untrusted text with
  \<open>str::escape_debug\<close>. A text is the list of its Unicode scalar values. The two tables of the standard
  library that \<open>escape_debug\<close> consults (which characters extend a grapheme, which are printable) are
  arguments. The lemmas show that a sanitized value adds no line to the log.
\<close>

definition scalars :: "string \<Rightarrow> nat list" where
  "scalars s = map of_char s"

fun show_hex :: "nat \<Rightarrow> string" where
  "show_hex n = (if n < 16 then [hex_char n] else show_hex (n div 16) @ [hex_char (n mod 16)])"

declare show_hex.simps [simp del]

definition escape_unicode :: "nat \<Rightarrow> nat list" where
  "escape_unicode c = scalars ([CHR 0x5C] @ ''u{'' @ show_hex c @ ''}'')"

record char_tables =
  ct_extends :: "nat \<Rightarrow> bool"
  ct_printable :: "nat \<Rightarrow> bool"

text \<open>\<open>char::escape_debug\<close>; only the first character of a text is escaped for extending a grapheme.\<close>

definition escape_char :: "char_tables \<Rightarrow> bool \<Rightarrow> nat \<Rightarrow> nat list" where
  "escape_char tb first c =
     (if c = 0 then scalars [CHR 0x5C, CHR ''0'']
      else if c = 9 then scalars [CHR 0x5C, CHR ''t'']
      else if c = 13 then scalars [CHR 0x5C, CHR ''r'']
      else if c = 10 then scalars [CHR 0x5C, CHR ''n'']
      else if c = 0x5C \<or> c = 0x22 \<or> c = 0x27 then [0x5C, c]
      else if first \<and> ct_extends tb c then escape_unicode c
      else if ct_printable tb c then [c]
      else escape_unicode c)"

definition sanitize :: "char_tables \<Rightarrow> nat list \<Rightarrow> nat list" where
  "sanitize tb s = (case s of [] \<Rightarrow> [] | c # cs \<Rightarrow> escape_char tb True c @ concat (map (escape_char tb False) cs))"

text \<open>\<open>info\<close> and \<open>err\<close> write the same line, to standard output and standard error.\<close>

definition log_line :: "nat list \<Rightarrow> nat list" where
  "log_line msg = scalars ''[supervisor] '' @ msg @ [10]"

subsection \<open>A sanitized value stays on its line\<close>

definition visible :: "nat \<Rightarrow> bool" where
  "visible c \<longleftrightarrow> 32 \<le> c \<and> c \<noteq> 127"

text \<open>The standard library's table holds no control character for printable.\<close>

definition tables_ok :: "char_tables \<Rightarrow> bool" where
  "tables_ok tb \<longleftrightarrow> (\<forall>c. ct_printable tb c \<longrightarrow> visible c)"

lemma hex_char_visible: "n < 16 \<Longrightarrow> visible (of_char (hex_char n))"
  by (simp add: hex_char_def visible_def)

lemma show_hex_visible: "\<forall>c \<in> set (scalars (show_hex n)). visible c"
  by (induction n rule: show_hex.induct)
    (subst show_hex.simps, auto simp: scalars_def hex_char_visible split: if_splits)

lemma escape_char_visible: "tables_ok tb \<Longrightarrow> \<forall>x \<in> set (escape_char tb first c). visible x"
proof -
  assume tb: "tables_ok tb"
  have u: "\<forall>x \<in> set (escape_unicode c). visible x"
    using show_hex_visible [of c] by (auto simp: escape_unicode_def scalars_def visible_def)
  show ?thesis
    using u tb by (simp add: escape_char_def scalars_def tables_ok_def visible_def)
qed

lemma sanitize_visible: "tables_ok tb \<Longrightarrow> \<forall>x \<in> set (sanitize tb s). visible x"
proof (cases s)
  case (Cons c cs)
  assume "tables_ok tb"
  note v = escape_char_visible [OF this]
  show ?thesis
    unfolding sanitize_def Cons list.case set_append set_concat set_map using v by blast
qed (simp add: sanitize_def)

text \<open>A message with sanitized values between texts of the program is one line.\<close>

lemma one_line: "tables_ok tb \<Longrightarrow> 10 \<notin> set a \<Longrightarrow> 10 \<notin> set b \<Longrightarrow>
    filter (\<lambda>c. c = 10) (log_line (a @ sanitize tb s @ b)) = [10]"
  using sanitize_visible [of tb s] by (auto simp: log_line_def scalars_def visible_def filter_empty_conv)

text \<open>Text of printable ASCII without quotes and backslashes is shown as it is.\<close>

lemma sanitize_plain: "\<forall>c \<in> set s. ct_printable tb c \<and> \<not> ct_extends tb c \<and> 32 \<le> c \<and> c \<noteq> 0x5C \<and> c \<noteq> 0x22 \<and> c \<noteq> 0x27 \<Longrightarrow>
    sanitize tb s = s"
proof -
  assume s: "\<forall>c \<in> set s. ct_printable tb c \<and> \<not> ct_extends tb c \<and> 32 \<le> c \<and> c \<noteq> 0x5C \<and> c \<noteq> 0x22 \<and> c \<noteq> 0x27"
  have e: "escape_char tb first c = [c]" if "c \<in> set s" for first c
  proof -
    have "c \<noteq> 0" "c \<noteq> 9" "c \<noteq> 13" "c \<noteq> 10"
      using bspec [OF s that] by auto
    then show ?thesis
      using bspec [OF s that] by (simp add: escape_char_def)
  qed
  show ?thesis
  proof (cases s)
    case (Cons c cs)
    have "\<And>x. x \<in> set cs \<Longrightarrow> escape_char tb False x = [x]"
      by (rule e) (simp add: Cons)
    then have "concat (map (escape_char tb False) cs) = cs"
      by (induction cs) simp_all
    then show ?thesis
      using e [of c True] by (simp add: sanitize_def Cons)
  qed (simp add: sanitize_def)
qed

end
