(* ===== verification/Spec2Isabelle.thy ===== *)
theory Spec2Isabelle
  imports DaemonWorker Reactor Pidfd BackupGoes SyncSource Log
begin

text \<open>
  \<^bold>\<open>The program.\<close> The repository's Rust program (\<open>src/supervisor/src\<close>) is PID 1 of a container that runs
  the password vault vaultwarden behind Tailscale. It reads its configuration (\<open>config\<close>), restores the
  database and the vault's state from an S3 bucket (\<open>runtime/backup\<close>, \<open>runtime/sync\<close>, over
  \<open>s3/client.rs\<close>), starts \<open>tailscaled\<close> and the vault (\<open>boot.rs\<close>, \<open>runtime/services\<close>,
  \<open>runtime/process\<close>), answers liveness probes on the one exposed port (\<open>runtime/gate\<close>), and backs the
  database and the state up while the vault runs and once more at the end (\<open>runtime/maintenance.rs\<close>).
  This development models all of that and proves what makes it safe to keep passwords in it: what is
  backed up can be restored, nothing that exists is overwritten, secrets stay where they belong, and
  the supervisor's verdicts about its children are true.

  \<^bold>\<open>How the code is modelled.\<close> A pure function is a HOL function. A function with effects is a program of
  the state monad over a \<open>world\<close> (theory \<open>World\<close>): the files, a schedule of failures that decides the
  outcome of every file-system call, and \<open>w_env\<close>, whatever is outside the process. A theorem quantifies
  over the schedule, so it covers every failure and, since a crash leaves the world that failing every
  later call leaves, every crash. Errors are \<open>Inl\<close>, absent values \<open>None\<close>. Machine integers are words of
  their width; durations and instants are milliseconds as \<open>nat\<close> (whole seconds in the settings). A Rust
  string is the list of its UTF-8 bytes. \<open>BTreeMap\<close> is a sorted association list (\<open>OrdMap\<close>). What
  threads share is a step relation whose steps are the regions the code makes atomic (\<open>Reaper\<close>,
  \<open>ReaperThread\<close>, \<open>Gate\<close>, \<open>Reactor\<close>, \<open>DaemonWorker\<close>), with an invariant by the locale \<open>machine\<close>. Code that is not in the repository
  (\<open>ureq\<close>, \<open>rusty_s3\<close>, \<open>sha2\<close>, \<open>dotenvy\<close>, SQLite, the kernel) is a parameter: the records
  \<open>deps\<close>, \<open>tools\<close>, \<open>os\<close>, \<open>net\<close>, \<open>clock\<close> and \<open>reactor_os\<close> of functions on \<open>w_env\<close>. Two
  judgements carry the proofs: \<open>hoare P m Q\<close> and \<open>framed ps m\<close> (\<open>m\<close> writes only the files \<open>ps\<close>).

  \<^bold>\<open>Theories.\<close> In the order of the code:
  \<^item> \<open>Prelude\<close>, \<open>RustStr\<close>, \<open>OrdMap\<close>, \<open>World\<close>: the monad and its rules, the string functions of Rust's
    library, ordered maps, the file system (with \<open>util/fs.rs\<close>).
  \<^item> \<open>Schema\<close> (\<open>config/env/schema.rs\<close>, \<open>knobs.rs\<close>), \<open>Dotenv\<close> (\<open>config/dotenv.rs\<close>), \<open>DbUrl\<close>
    (\<open>config/dburl.rs\<close>), \<open>SyncConfig\<close> and \<open>BackupConfig\<close> (\<open>config/sync\<close>, \<open>config/backup\<close>),
    \<open>ConfigMerge\<close> (\<open>config/env/merge.rs\<close>): from the environment and the dotenv file to a \<open>config\<close>.
  \<^item> \<open>S3Types\<close>, \<open>S3Client\<close>, \<open>S3Get\<close>: \<open>s3/client.rs\<close> and \<open>util/hash.rs\<close>. \<open>ObjectStore\<close> is the contract
    its callers rely on (locale \<open>object_store\<close>), \<open>S3Service\<close> the documented behaviour of the service (locale
    \<open>s3_service\<close>) and the proof that the client over it keeps the contract (a \<open>sublocale\<close>), \<open>S3Frames\<close>
    which files the client writes, \<open>FakeServer\<close> a server in memory that satisfies \<open>s3_service\<close>, and
    \<open>S3Reader\<close> (locale \<open>s3_reader\<close>) what a download brings back from a service that serves its objects.
    \<open>Steady\<close> states what the client does when nothing fails (locales \<open>steady_server\<close>, \<open>steady_store\<close>).
  \<^item> \<open>SyncManifest\<close>, \<open>Synced\<close>, \<open>SyncState\<close>, \<open>SyncSafety\<close>, \<open>SyncSource\<close>: \<open>runtime/sync\<close>, its two text
    formats, the durable set, the pull and the push, what they may write, and where a pulled file comes from.
  \<^item> \<open>BackupManifest\<close>, \<open>BackupCycle\<close>, \<open>BackupSafety\<close>, \<open>BackupTick\<close>, \<open>BackupRestore\<close>: \<open>runtime/backup\<close>,
    the manifest of generations and the lineage record, one cycle (\<open>dump.rs\<close> and its helpers), what it
    does to the bucket, the cycle over the real client, and the restore at boot. \<open>RestoreSource\<close>
    composes that restore with \<open>S3Reader\<close>: where a restored database comes from. \<open>BackupRoundTrip\<close>
    composes the cycle with the restore under every failure, \<open>BackupGoes\<close> without failures.
  \<^item> \<open>ChildEnv\<close>, \<open>Poll\<close>, \<open>Signals\<close>, \<open>Reaper\<close>, \<open>ReaperThread\<close>, \<open>Pidfd\<close>, \<open>Process\<close>: \<open>runtime/process\<close>, \<open>util/poll.rs\<close> and
    \<open>util/staged.rs\<close>: the environments children get, bounded waits, the stop flag, the reaper hub with
    the processes it serves, its thread, the poll of its descriptors, spawning, signalling and bounded runs. \<open>Log\<close> holds \<open>util/log.rs\<close>. \<open>over_hub os hb\<close> states what the code
    relies on between the system calls and the hub.
  \<^item> \<open>Services\<close> (\<open>runtime/services\<close>), \<open>Gate\<close> (\<open>runtime/gate\<close>), \<open>Maintenance\<close> and \<open>Reactor\<close>
    (\<open>runtime/maintenance.rs\<close>: its loops as functions, its two threads as a step relation).
  \<^item> \<open>Supervisor\<close>: \<open>boot.rs\<close>, \<open>main.rs\<close>, \<open>runtime/process/watch.rs\<close> and the wait of \<open>util/net.rs\<close>, which
    compose everything above. \<open>FakeHost\<close> is a small operating system that satisfies \<open>over_hub\<close> and a
    supervisor on it, for concrete instances. \<open>DaemonWorker\<close> is the worker thread of \<open>util/net.rs\<close>: a
    wait that reports a ready daemon follows a connection that succeeded.

  \<^bold>\<open>What is shown.\<close> This theory states the properties, each a short proof over the lemmas of the
  component. Backups (C1-C10): a cycle keeps the bucket restorable whatever fails, an old database never
  supersedes a newer dump, the formats read back, a restore never touches data and publishes only what
  was verified, the newest good dump of the bucket; two behaviours lose data and are stated as such.
  C9 and C10 compose the cycle with the restore: whatever fails, only complete dumps of databases that
  were live are restored; when nothing fails, the dump that was backed up is restored. The S3 client
  (C11-C13): verified downloads, refinement of the object store, the signing region. State sync (C14-C20):
  what a pull may write and where it comes from, the formats, a stale temp file that becomes the restored
  file. Configuration (C21-C23). Environments of the children (C24-C26).
  Boot and teardown (C27-C29): the database at the hand-over, the end of the children, the exit code. Children
  (C30-C34): true and complete exit statuses, the stale handle, helpers, the auth key. The gatekeeper
  (C35-C37). Maintenance and waiting (C38-C40).

  \<^bold>\<open>Fuel.\<close> Loops that the code bounds by a counter are cut at that counter (three attempts, the pages of
  a listing, the parts of an upload). \<open>wait_until\<close> gets a round per beat of its timeout and two more, and
  C40 shows that this is enough and that more changes nothing; C39 gives the rounds of the drain.
  \<open>handle_wait\<close>, \<open>run_poll\<close> and \<open>quiesce\<close> are paced by condition variables that may wake early, so no
  number of rounds is enough for every kernel; their fuel is the parameter \<open>os_rounds\<close>, and what is
  proved of them (the hub's invariant, true statuses, success only after exit 0) holds for every amount.
  The watch loop and the scheduler run until something happens; they return \<open>None\<close>, or stop, when their
  fuel ends, and the lemmas again hold for every amount. Directory walks get more levels than any path
  of the world has.

  \<^bold>\<open>Not modelled.\<close> Which lines the program logs: nothing depends on it. The two system calls of
  \<open>pidfd.rs\<close>, the sockets and SQLite are parameters. Shared mutable state other than the hub,
  the admission counter, the reactor and the readiness worker is read by one thread only. Permissions are reduced to "owner-only or not", links are not modelled, and
  a file is not written by other processes while the supervisor works on it: the vault runs only after
  the boot, and the database dump is SQLite's. \<open>Instant\<close> overflow does not occur with the bounded
  settings (C21). Reading a directory fails as a whole or lists every entry; the code skips an entry that
  cannot be read. What \<open>quiesce\<close> reads of the reaper's idle flag is a parameter; \<open>ReaperThread\<close> shows
  what the flag means. Tests, their support modules and the image's build files are left out.
\<close>

section \<open>Backups\<close>

text \<open>C1: whatever fails during a backup cycle, and wherever a response is lost, a bucket whose
  manifest reads back and names only existing dumps is afterwards either such a bucket again, or one
  in which only the newest entry of the manifest has lost its dump.\<close>

theorem tick_keeps_bucket_sound:
  assumes "served (tl_deps tt) (bc_sync cfg) bk up after" "quiet bk abort" "quiet up abort"
    and "quiet_tools bk tt" "0 < bc_keep cfg" "sound_bucket cfg (bk (w_env w))"
    and "fresh_stamps tt cfg bk (bk (w_env w))"
  shows "cycle_end cfg (bk (w_env (snd (run_state (tick tt cfg abort) w))))"
  by (rule hoare_snd [OF tick_bucket_ok [OF assms]]) simp

theorem tick_keeps_bucket_sound_witness:
  "cycle_end demo_backup (fake_bk (w_env (snd (run_state (tick fake_tools demo_backup fake_abort)
     (demo_world [(''/data/db.sqlite3'', ''x'')] (fake_server [] [Served, Lost, Refused]))))))"
  by (rule tick_keeps_bucket_sound [where bk = fake_bk and up = fake_up and after = fake_after])
    (simp_all add: fake_tools_deps fake_served fake_quiet demo_backup_def sound_bucket_def dumps_ok_def
      demo_world_def fake_server_def fake_bk_def demo_fresh)

text \<open>C2: a database whose recorded generation is older than the bucket's newest one, or that has no
  record, changes nothing in the bucket: an emptied or rolled-back volume cannot supersede the
  dumps of the vault it lost.\<close>

theorem tick_refuses_older_database:
  assumes "served (tl_deps tt) (bc_sync cfg) bk up after" "quiet bk abort" "quiet up abort"
    and "quiet_tools bk tt" "latest es \<noteq> 0" "bucket_newer cfg es (bk (w_env w))" "\<not> owns cfg es w"
  shows "bk (w_env (snd (run_state (tick tt cfg abort) w))) = bk (w_env w)"
  by (rule hoare_snd [OF tick_refuses [OF assms(1-6)]]) (use assms(7) in simp)

theorem tick_refuses_older_database_witness:
  "let b = [(''db/manifest'', generations_render [\<lparr>gn_generation = 4, gn_name = demo_name, gn_size = 9\<rparr>])] in
   fake_bk (w_env (snd (run_state (tick fake_tools demo_backup fake_abort)
     (demo_world [(''/data/db.sqlite3'', ''x'')] (fake_server b []))))) = fake_bk (fake_server b [])"
proof -
  let ?es = "[\<lparr>gn_generation = 4, gn_name = demo_name, gn_size = 9\<rparr>]"
  let ?w = "demo_world [(''/data/db.sqlite3'', ''x'')] (fake_server [(''db/manifest'', generations_render ?es)] [])"
  have "generations_ok ?es"
    using demo_name_ok by (simp add: generations_ok_def ascending_def)
  then have "bucket_newer demo_backup ?es (fake_bk (w_env ?w))"
    by (simp add: bucket_newer_def demo_manifest_key fake_bk_def demo_world_def fake_server_def generations_round_trip)
  moreover have "\<not> owns demo_backup es ?w" for es
    unfolding owns_def demo_sidecar by (simp add: data_at_def demo_world_def)
  ultimately have "fake_bk (w_env (snd (run_state (tick fake_tools demo_backup fake_abort) ?w))) = fake_bk (w_env ?w)"
    by (intro tick_refuses_older_database [where up = fake_up and after = fake_after])
      (simp_all add: fake_tools_deps fake_served fake_quiet latest_def)
  then show ?thesis
    by (simp add: demo_world_def)
qed

text \<open>C3: if the bucket applies every attempt of the manifest write and every answer is lost, the cycle
  removes the dump that the manifest it has just replaced names, so the newest entry is left without
  its dump: the one case the first property allows does happen.\<close>

theorem lost_manifest_answer_deletes_named_dump:
  assumes "lost_env b [Lost, Lost, Lost] w" "sound_bucket cfg b" "b (backup_prefix cfg @ gn_name e) \<noteq> None"
    and "retain (bc_keep cfg) (push_generation e es) = (es' @ [e], ev)" "generations_ok (es' @ [e])"
    and "names_live cfg b es'" "gn_name e \<noteq> ''manifest''"
    and "length (generations_render (es' @ [e])) \<le> MAX_BACKUP_MANIFEST_BYTES"
  shows "newest_dangling cfg (fake_bk (w_env (snd (run_state
    (publish_dump (client_store (fake_deps digest) cl) cfg fake_abort es staged e) w))))"
proof -
  have "fake_bk (w_env (snd (run_state (publish_dump (client_store (fake_deps digest) cl) cfg fake_abort es staged e) w)))
      = (b(backup_manifest_key cfg \<mapsto> generations_render (es' @ [e])))(backup_prefix cfg @ gn_name e := None)"
    by (rule hoare_snd [OF publish_dump_lost [OF assms(4,8)] assms(1)])
  moreover have "backup_manifest_key cfg \<noteq> backup_prefix cfg @ gn_name e"
    using assms(7) by (simp add: backup_manifest_key_def)
  moreover have "gn_name x \<noteq> gn_name e" if "x \<in> set es'" for x
    using assms(5) that by (auto simp: generations_ok_def ascending_def dest: sym intro: image_eqI)
  ultimately show ?thesis
    using assms(5,6) unfolding newest_dangling_def names_live_def
    by (intro exI [of _ "generations_render (es' @ [e])"] exI [of _ es'] exI [of _ e])
      (auto simp: generations_round_trip backup_manifest_key_def)
qed

theorem lost_manifest_answer_deletes_named_dump_witness:
  "newest_dangling demo_backup (fake_bk (w_env (snd (run_state (publish_dump (client_store (fake_deps (\<lambda>d. d)) demo_client)
     demo_backup fake_abort [] ''/data/db-backups/x'' \<lparr>gn_generation = 1, gn_name = demo_name, gn_size = 9\<rparr>)
     (demo_world [] (fake_server [(''db/'' @ demo_name, ''x'')] [Lost, Lost, Lost]))))))"
proof -
  let ?e = "\<lparr>gn_generation = 1, gn_name = demo_name, gn_size = 9\<rparr>"
  let ?w = "demo_world [] (fake_server [(''db/'' @ demo_name, ''x'')] [Lost, Lost, Lost])"
  have "length (generations_render ([] @ [?e])) \<le> MAX_BACKUP_MANIFEST_BYTES"
    by (simp add: generations_render_def render_generation_def MAX_BACKUP_MANIFEST_BYTES_def demo_name_def
        show_word_def show_nat.simps)
  moreover have "lost_env (fake_bk (w_env ?w)) [Lost, Lost, Lost] ?w"
    by (simp add: lost_env_def demo_world_def fake_server_def)
  moreover have "sound_bucket demo_backup (fake_bk (w_env ?w))"
    using demo_name_ok demo_manifest_key
    by (auto simp: sound_bucket_def dumps_ok_def fake_bk_def demo_world_def fake_server_def demo_name_def demo_prefix)
  ultimately show ?thesis
    using demo_name_ok
    by (intro lost_manifest_answer_deletes_named_dump [where es' = "[]" and ev = "[]" and b = "fake_bk (w_env ?w)"])
      (auto simp: fake_bk_def demo_world_def fake_server_def demo_prefix retain_def push_generation_def
        demo_keep generations_ok_def ascending_def names_live_def demo_name_def)
qed

text \<open>C4: the backup manifest reads back exactly as it was written, for every history in ascending order
  whose names have no white space.\<close>

theorem backup_manifest_reads_back:
  assumes "ascending es" "\<And>e. e \<in> set es \<Longrightarrow> field_ok (gn_name e)"
  shows "generations_parse (generations_render es) = Inr es"
  by (rule generations_round_trip) (use assms in \<open>simp add: generations_ok_def list_all_iff\<close>)

theorem backup_manifest_reads_back_witness:
  "let es = [\<lparr>gn_generation = 2, gn_name = ''sqlite-a.sqlite3'', gn_size = 5\<rparr>,
      \<lparr>gn_generation = 7, gn_name = ''sqlite-b.sqlite3'', gn_size = 0\<rparr>] in
   generations_parse (generations_render es) = Inr es"
  unfolding Let_def
  by (rule backup_manifest_reads_back)
    (auto simp: ascending_def field_ok_def find_seq_def ws_seqs_def)

text \<open>C5: whatever text the bucket serves as the backup manifest, what the parser accepts has strictly
  ascending generations from 1 on and no name twice; the next generation is above all of them, and
  retention keeps the newest \<open>keep\<close> of them, in order, and evicts exactly the others.\<close>

theorem accepted_manifest_is_a_history:
  assumes "generations_parse text = Inr es" "retain keep es = (kept, evicted)"
  shows "ascending es \<and> es = evicted @ kept \<and> length kept = min keep (length es) \<and>
    (next_generation es = Some g \<longrightarrow> (\<forall>e \<in> set es. unat (gn_generation e) < unat g))"
proof (intro conjI)
  show a: "ascending es"
    by (rule generations_parse_ascending [OF assms(1)])
  from retain_split [OF assms(2)] show "es = evicted @ kept" by simp
  from assms(2) show "length kept = min keep (length es)"
    by (auto simp: retain_def split: if_splits)
  show "next_generation es = Some g \<longrightarrow> (\<forall>e \<in> set es. unat (gn_generation e) < unat g)"
  proof (intro impI ballI)
    fix e assume "next_generation es = Some g" "e \<in> set es"
    with ascending_latest [OF a, of e] next_generation_greater [of es g]
    show "unat (gn_generation e) < unat g"
      by (simp add: word_less_nat_alt word_le_nat_alt)
  qed
qed

theorem accepted_manifest_is_a_history_witness:
  "let es = [\<lparr>gn_generation = 2, gn_name = ''a'', gn_size = 5\<rparr>, \<lparr>gn_generation = 7, gn_name = ''b'', gn_size = 0\<rparr>] in
   ascending es \<and> es = take 1 es @ drop 1 es \<and> (\<forall>e \<in> set es. unat (gn_generation e) < unat (8 :: u64))"
proof -
  let ?es = "[\<lparr>gn_generation = 2, gn_name = ''a'', gn_size = 5\<rparr>, \<lparr>gn_generation = 7, gn_name = ''b'', gn_size = 0\<rparr>]"
  have p: "generations_parse (generations_render ?es) = Inr ?es"
    by (rule generations_round_trip) (simp add: generations_ok_def ascending_def field_ok_def find_seq_def ws_seqs_def)
  have r: "retain 1 ?es = (drop 1 ?es, take 1 ?es)"
    by (simp add: retain_def)
  have n: "next_generation ?es = Some 8"
    by (simp add: next_generation_def latest_def checked_inc_def)
  show ?thesis
    unfolding Let_def
    using accepted_manifest_is_a_history [OF p r, of 8] n by simp
qed

section \<open>The boot-time restore\<close>

text \<open>C6: a live database that holds tables, or whose tables cannot be counted, survives the boot-time
  restore together with its write-ahead log, whatever the bucket serves and whatever fails, as long
  as the existence checks answer.\<close>

theorem restore_never_overwrites_data:
  assumes "file_at w (bc_db_path cfg) = Some x" "holds_tables tt x (file_at w (bc_db_path cfg @ ''-wal''))"
    and "w_stat w = []" "bc_db_path cfg \<notin> below (bc_staging cfg)"
  shows "let v = snd (run_state (restore_if_empty tt cfg abort) w) in
    file_at v (bc_db_path cfg) = Some x \<and> file_at v (bc_db_path cfg @ ''-wal'') = file_at w (bc_db_path cfg @ ''-wal'')"
  using preserves_snd [OF restore_kept [OF assms(2,4)], of w abort] assms(1,3)
  by (simp add: db_kept_def Let_def)

lemma demo_db_apart: "bc_db_path demo_backup \<notin> below (bc_staging demo_backup)"
  by (simp add: demo_backup_def below_def)

theorem restore_never_overwrites_data_witness:
  "map_option f_data (file_at (snd (run_state (restore_if_empty fake_tools demo_backup fake_abort)
     (demo_world [(''/data/db.sqlite3'', ''x'')] (fake_server [(''db/'' @ demo_name, ''old'')] []))))
     ''/data/db.sqlite3'') = Some ''x''"
  using restore_never_overwrites_data [where tt = fake_tools and cfg = demo_backup and abort = fake_abort and
      w = "demo_world [(''/data/db.sqlite3'', ''x'')] (fake_server [(''db/'' @ demo_name, ''old'')] [])", OF _ _ _ demo_db_apart]
  by (simp add: demo_world_def demo_backup_def holds_tables_def fake_tools_def Let_def)

text \<open>A restore that reports success has published a private database that passed the integrity check;
  one that fails or is interrupted leaves the live path as it was or empty, never a candidate that
  did not pass.\<close>

lemma restored_database_is_verified:
  assumes "bc_db_path cfg \<notin> below (bc_staging cfg)" "bc_db_path cfg \<noteq> sidecar_path (bc_db_path cfg)"
  shows "case run_state (restore_first tt (client_store dp cl) cfg abort cs) w of (r, v) \<Rightarrow>
    if r = Ready then verified tt (file_at v (bc_db_path cfg))
    else file_at v (bc_db_path cfg) = file_at w (bc_db_path cfg) \<or> file_at v (bc_db_path cfg) = None"
proof (cases "run_state (restore_first tt (client_store dp cl) cfg abort cs) w")
  case (Pair r v)
  have "restored tt (bc_db_path cfg) (file_at w (bc_db_path cfg)) (r = Ready) v"
    by (rule hoareD [OF restore_first_ok [OF assms] _ Pair]) (simp add: as_before_def)
  then have "if r = Ready then verified tt (file_at v (bc_db_path cfg)) else as_before (file_at w (bc_db_path cfg)) (file_at v (bc_db_path cfg))"
    by (simp only: restored_def)
  with Pair show ?thesis
    by (auto simp only: as_before_def prod.case split: if_splits)
qed

lemma restored_database_is_verified_witness:
  "case run_state (restore_first fake_tools (client_store (fake_deps (\<lambda>d. d)) demo_client) demo_backup fake_abort
       [\<lparr>cd_key = ''db/a'', cd_size = 3, cd_generation = Some 1\<rparr>])
       (demo_world [] (fake_server [(''db/a'', ''old'')] [])) of (r, v) \<Rightarrow>
     if r = Ready then verified fake_tools (file_at v ''/data/db.sqlite3'')
     else file_at v ''/data/db.sqlite3'' = None"
proof -
  have db: "bc_db_path demo_backup = ''/data/db.sqlite3''"
    by (simp add: demo_backup_def)
  have "bc_db_path demo_backup \<noteq> sidecar_path (bc_db_path demo_backup)"
    unfolding demo_sidecar by (simp add: db)
  from restored_database_is_verified [OF demo_db_apart this, where tt = fake_tools and dp = "fake_deps (\<lambda>d. d)"
      and cl = demo_client and abort = fake_abort and cs = "[\<lparr>cd_key = ''db/a'', cd_size = 3, cd_generation = Some 1\<rparr>]"
      and w = "demo_world [] (fake_server [(''db/a'', ''old'')] [])"]
  show ?thesis
    by (auto simp: db demo_world_def split: prod.splits if_splits)
qed



text \<open>C8: when the existence check inside the emptiness test fails after the outer one succeeded, the import
  removes the live database whatever it holds, and reports the path as clear.\<close>

theorem failed_stat_clears_live_database:
  assumes "w_stat w = [False, True]" "w_faults w = []" "file_at w p = Some x"
  shows "fst (run_state (clear_live tt p) w) = Inr () \<and> file_at (snd (run_state (clear_live tt p) w)) p = None"
  using clear_live_removes [OF assms] by simp

theorem failed_stat_clears_live_database_witness:
  "let w = (demo_world [(''/data/db.sqlite3'', ''tables'')] (fake_server [] []))\<lparr>w_stat := [False, True]\<rparr> in
   file_at (snd (run_state (clear_live fake_tools ''/data/db.sqlite3'') w)) ''/data/db.sqlite3'' = None"
  unfolding Let_def
  by (rule failed_stat_clears_live_database [THEN conjunct2]) (simp_all add: demo_world_def)

text \<open>C9: backup and restore together, whatever fails in either: if the bucket holds complete dumps of the
  databases \<open>D\<close> only, and the live database is one of \<open>D\<close>, then after a cycle a restore on any machine
  that reports success leaves the database there as it was, or is a complete dump of a database of \<open>D\<close>
  that passed the integrity check. No torn, foreign or half-uploaded file is ever restored.\<close>

theorem restored_database_was_backed_up:
  assumes "serves_objects (tl_deps tt) (bc_sync cfg) bk up after" "quiet bk abort" "quiet up abort" "quiet_tools bk tt"
    and "vacuum_writes tt" "0 < bc_keep cfg"
    and "bc_db_path cfg \<notin> below (bc_staging cfg)" "bc_db_path cfg @ ''-wal'' \<notin> below (bc_staging cfg)"
      "bc_db_path cfg \<noteq> sidecar_path (bc_db_path cfg)"
    and "sound_bucket cfg (bk (w_env w))" "fresh_stamps tt cfg bk (bk (w_env w))"
    and "snapshots tt D cfg (bk (w_env w))" "live_in D (bc_db_path cfg) w"
    and "bk (w_env u) = bk (w_env (snd (run_state (tick tt cfg abort) w)))" "absent (below (restore_part cfg)) u"
  shows "case run_state (restore_if_empty tt cfg abort) u of (r, v) \<Rightarrow>
    r \<noteq> Ready \<or> data_at v (bc_db_path cfg) = data_at u (bc_db_path cfg) \<or>
    (\<exists>d. data_at v (bc_db_path cfg) = Some d \<and> dump_of tt D d \<and> accepts_dump tt d)"
proof -
  let ?b = "bk (w_env u)"
  note served = reader_served [OF assms(1)]
  have "cycle_end cfg ?b"
    unfolding assms(14) by (rule hoare_snd [OF tick_bucket_ok [OF served assms(2-4,6,10,11)]]) simp
  moreover have "snapshots tt D cfg ?b"
    unfolding assms(14) by (rule hoare_snd [OF tick_snapshots [OF served assms(2-5,7,8)]]) (simp add: assms)
  ultimately have dump: "restorable tt cfg ?b d \<Longrightarrow> dump_of tt D d \<and> accepts_dump tt d" for d
    using restorable_snapshot restorable_accepted by blast
  show ?thesis
  proof (cases "run_state (restore_if_empty tt cfg abort) u")
    case (Pair r v)
    with hoareD [OF restore_source [OF assms(1-4,7,9), where b = ?b and x = "data_at u (bc_db_path cfg)"] _ Pair] assms(15) dump
    show ?thesis
      by auto
  qed
qed

theorem restored_database_was_backed_up_witness:
  "case run_state (restore_if_empty fake_tools demo_backup fake_abort)
       (demo_world [(''/data/db-backups/other'', ''torn'')]
         (w_env (snd (run_state (tick fake_tools demo_backup fake_abort)
           (demo_world [(''/data/db.sqlite3'', ''x'')] (fake_server [] [Served, Lost, Refused])))))) of (r, v) \<Rightarrow>
     r = Ready \<longrightarrow> data_at v ''/data/db.sqlite3'' = None \<or> data_at v ''/data/db.sqlite3'' = Some ''x''"
proof -
  let ?w = "demo_world [(''/data/db.sqlite3'', ''x'')] (fake_server [] [Served, Lost, Refused])"
  let ?D = "{(''x'', None)}"
  let ?u = "demo_world [(''/data/db-backups/other'', ''torn'')] (w_env (snd (run_state (tick fake_tools demo_backup fake_abort) ?w)))"
  have db: "bc_db_path demo_backup = ''/data/db.sqlite3''"
    by (simp add: demo_backup_def)
  have side: "bc_db_path demo_backup \<noteq> sidecar_path (bc_db_path demo_backup)"
    unfolding demo_sidecar by (simp add: db)
  have serves: "serves_objects (tl_deps fake_tools) (bc_sync demo_backup) fake_bk fake_up fake_after"
    by (simp add: serves_objects_def fake_tools_deps fake_reader.s3_reader_axioms)
  have vac: "vacuum_writes fake_tools"
    by (simp add: vacuum_writes_def fake_tools_def)
  have only: "dump_of fake_tools ?D d \<Longrightarrow> d = ''x''" for d
    by (simp add: dump_of_def fake_tools_def)
  have none: "data_at ?u ''/data/db.sqlite3'' = None"
    by (simp add: data_at_def demo_world_def)
  have wal: "bc_db_path demo_backup @ ''-wal'' \<notin> below (bc_staging demo_backup)"
    by (simp add: demo_backup_def below_def)
  have env: "fake_bk (w_env ?w) = (\<lambda>_. None)"
    by (simp add: demo_world_def fake_server_def fake_bk_def fun_eq_iff)
  have sound: "sound_bucket demo_backup (fake_bk (w_env ?w))"
    by (simp add: env sound_bucket_def dumps_ok_def)
  have fresh: "fresh_stamps fake_tools demo_backup fake_bk (fake_bk (w_env ?w))"
    by (rule demo_fresh) (simp add: env)
  have snap: "snapshots fake_tools ?D demo_backup (fake_bk (w_env ?w))"
    by (simp add: env snapshots_def)
  have live: "live_in ?D (bc_db_path demo_backup) ?w"
    by (simp add: live_in_def data_at_def demo_world_def db)
  have bucket: "fake_bk (w_env ?u) = fake_bk (w_env (snd (run_state (tick fake_tools demo_backup fake_abort) ?w)))"
    by (simp add: demo_world_def)
  have absent: "absent (below (restore_part demo_backup)) ?u"
    by (auto simp: absent_def demo_world_def below_def restore_staged_def part_of_def db_label_def demo_backup_def prefix_def)
  have keep: "0 < bc_keep demo_backup"
    by (simp add: demo_keep)
  from restored_database_was_backed_up [OF serves fake_quiet(1,2,3) vac keep demo_db_apart wal side sound fresh snap live bucket absent]
  show ?thesis
    unfolding db none by (auto dest: only split: prod.splits)
qed

text \<open>C10: when nothing fails, the whole path works: the cycle publishes the dump \<open>d\<close> of the live database as
  the generation \<open>e\<close>, and a boot on an empty volume then ends ready, with \<open>d\<close>, byte for byte and
  owner-only, as its database, and with that generation recorded as its lineage, so that its own
  cycles may follow. Dumps below the multipart threshold are covered.\<close>

theorem restore_brings_back_the_backup:
  assumes "serves_steadily (tl_deps tt) (bc_sync cfg) bk G" "places_apart cfg" "bc_restore cfg" "0 < bc_keep cfg"
    and "settled G bk abort False" "settled G bk (tl_integrity tt d) ''ok''"
    and "cycle_ready G bk tt cfg b F es e d ts" "\<forall>x \<in> set es. utf8_ok (gn_name x)" "utf8_ok (gn_name e)"
    and "fresh_name_for cfg b (gn_name e)" "names_live cfg b es"
    and "\<not> dir_in E (bc_staging cfg)" "E (bc_db_path cfg) = None" "\<not> dir_in E (bc_db_path cfg)"
    and "steady G bk t b F w" "steady G bk t' (bk (w_env (snd (run_state (tick tt cfg abort) w)))) E u"
  shows "case run_state (restore_if_empty tt cfg abort) u of (r, v) \<Rightarrow>
    r = Ready \<and> file_at v (bc_db_path cfg) = Some (downloaded t' d) \<and>
    data_at v (sidecar_path (bc_db_path cfg)) = Some (show_word (gn_generation e) @ [NL])"
proof -
  obtain v where v: "run_state (restore_if_empty tt cfg abort) u = (Ready, v)"
      "steady G bk t' (bk (w_env u)) (restored_disk cfg t' d (gn_generation e) E) v"
    using backup_then_restore [OF assms] by blast
  then have "bt_get (w_fs v) = restored_disk cfg t' d (gn_generation e) E"
    by (simp add: steady_def)
  moreover have "bc_db_path cfg \<noteq> sidecar_path (bc_db_path cfg)"
    using assms(2) by (simp add: places_apart_def)
  ultimately show ?thesis
    by (simp add: v(1) data_at_def restored_disk_def downloaded_def)
qed

theorem restore_brings_back_the_backup_witness:
  "let v = snd (run_state (tick fake_tools demo_backup fake_abort)
       (demo_world [(''/data/db.sqlite3'', ''x'')] (fake_server [] []))) in
   case run_state (restore_if_empty fake_tools demo_backup fake_abort) (demo_world [] (w_env v)) of (r, x) \<Rightarrow>
     r = Ready \<and> data_at x ''/data/db.sqlite3'' = Some ''x''"
proof -
  let ?w = "demo_world [(''/data/db.sqlite3'', ''x'')] (fake_server [] [])"
  let ?v = "snd (run_state (tick fake_tools demo_backup fake_abort) ?w)"
  have u: "steady fake_steady fake_bk 2 (fake_bk (w_env ?v)) (\<lambda>_. None) (demo_world [] (w_env ?v))"
    using demo_ticked by (simp add: steady_def demo_world_def fun_eq_iff)
  note brings = restore_brings_back_the_backup [OF demo_serves demo_places demo_restores demo_kept demo_calm demo_integrity
      demo_ready [of "fake_server [] []"] _ demo_entry_text demo_entry_fresh _ _ _ _ demo_steady u]
  have "case run_state (restore_if_empty fake_tools demo_backup fake_abort) (demo_world [] (w_env ?v)) of (r, x) \<Rightarrow>
    r = Ready \<and> file_at x (bc_db_path demo_backup) = Some (downloaded 2 ''x'') \<and>
    data_at x (sidecar_path (bc_db_path demo_backup)) = Some (show_word (gn_generation demo_entry) @ [NL])"
    by (rule brings) (simp_all add: names_live_def dir_in_def)
  then show ?thesis
    unfolding Let_def by (auto simp: data_at_def demo_backup_def downloaded_def split: prod.splits)
qed

section \<open>The S3 client\<close>

text \<open>C11: a download either succeeds, and the target then holds content of the expected size and digest,
  or fails, and the target is as it was; no other file but its \<open>.part\<close> sibling changes. This holds for
  every server, fault schedule and abort check.\<close>

theorem download_publishes_verified_content:
  "case run_state (s3_get dp cl key path ex abort) w of (r, v) \<Rightarrow>
     (case r of Inr _ \<Rightarrow> meets dp ex (file_at v path) | Inl _ \<Rightarrow> file_at v path = file_at w path) \<and>
     {q. file_at v q \<noteq> file_at w q} \<subseteq> {path, part_of path}"
proof (cases "run_state (s3_get dp cl key path ex abort) w")
  case (Pair r v)
  have "{q. file_at v q \<noteq> file_at w q} \<subseteq> {path, part_of path}"
    using framedD [OF framed_get Pair] by (auto simp: frame_def)
  moreover have "on_ok (\<lambda>_ w. meets dp ex (file_at w path)) r v"
    by (rule hoareD [OF s3_get_ok _ Pair]) simp
  moreover have "on_err (on_file path (\<lambda>x. x = file_at w path)) r v"
    by (rule hoareD [OF s3_get_err _ Pair]) simp
  ultimately show ?thesis
    using Pair by (auto split: sum.splits)
qed



lemma retry_bound:
  fixes sent :: "'e world \<Rightarrow> nat"
  assumes "\<And>v. sent (snd (run_state request v)) \<le> sent v + 1"
    and "\<And>v. sent (snd (run_state (env_op (d_millis dp)) v)) = sent v"
    and "\<And>n v. sent (snd (run_state (env_op (d_sleep dp n)) v)) = sent v"
  shows "sent (snd (run_state (retrying_from dp n request) w)) \<le> sent w + n + 1"
proof (induction n arbitrary: w)
  case 0
  show ?case using assms(1) by simp
next
  case (Suc n)
  obtain r v where rv: "run_state request w = (r, v)" by fastforce
  obtain ms u where ms: "run_state (env_op (d_millis dp)) v = (ms, u)" by fastforce
  obtain z t where t: "run_state (env_op (d_sleep dp (backoff (RETRY_ATTEMPTS - Suc n) ms))) u = (z, t)"
    by (cases "run_state (env_op (d_sleep dp (backoff (RETRY_ATTEMPTS - Suc n) ms))) u")
  have "sent v \<le> sent w + 1" "sent u = sent v" "sent t = sent u"
    using assms(1) [of w] assms(2) [of v] assms(3) [of "backoff (RETRY_ATTEMPTS - Suc n) ms" u] rv ms t by simp_all
  with Suc.IH [of t] rv ms t show ?case
    by (cases r) auto
qed

text \<open>A retried request is sent at most three times, whatever the server answers, provided that
  sleeping and reading the clock send none.\<close>

lemma at_most_three_requests:
  fixes sent :: "'e world \<Rightarrow> nat"
  assumes "\<And>v. sent (snd (run_state request v)) \<le> sent v + 1"
    and "\<And>v. sent (snd (run_state (env_op (d_millis dp)) v)) = sent v"
    and "\<And>n v. sent (snd (run_state (env_op (d_sleep dp n)) v)) = sent v"
  shows "sent (snd (run_state (retrying dp request) w)) \<le> sent w + 3"
  using retry_bound [of sent request dp "RETRY_ATTEMPTS - 1" w, OF assms]
  by (simp add: retrying_def RETRY_ATTEMPTS_def)

lemma at_most_three_requests_witness:
  "let request = env_op (\<lambda>e. (Inl Transport :: ureq_error + unit, e\<lparr>fk_parts := ((''u'', 1), (''t'', [])) # fk_parts e\<rparr>)) in
   length (fk_parts (w_env (snd (run_state (retrying (fake_deps (\<lambda>d. d)) request) (demo_world [] (fake_server [] []))))))
     \<le> length (fk_parts (fake_server [] [])) + 3"
proof -
  let ?w = "demo_world [] (fake_server [] [])"
  have "length (fk_parts (fake_server [] [])) = length (fk_parts (w_env ?w))"
    by (simp add: demo_world_def)
  then show ?thesis
    unfolding Let_def
    by (simp only: , intro at_most_three_requests [where sent = "\<lambda>w. length (fk_parts (w_env w))"])
      (simp_all add: env_op_def fake_deps_def)
qed



section \<open>The state sync\<close>

text \<open>C14: restoring at boot never changes a file that exists: only \<open>.part\<close> files and the repair list are
  rewritten. This holds whatever the bucket serves and whatever fails, as long as the existence
  checks themselves answer.\<close>

theorem restore_keeps_existing_files:
  assumes "file_at w q = Some x" "w_stat w = []" "\<not> suffix ''.part'' q" "q \<noteq> repair_path ''/data''"
  shows "file_at (snd (run_state (restore_state dp cfg abort) w)) q = Some x"
  using preserves_snd [OF restore_stays [OF assms(3,4)], of x w dp cfg abort] assms(1,2)
  by (simp add: stays_def)

theorem restore_keeps_existing_files_witness:
  "map_option f_data (file_at (snd (run_state (restore_state (fake_deps (\<lambda>d. d)) demo_sync fake_abort)
     (demo_world [(''/data/attachments/a'', ''new'')] (fake_server [(''attachments/a'', ''old'')] []))))
     ''/data/attachments/a'') = Some ''new''"
  using restore_keeps_existing_files [where w = "demo_world [(''/data/attachments/a'', ''new'')] (fake_server [(''attachments/a'', ''old'')] [])"
      and q = "''/data/attachments/a''" and dp = "fake_deps (\<lambda>d. d)" and cfg = demo_sync and abort = fake_abort]
  by (simp add: demo_world_def repair_path_def join_def suffix_def)

text \<open>C15: restoring writes nothing but members of the durable set below the data directory, their temp
  files and the repair list, even if the bucket's manifest or listing names other paths.\<close>

theorem restore_writes_only_synced_files:
  assumes "q \<notin> may_write cfg"
  shows "file_at (snd (run_state (restore_state dp cfg abort) w)) q = file_at w q"
  using assms framedD [OF restore_framed, of dp cfg abort w] by (cases "run_state (restore_state dp cfg abort) w") (auto simp: frame_def)

lemma etc_not_written: "''/etc/passwd'' \<notin> may_write cfg"
  by (auto simp: may_write_def parts_def repair_path_def join_def suffix_def dest: synced_shape)

theorem restore_writes_only_synced_files_witness:
  "file_at (snd (run_state (restore_state (fake_deps (\<lambda>d. d)) demo_sync fake_abort)
     (demo_world [] (fake_server [(''/etc/passwd'', ''x'')] [])))) ''/etc/passwd'' = None"
  using restore_writes_only_synced_files [OF etc_not_written, of "fake_deps (\<lambda>d. d)" demo_sync fake_abort
      "demo_world [] (fake_server [(''/etc/passwd'', ''x'')] [])"]
  by (simp add: demo_world_def)

text \<open>C16: a file the restore reports as pulled belongs to the durable set and holds content of the size and
  digest its target names, whichever of its two keys it came from.\<close>

theorem pulled_file_is_verified:
  "case run_state (pull_one (client_store dp cl) cfg root abort t) w of
     (Pulled, v) \<Rightarrow> is_synced_file (tg_rel t) (sc_state_file cfg) \<and>
        meets dp (expect_of (tg_size t) (tg_sha256 t)) (file_at v (join root (tg_rel t)))
   | (Kept, v) \<Rightarrow> w_fs v = w_fs w
   | (PullFailed, v) \<Rightarrow> True"
proof (cases "run_state (pull_one (client_store dp cl) cfg root abort t) w")
  case (Pair p v)
  have "w_fs v = w_fs w" if "p = Kept"
    using Pair that by (auto simp: pull_one_def should_pull_def fs_exists_def split: if_splits prod.splits sum.splits list.splits)
  with hoareD [OF pull_one_ok _ Pair] Pair show ?thesis
    by (cases p) auto
qed

text \<open>C17: a file pulled without a digest to check it against (a bucket without a manifest) is, byte for byte, the
  bucket's object, over a service that serves its objects and when no temp file lies at the target.\<close>

theorem pulled_file_is_the_object:
  assumes "s3_reader dp cl bk up after" "quiet bk abort" "quiet up abort" "tg_sha256 tg = None"
    and "file_at w (part_of (join root (tg_rel tg))) = None"
  shows "case run_state (pull_one (client_store dp cl) cfg root abort tg) w of (r, v) \<Rightarrow>
    r \<noteq> Pulled \<or> bk (w_env w) (legacy_key cfg tg) \<noteq> None \<and>
      data_at v (join root (tg_rel tg)) = bk (w_env w) (legacy_key cfg tg)"
proof (cases "run_state (pull_one (client_store dp cl) cfg root abort tg) w")
  case (Pair r v)
  have calm: "s3_service.calm bk up abort"
    using assms(2,3) by (simp add: calm_quiet [OF s3_reader.axioms(1) [OF assms(1)]])
  from hoareD [OF s3_reader.pull_brings_object [OF assms(1) calm assms(4)] _ Pair] assms(5) show ?thesis
    unfolding Pair prod.case by blast
qed

theorem pulled_file_is_the_object_witness:
  "case run_state (pull_one (client_store (fake_deps (\<lambda>d. d)) demo_client) demo_sync ''/data'' fake_abort
       \<lparr>tg_rel = ''rsa_key'', tg_size = Some 3, tg_sha256 = None\<rparr>)
       (demo_world [] (fake_server [(''rsa_key'', ''pem'')] [])) of (r, v) \<Rightarrow>
     r \<noteq> Pulled \<or> data_at v ''/data/rsa_key'' = Some ''pem''"
proof -
  have key: "legacy_key demo_sync \<lparr>tg_rel = ''rsa_key'', tg_size = Some 3, tg_sha256 = None\<rparr> = ''rsa_key''"
    by (simp add: legacy_key_def sync_prefix_def demo_sync_def demo_remote_def)
  have local: "join ''/data'' ''rsa_key'' = ''/data/rsa_key''"
    by (simp add: join_def)
  have obj: "fake_bk (w_env (demo_world [] (fake_server [(''rsa_key'', ''pem'')] []))) ''rsa_key'' = Some ''pem''"
    by (simp add: demo_world_def fake_server_def fake_bk_def)
  from pulled_file_is_the_object [where dp = "fake_deps (\<lambda>d. d)" and cl = demo_client and root = "''/data''" and cfg = demo_sync
      and tg = "\<lparr>tg_rel = ''rsa_key'', tg_size = Some 3, tg_sha256 = None\<rparr>"
      and w = "demo_world [] (fake_server [(''rsa_key'', ''pem'')] [])", OF fake_reader.s3_reader_axioms fake_quiet(1,2)]
  show ?thesis
    unfolding key obj by (auto simp: demo_world_def local split: prod.splits)
qed

text \<open>C18: the clearing of stale temp files at boot misses one that lies neither in the data root nor in a tree, as
  a nested state file (\<open>TAILSCALE_STATE=/data/ts/state\<close>) leaves it. Without a digest to check, the pull
  resumes it: the restored file is the stale bytes followed by the tail of the bucket's object.\<close>

theorem stale_part_becomes_the_file:
  assumes "steady G bk t b F w" "settled G bk abort False"
    and "tg_rel tg = k @ ''/'' @ name" "CHR ''/'' \<notin> set k" "k \<notin> set TREES"
    and "is_synced_file (tg_rel tg) (sc_state_file cfg)" "tg_sha256 tg = None" "tg_size tg = Some (length d)"
    and "b (legacy_key cfg tg) = Some d" "length d \<le> MAX_SYNC_OBJECT_BYTES"
    and "answers_range dp cl G bk (legacy_key cfg tg) (length (f_data x))"
    and "F (''/data/'' @ tg_rel tg) = None" "\<not> dir_in F (''/data/'' @ tg_rel tg)"
    and "F (part_of (''/data/'' @ tg_rel tg)) = Some x" "f_data x \<noteq> []" "length (f_data x) < length d"
  shows "case run_state (do { clear_partials ''/data''; pull_one (client_store dp cl) cfg ''/data'' abort tg }) w of (r, v) \<Rightarrow>
    r = Pulled \<and> data_at v (''/data/'' @ tg_rel tg) = Some (f_data x @ drop (length (f_data x)) d)"
proof -
  let ?p = "''/data/'' @ tg_rel tg"
  have p: "?p = join ''/data'' (tg_rel tg)" "?p \<in> below (''/data/'' @ k)"
    using synced_join [OF assms(6), of "''/data''"] by (simp_all add: below_def assms(3))
  obtain n u where u: "run_state (clear_partials ''/data'') w = (n, u)"
    by (cases "run_state (clear_partials ''/data'') w")
  obtain E where E: "steady G bk t b E u" "E ?p = None" "\<not> dir_in E ?p" "E (part_of ?p) = Some x"
    using clear_partials_misses [OF assms(4,5) p(2) assms(1,12,13) u] unfolding assms(14) by blast
  note pull = resumed_pull [where F = E and p = ?p and b = b and d = d and root = "''/data''", OF assms(2,6-11) E(2-4) p(1) assms(15,16)]
  from leadsD [OF pull, OF E(1)] obtain v where "run_state (pull_one (client_store dp cl) cfg ''/data'' abort tg) u = (Pulled, v)"
      "bt_get (w_fs v) = E(part_of ?p := None, ?p \<mapsto> grown t x (drop (length (f_data x)) d))"
    unfolding steady_def by blast
  then show ?thesis
    by (simp add: u data_at_def)
qed

theorem stale_part_becomes_the_file_witness:
  "data_at (snd (run_state (do { clear_partials ''/data'';
       pull_one (client_store ranged_deps demo_client) nested_sync ''/data'' fake_abort
         \<lparr>tg_rel = ''ts/state'', tg_size = Some 5, tg_sha256 = None\<rparr> })
       (demo_world [(''/data/ts/state.part'', ''old'')] (fake_server [(''ts/state'', ''ident'')] [])))) ''/data/ts/state'' = Some ''oldnt''"
proof -
  let ?w = "demo_world [(''/data/ts/state.part'', ''old'')] (fake_server [(''ts/state'', ''ident'')] [])"
  let ?t = "\<lparr>tg_rel = ''ts/state'', tg_size = Some 5, tg_sha256 = None\<rparr>"
  have w: "steady fake_steady fake_bk 2 (fake_bk (w_env ?w)) (bt_get (w_fs ?w)) ?w"
    by (simp add: steady_def demo_world_def fake_server_def fake_steady_def)
  have obj: "fake_bk (w_env ?w) ''ts/state'' = Some ''ident''"
    by (simp add: demo_world_def fake_server_def fake_bk_def)
  have synced: "is_synced_file ''ts/state'' (sc_state_file nested_sync)"
    by (simp add: nested_sync_def) code_simp
  have dir: "\<not> dir_in (bt_get (w_fs ?w)) ''/data/ts/state''"
    by (auto simp: dir_in_def demo_world_def prefix_def)
  from stale_part_becomes_the_file [OF w demo_calm, where tg = ?t and k = "''ts''" and name = "''state''" and d = "''ident''"
      and cfg = nested_sync and dp = ranged_deps and cl = demo_client
      and x = "\<lparr>f_data = ''old'', f_private = True, f_mtime = 1, f_ctime = 1\<rparr>"]
  show ?thesis
    using synced dir ranged_answers obj
    by (simp add: nested_key TREES_def MAX_SYNC_OBJECT_BYTES_def part_of_def demo_world_def split: prod.splits)
qed

text \<open>C19: the sync manifest reads back exactly as it was written, for all entries whose names a line can
  carry.\<close>

theorem sync_manifest_reads_back:
  assumes "manifest_ok m"
  shows "manifest_parse (manifest_render m) = Inr m"
  by (rule manifest_round_trip [OF assms])

lemma demo_entry_ok: "entry_ok \<lparr>en_size = n, en_sha256 = replicate 64 (CHR ''a'')\<rparr>"
  by (simp add: entry_ok_def sha_ok_def list_all_iff is_hex_def less_eq_char_def ascii_lower_def)

theorem sync_manifest_reads_back_witness:
  "let m = [(''attachments/x'', \<lparr>en_size = 3, en_sha256 = replicate 64 (CHR ''a'')\<rparr>),
      (''rsa_key.pem'', \<lparr>en_size = 0, en_sha256 = replicate 64 (CHR ''a'')\<rparr>)] in
   manifest_parse (manifest_render m) = Inr m"
  unfolding Let_def
  by (rule sync_manifest_reads_back)
    (simp add: manifest_ok_def bt_ok_def demo_entry_ok name_ok_def trim_end_def trim_seqs.simps
      find_seq_def ws_seqs_def del: replicate.simps)

text \<open>C20: a name with a line break in it can belong to the durable set, and the manifest that names it is
  one the next pull cannot read back.\<close>

theorem newline_name_breaks_manifest:
  assumes "entry_ok e"
  shows "is_synced_file (''attachments/a'' @ NL # ''b'') None \<and>
    manifest_parse (manifest_render [(''attachments/a'' @ NL # ''b'', e)]) = Inl MissingFields"
proof (rule conjI)
  show "is_synced_file (''attachments/a'' @ NL # ''b'') None"
    by code_simp
  have "name_ok ''attachments/a''" "trim_end ''b'' = ''b''"
    by (simp_all add: name_ok_def trim_end_def trim_seqs.simps find_seq_def ws_seqs_def)
  then show "manifest_parse (manifest_render [(''attachments/a'' @ NL # ''b'', e)]) = Inl MissingFields"
    using assms by (intro broken_name_rejected) simp_all
qed

theorem newline_name_breaks_manifest_witness:
  "let e = \<lparr>en_size = 3, en_sha256 = replicate 64 (CHR ''a'')\<rparr> in
   manifest_parse (manifest_render [(''attachments/a'' @ NL # ''b'', e)]) = Inl MissingFields"
  unfolding Let_def
  by (rule newline_name_breaks_manifest [THEN conjunct2]) (simp add: demo_entry_ok)

text \<open>What a sync run uploads is a sorted list of members of the durable set, none of which leaves the
  data directory; enumerating them changes nothing.\<close>

lemma local_files_are_synced:
  "case run_state (local_synced_files root st) w of (fs, v) \<Rightarrow>
     sorted fs \<and> list_all (\<lambda>f. is_synced_file f st \<and> join root f = root @ ''/'' @ f \<and> \<not> contains_str ''..'' f) fs \<and>
     {q. file_at v q \<noteq> file_at w q} = {} \<and> w_env v = w_env w"
proof (cases "run_state (local_synced_files root st) w")
  case (Pair fs v)
  have "sorted fs \<and> (\<forall>f \<in> set fs. is_synced_file f st)"
    by (rule hoareD [OF local_synced_files_set _ Pair]) simp
  moreover have "w_env v = w_env w \<and> (\<forall>q. q \<notin> {} \<longrightarrow> file_at v q = file_at w q)"
    by (rule local_opD [OF local_op_local_synced_files Pair])
  ultimately show ?thesis
    using Pair by (auto simp: list_all_iff synced_join dest: synced_shape)
qed

section \<open>Configuration\<close>

text \<open>C21: a configuration that is not refused has a usable service port, and a vault port next to it
  exactly when there is a port left; it has something to run (Tailscale or a sync), an absolute or
  in-memory Tailscale state, and within-bounds sync and backup settings.\<close>

theorem built_configuration_is_usable:
  assumes "build file lookup = Some c"
  shows "(\<exists>p. parse_u16 (cf_port c) = Some p \<and> p \<noteq> 0 \<and>
      cf_vault_port c = (if p = - 1 then None else Some (show_word (p + 1)))) \<and>
    (cf_authkey c \<noteq> None \<or> cf_sync c \<noteq> None) \<and>
    (cf_state c = ''mem:'' \<or> prefix ''/'' (cf_state c)) \<and>
    pred_option sync_config_ok (cf_sync c) \<and> pred_option backup_config_ok (cf_backup c)"
proof (intro conjI)
  note b = build_cases [OF assms]
  show "cf_authkey c \<noteq> None \<or> cf_sync c \<noteq> None" "cf_state c = ''mem:'' \<or> prefix ''/'' (cf_state c)"
    by (rule b)+
  obtain p where "parse_u16 (cf_port c) = Some p" "p \<noteq> 0"
    using resolve_port_valid [of "file" "lookup"] b(3) by auto
  then show "\<exists>p. parse_u16 (cf_port c) = Some p \<and> p \<noteq> 0 \<and>
      cf_vault_port c = (if p = - 1 then None else Some (show_word (p + 1)))"
    using b(3,4) by (intro exI [of _ p]) (simp add: resolve_vault_port_def checked_inc_def)
  show "pred_option sync_config_ok (cf_sync c)"
    using b(6) by (auto simp: option.pred_set set_state_file_ok dest: resolve_sync_ok)
  show "pred_option backup_config_ok (cf_backup c)"
    using b(7) resolve_backup_ok by (fastforce simp: option.pred_set)
qed

lemma demo_build: "\<exists>c. build fc_default (\<lambda>k. if k = ''TAILSCALE_AUTHKEY'' then Some ''key'' else None) = Some c"
  by (simp add: build_def refused_def fc_default_def non_empty_def knob_value_def env_or_file_def
      schema_value_def string_defaults Let_def)

theorem built_configuration_is_usable_witness:
  "\<exists>c. build fc_default (\<lambda>k. if k = ''TAILSCALE_AUTHKEY'' then Some ''key'' else None) = Some c \<and>
     (cf_authkey c \<noteq> None \<or> cf_sync c \<noteq> None)"
proof -
  obtain c where c: "build fc_default (\<lambda>k. if k = ''TAILSCALE_AUTHKEY'' then Some ''key'' else None) = Some c"
    using demo_build by blast
  from built_configuration_is_usable [OF c] c show ?thesis by blast
qed

text \<open>C22: nothing in the dotenv file is dropped silently: an entry whose key no namespace accepts refuses the
  whole configuration, an unreadable file does too, and of the accepted ones no supervisor key reaches
  the vault's environment.\<close>

theorem unknown_dotenv_key_refuses:
  assumes "Inr (k, v) \<in> set items" "\<not> accepted k"
  shows "build (load_items fc_default items) lookup = None \<and>
    build (fc_default\<lparr>fc_fatal := Some e\<rparr>) lookup = None \<and> fc_ok (load_items fc_default items')"
proof (intro conjI)
  have "k \<in> set (List.map_filter (\<lambda>x. case x of Inr (k, v) \<Rightarrow> Some k | Inl _ \<Rightarrow> None) items)"
    using assms(1) by (auto simp: map_filter_set intro!: bexI [of _ "Inr (k, v)"])
  with assms(2) have "fc_invalid (load_items fc_default items) \<noteq> []"
    by (auto simp: load_items_invalid filter_empty_conv)
  then show "build (load_items fc_default items) lookup = None"
    by (simp add: build_def refused_def)
  show "build (fc_default\<lparr>fc_fatal := Some e\<rparr>) lookup = None"
    by (simp add: build_def refused_def)
  show "fc_ok (load_items fc_default items')"
    by (rule load_items_ok [OF fc_ok_default])
qed

theorem unknown_dotenv_key_refuses_witness:
  "build (load_items fc_default [Inr (''TAILSCALE_AUTHKEY'', ''k''), Inr (''ADMIN_TOKEN'', ''x'')]) (\<lambda>_. None) = None"
  by (rule unknown_dotenv_key_refuses [where k = "''ADMIN_TOKEN''" and v = "''x''", THEN conjunct1])
    (simp_all add: accepted_def is_supervisor_consumed_def is_supervisor_key_def consumed_child_key_def
      vaultwarden_key_def strip_prefix_def)

text \<open>A setting comes from the process environment if it is set there to a non-empty value, else from
  the file, else it is the default.\<close>

lemma environment_wins:
  assumes "build file lookup = Some c"
  shows "cf_socket c = (case non_empty (lookup ''TAILSCALE_SOCKET'') of Some v \<Rightarrow> v
      | None \<Rightarrow> (case non_empty (bt_get (fc_knobs file) ''TAILSCALE_SOCKET'') of Some v \<Rightarrow> v
        | None \<Rightarrow> ''/tmp/tailscaled.sock'')) \<and>
    cf_hostname c = (case non_empty (lookup ''TAILSCALE_HOSTNAME'') of Some v \<Rightarrow> v
      | None \<Rightarrow> (case non_empty (bt_get (fc_knobs file) ''TAILSCALE_HOSTNAME'') of Some v \<Rightarrow> v
        | None \<Rightarrow> ''vaultwarden-hummingbird'')) \<and>
    cf_authkey c = (case non_empty (lookup ''TAILSCALE_AUTHKEY'') of Some v \<Rightarrow> Some v
      | None \<Rightarrow> non_empty (bt_get (fc_knobs file) ''TAILSCALE_AUTHKEY''))"
  by (simp only: build_fields [OF assms] non_empty_knob) (simp only: schema_value_def knob_value_cases string_defaults option.sel)

lemma environment_wins_witness:
  "\<exists>c. build fc_default (\<lambda>k. if k = ''TAILSCALE_AUTHKEY'' then Some ''key'' else None) = Some c \<and>
     cf_authkey c = Some ''key'' \<and> cf_socket c = ''/tmp/tailscaled.sock''"
proof -
  obtain c where c: "build fc_default (\<lambda>k. if k = ''TAILSCALE_AUTHKEY'' then Some ''key'' else None) = Some c"
    using demo_build by blast
  from environment_wins [OF c] c show ?thesis
    by (auto simp: non_empty_def fc_default_def)
qed

text \<open>C23: the path taken from an SQLite URL has no NUL, percent-decoding inverts escaping, and query and
  fragment are cut.\<close>

theorem sqlite_path_decoding:
  assumes "CHR 0x00 \<notin> set p" "utf8_ok p"
  shows "sqlite_uri_path (uri_escape p) = p \<and> sqlite_uri_path (uri_escape p @ ''?'' @ q) = p \<and>
    sqlite_uri_path (uri_escape p @ ''#'' @ q) = p \<and> CHR 0x00 \<notin> set (sqlite_uri_path s)"
proof (intro conjI)
  have "CHR ''?'' \<notin> set (uri_escape p) \<and> CHR ''#'' \<notin> set (uri_escape p)"
    by (rule uri_escape_plain)
  then have cut: "takeWhile (\<lambda>c. c \<noteq> CHR ''?'' \<and> c \<noteq> CHR ''#'') (uri_escape p) = uri_escape p"
    "takeWhile (\<lambda>c. c \<noteq> CHR ''?'' \<and> c \<noteq> CHR ''#'') (uri_escape p @ ''?'' @ q) = uri_escape p"
    "takeWhile (\<lambda>c. c \<noteq> CHR ''?'' \<and> c \<noteq> CHR ''#'') (uri_escape p @ ''#'' @ q) = uri_escape p"
    by (auto simp: takeWhile_append takeWhile_eq_all_conv)
  show "sqlite_uri_path (uri_escape p) = p" "sqlite_uri_path (uri_escape p @ ''?'' @ q) = p"
    "sqlite_uri_path (uri_escape p @ ''#'' @ q) = p"
    unfolding sqlite_uri_path_def cut using assms by (simp_all add: uri_decode_escape)
  show "CHR 0x00 \<notin> set (sqlite_uri_path s)"
    using uri_decode_no_nul by (auto simp: sqlite_uri_path_def Let_def)
qed

theorem sqlite_path_decoding_witness:
  "sqlite_uri_path (uri_escape ''/data/my db.sqlite3'' @ ''?'' @ ''mode=ro'') = ''/data/my db.sqlite3''"
  by (rule sqlite_path_decoding [THEN conjunct2, THEN conjunct1]) code_simp+

section \<open>The environments of the children\<close>

text \<open>C24: every key of the vault's environment has the value the layers give it: a pin before everything, the
  web vault switched off when the image has none, then the container's \<open>VAULTWARDEN_\<close> variable, the
  dotenv file and the image's default, empty values counting as absent.\<close>

theorem vault_environment_value:
  "case run_state (granted_env ambient vars vault_port) w of (g, v) \<Rightarrow>
     bt_get g k = (case vault_pins vault_port k of Some x \<Rightarrow> Some x | None \<Rightarrow>
       if k = ''WEB_VAULT_ENABLED'' \<and> \<not> fst (run_state (fs_exists WEB_VAULT_INDEX) w) then Some ''false''
       else case vault_setting ambient k of Some x \<Rightarrow> Some x
       | None \<Rightarrow> (case map_of (rev (file_layer vars)) k of Some x \<Rightarrow> Some x
         | None \<Rightarrow> map_of (rev IMAGE_DEFAULTS) k)) \<and>
     {q. file_at v q \<noteq> file_at w q} = {}"
proof (cases "run_state (granted_env ambient vars vault_port) w")
  case (Pair g v)
  have "frame {} w v"
    by (rule framedD [OF framed_granted_env Pair])
  then show ?thesis
    using granted_env_get [OF Pair, of k] by (simp add: Pair frame_def)
qed

text \<open>C25: whatever the container's environment and the dotenv file hold, no key of the supervisor's own
  namespaces reaches the vault, and the vault listens on the loopback address only.\<close>

theorem vault_gets_no_supervisor_key:
  assumes "run_state (from_env dotenvy var) w = (Some cfg, u)"
    and "run_state (granted_env ambient (cf_vw_env cfg) vault_port) v = (g, x)"
  shows "{k. bt_get g k \<noteq> None} \<inter> {k. is_supervisor_key k} = {} \<and>
    bt_get g ''ROCKET_ADDRESS'' = Some ''127.0.0.1'' \<and> bt_get g ''ROCKET_PORT'' = Some vault_port"
proof (intro conjI)
  have "\<not> is_supervisor_key k" if "bt_get g k \<noteq> None" for k
    by (rule granted_env_plain [OF assms(2) that from_env_child [OF assms(1)]])
  then show "{k. bt_get g k \<noteq> None} \<inter> {k. is_supervisor_key k} = {}"
    by blast
qed (simp_all add: granted_env_get [OF assms(2)] vault_pins_def)

lemma demo_from_env: "\<exists>c. run_state (from_env (\<lambda>_. []) (\<lambda>k. if k = ''TAILSCALE_AUTHKEY'' then Some ''key'' else None))
    (host_world [] (host_start [] [])) = (Some c, host_world [] (host_start [] []))"
  using demo_build by (auto simp: from_env_def load_def ENV_NAME_def)

theorem vault_gets_no_supervisor_key_witness:
  "\<exists>c. fst (run_state (from_env (\<lambda>_. []) (\<lambda>k. if k = ''TAILSCALE_AUTHKEY'' then Some ''key'' else None))
      (host_world [] (host_start [] []))) = Some c \<and>
    bt_get (fst (run_state (granted_env [(''TAILSCALE_AUTHKEY'', ''key'')] (cf_vw_env c) ''8081'')
      (host_world [] (host_start [] [])))) ''TAILSCALE_AUTHKEY'' = None"
proof -
  obtain c where c: "run_state (from_env (\<lambda>_. []) (\<lambda>k. if k = ''TAILSCALE_AUTHKEY'' then Some ''key'' else None))
      (host_world [] (host_start [] [])) = (Some c, host_world [] (host_start [] []))"
    using demo_from_env by blast
  have "is_supervisor_key ''TAILSCALE_AUTHKEY''"
    by (simp add: is_supervisor_key_def)
  with vault_gets_no_supervisor_key [OF c surjective_pairing] c show ?thesis
    by (intro exI [of _ c]) (auto simp: disjoint_iff simp del: not_None_eq not_Some_eq)
qed


section \<open>Boot and teardown\<close>

text \<open>C27: when the boot phases hand over to the vault, the database file is the one that was there before or a
  restored copy that passed the integrity check; a boot that ends early leaves such a file or none, and
  never a half-done import. The other phases, the state sync and the auth key's staging included, leave
  it alone.\<close>

theorem boot_hands_over_a_whole_database:
  assumes "cf_backup cfg = Some bk" "db_apart bk (cf_sync cfg)"
  shows "case run_state (boot_phases su PHASES \<lparr>bo_cfg = cfg, bo_tsd = None\<rparr>) w of (r, v) \<Rightarrow>
    db_outcome (su_tools su) (bc_db_path bk) (file_at w (bc_db_path bk)) (fst r = Next) v"
proof (cases "run_state (boot_phases su PHASES \<lparr>bo_cfg = cfg, bo_tsd = None\<rparr>) w")
  case (Pair r v)
  then show ?thesis
    using hoareD [OF boot_phases_whole [OF assms] _ Pair] by simp
qed

theorem boot_hands_over_a_whole_database_witness:
  "case run_state (boot_phases host_supervisor PHASES \<lparr>bo_cfg = demo_config, bo_tsd = None\<rparr>)
      (host_world [(''/data/db.sqlite3'', ''x'')] (host_start [2] [(2, Exited 2 0)])) of (r, v) \<Rightarrow>
    db_outcome offline_tools ''/data/db.sqlite3''
      (file_at (host_world [(''/data/db.sqlite3'', ''x'')] (host_start [2] [(2, Exited 2 0)])) ''/data/db.sqlite3'')
      (fst r = Next) v"
proof -
  have "cf_backup demo_config = Some demo_backup" "db_apart demo_backup (cf_sync demo_config)"
    "bc_db_path demo_backup = ''/data/db.sqlite3''" "su_tools host_supervisor = offline_tools"
    using demo_apart by (simp_all add: demo_config_def demo_backup_def host_supervisor_def)
  with boot_hands_over_a_whole_database [of demo_config demo_backup host_supervisor] show ?thesis
    by metis
qed





section \<open>Children\<close>

text \<open>C30: in every reachable state of the reaper hub, the exit status a handle shows is the true exit status of
  the child it was made for, and it stays what it is.\<close>

theorem child_status_is_true:
  assumes "hub_step\<^sup>*\<^sup>* hub_start s" "handle_status s h = Some st" "hub_step\<^sup>*\<^sup>* s t"
  shows "hb_exit s (h_waiter h) = Some st \<and> handle_status t h = Some st \<and> hb_exit t (h_waiter h) = Some st"
proof -
  have ok: "hub_ok s" "hub_ok t"
    using hub_ok_reach assms(1,3) rtranclp_trans [OF assms(1,3)] by blast+
  moreover have "handle_status t h = Some st"
    using slots_stay [OF assms(3) ok(1)] assms(2) by (simp add: handle_status_def)
  ultimately show ?thesis
    using status_true assms(2) by blast
qed

theorem child_status_is_true_witness:
  "hb_exit stale_hub 0 = Some (Exited 5 0)"
  using child_status_is_true [OF stale_reach _ rtranclp.rtrancl_refl, of "\<lparr>h_pid = 5, h_waiter = 0\<rparr>"]
  by (simp add: handle_status_def stale_hub_facts)

text \<open>C31: no exit is lost: a whole pass of the reaper, whatever it found ready, delivers the status of every
  exited child whose handle is still held, provided its sweep gets to every zombie; and the pass is
  nothing but steps of the hub.\<close>

theorem reaper_pass_delivers_every_exit:
  assumes "hub_step\<^sup>*\<^sup>* hub_start s" "hb_pending s = None" "\<And>p. is_zombie s p \<Longrightarrow> p \<in> set order"
    and "hb_live s n" "hb_exit s n = Some st"
  shows "hb_slots (reaper_tick ready order s) n = Some st \<and> hub_step\<^sup>*\<^sup>* s (reaper_tick ready order s)"
  using tick_delivers [OF hub_ok_reach [OF assms(1)] assms(2-5)] tick_steps [OF assms(2)] by simp

definition demo_dead :: hub where
  "demo_dead = proc_exit (spawned hub_start 5) 5 (Some 0) (Exited 5 3)"

lemma demo_dead_reach: "hub_step\<^sup>*\<^sup>* hub_start demo_dead"
proof -
  have "hub_step hub_start (spawned hub_start 5)"
    by (rule hub_step.Spawn) (simp_all add: hub_start_def)
  moreover have "hub_step (spawned hub_start 5) demo_dead"
    unfolding demo_dead_def by (rule hub_step.Exit) (simp_all add: hub_start_def ws_pid_def)
  ultimately show ?thesis
    by (meson converse_rtranclp_into_rtranclp r_into_rtranclp)
qed

theorem reaper_pass_delivers_every_exit_witness:
  "handle_status (reaper_tick [] [5] demo_dead) \<lparr>h_pid = 5, h_waiter = 0\<rparr> = Some (Exited 5 3)"
  unfolding handle_status_def
  by (rule reaper_pass_delivers_every_exit [OF demo_dead_reach, THEN conjunct1, simplified])
    (auto simp: demo_dead_def is_zombie_def hub_start_def split: if_splits)


text \<open>C33: \<open>tailscale up\<close> and \<open>tailscale serve\<close> report success only after a child that was registered in the
  course of the call exited with code 0.\<close>

theorem helper_success_is_true:
  assumes "over_hub os hb" "advances hb abort" "since m (hb (w_env w))"
  shows "(case run_state (tailscale_up os authkey hostname socket timeout abort) w of (ok, v) \<Rightarrow>
      ok \<le> ran_ok m (hb (w_env v))) \<and>
    (case run_state (tailscale_serve os port service socket timeout abort) w of (ok, v) \<Rightarrow>
      ok \<le> ran_ok m (hb (w_env v)))"
  using hoareD [OF tailscale_up_ok [OF assms(1,2)] assms(3)] hoareD [OF tailscale_serve_ok [OF assms(1,2)] assms(3)]
  by (auto simp: le_bool_def)

theorem helper_success_is_true_witness:
  "case run_state (tailscale_up host_os None ''h'' ''/s'' 9 never) (host_world [] (host_start [2] [(2, Exited 2 0)])) of
     (ok, v) \<Rightarrow> ok \<le> ran_ok 0 (ho_hub (w_env v))"
  by (rule helper_success_is_true [THEN conjunct1, OF host_over_hub])
    (simp_all add: host_world_def host_start_ok since_def)

text \<open>C34: no file under any name ever ends up readable by others because of the auth key: after
  \<open>tailscale up\<close>, whatever failed, each file is as it was, gone, or readable by its owner only; and if
  nothing fails, it is as it was or gone.\<close>

theorem auth_key_stays_private:
  "case run_state (tailscale_up os authkey hostname socket timeout abort) w of (ok, v) \<Rightarrow>
     (if w_faults w = [] then as_before (file_at w p) (file_at v p) else staged_safe (file_at w p) (file_at v p))"
proof (cases "run_state (tailscale_up os authkey hostname socket timeout abort) w")
  case (Pair ok v)
  have "no_key (file_at w p) p v" if "w_faults w = []"
    by (rule preservesD [OF tailscale_up_calm _ Pair]) (simp add: that no_key_def as_before_def)
  moreover have "staged_safe (file_at w p) (file_at v p)"
    by (rule preservesD [OF tailscale_up_private _ Pair]) (simp add: staged_safe_def)
  ultimately show ?thesis
    by (simp add: Pair no_key_def)
qed

section \<open>The gatekeeper\<close>



text \<open>C36: a target in origin form is \<open>/alive\<close> exactly when its path is, whatever its query; but a query that
  contains \<open>://\<close> is taken for an absolute form, and then another path counts as \<open>/alive\<close>.\<close>

theorem alive_target_is_the_path:
  assumes "split_once ''://'' target = None"
  shows "(alive_target target \<longleftrightarrow> target = ''/alive'' \<or> (\<exists>q. target = ''/alive?'' @ q)) \<and>
    alive_target ''/api?u=://h/alive''"
proof
  show "alive_target ''/api?u=://h/alive''"
    by code_simp
qed (rule alive_target_origin [OF assms])

theorem alive_target_is_the_path_witness: "alive_target ''/alive?x=1'' \<and> \<not> alive_target ''/alive/x''"
proof -
  have "split_once ''://'' ''/alive?x=1'' = None" "split_once ''://'' ''/alive/x'' = None"
    by code_simp+
  then show ?thesis
    using alive_target_is_the_path [of "''/alive?x=1''"] alive_target_is_the_path [of "''/alive/x''"] by auto
qed

text \<open>C37: whatever connections come and go, the counter is the number of permits held, at most the limit of
  handlers run at once, and a connection is rejected exactly at the limit.\<close>

theorem gate_admits_at_most_the_limit:
  assumes "gate_step\<^sup>*\<^sup>* (gate_start m) s"
  shows "gt_active s = gt_handlers s + (if gt_admitting s then 1 else 0) \<and> gt_handlers s \<le> m \<and>
    (try_acquire s = None \<longleftrightarrow> gt_active s = m)"
proof -
  have "gate_ok s" "gt_max s = m"
    using gate.reachable_inv [OF _ assms] gate_max_kept [OF assms] by (auto simp: gate_start_def)
  then show ?thesis
    by (auto simp: gate_ok_def try_acquire_def)
qed

theorem gate_admits_at_most_the_limit_witness: "gt_handlers ((gate_start 1)\<lparr>gt_active := 1, gt_handlers := 1\<rparr>) \<le> 1"
proof -
  have "gate_step (gate_start 1) ((gate_start 1)\<lparr>gt_active := 1, gt_admitting := True\<rparr>)"
    using gate_step.Admit [of "gate_start 1" "(gate_start 1)\<lparr>gt_active := 1\<rparr>"]
    by (simp add: gate_start_def try_acquire_def)
  moreover have "gate_step ((gate_start 1)\<lparr>gt_active := 1, gt_admitting := True\<rparr>) ((gate_start 1)\<lparr>gt_active := 1, gt_handlers := 1\<rparr>)"
    using gate_step.Started [of "(gate_start 1)\<lparr>gt_active := 1, gt_admitting := True\<rparr>"] by (simp add: gate_start_def)
  ultimately have "gate_step\<^sup>*\<^sup>* (gate_start 1) ((gate_start 1)\<lparr>gt_active := 1, gt_handlers := 1\<rparr>)"
    by (meson converse_rtranclp_into_rtranclp r_into_rtranclp)
  from gate_admits_at_most_the_limit [OF this] show ?thesis by blast
qed

section \<open>Maintenance\<close>

text \<open>C38: in every interleaving of the two threads the maintenance runs never overlap, no flush precedes the
  request to stop, every flush follows all periodic runs, the flushes come in task order without
  repetition, and at most one periodic run begins after the stop was asked for.\<close>

theorem maintenance_has_one_writer:
  assumes "(reactor_step fin)\<^sup>*\<^sup>* reactor_new r"
  shows "single_writer (re_log r)"
  by (rule reactor_single_writer [OF assms])

theorem maintenance_has_one_writer_witness:
  "single_writer [TickBegin 0]"
proof -
  have "reactor_step [True] reactor_new (moved reactor_new (Cleared 0) [])"
    by (rule reactor_step.Due) (simp_all add: reactor_new_def token_new_def)
  moreover have "reactor_step [True] (moved reactor_new (Cleared 0) [])
      (moved (moved reactor_new (Cleared 0) []) (Ticking 0) [TickBegin 0])"
    by (rule reactor_step.TickBegins) (simp add: moved_def)
  ultimately have "(reactor_step [True])\<^sup>*\<^sup>* reactor_new (moved (moved reactor_new (Cleared 0) []) (Ticking 0) [TickBegin 0])"
    by (meson converse_rtranclp_into_rtranclp r_into_rtranclp)
  from maintenance_has_one_writer [OF this] show ?thesis
    by (simp add: moved_def reactor_new_def)
qed

text \<open>C39: the shutdown drain ends: with the budgets the supervisor uses, 2551 rounds of a clock that never goes back
  are enough for it to join the thread or leave it behind, whenever a hurry-up arrives.\<close>

theorem shutdown_drain_ends:
  assumes "drain_ops_onward ro hurry t"
  shows "fst (run_state (drain_with 2551 ro PERSIST_BUDGET PERSIST_FORCED_BUDGET hurry) w) \<noteq> None"
proof -
  have "PERSIST_BUDGET + SYNC_TIMEOUT \<le> 1800 * DRAIN_POLL" "PERSIST_FORCED_BUDGET + SYNC_TIMEOUT \<le> Suc 749 * DRAIN_POLL"
    by (simp_all add: PERSIST_BUDGET_def PERSIST_FORCED_BUDGET_def SYNC_TIMEOUT_def DRAIN_POLL_def)
  from drain_with_ends [OF assms this] show ?thesis
    by simp
qed

theorem shutdown_drain_ends_witness:
  "fst (run_state (drain_with 2551 host_reactor PERSIST_BUDGET PERSIST_FORCED_BUDGET never)
     (host_world [] (host_start [] []))) \<noteq> None"
  by (rule shutdown_drain_ends [OF host_drain_onward])

text \<open>C40: a bounded wait ends: over a clock that never goes back, the rounds the model gives it are enough to
  succeed, to be aborted or to pass the deadline, and more rounds change nothing.\<close>

theorem bounded_wait_ends:
  assumes "clock_ok ck t" "onward t check" "onward t (env_op abort)" "0 < beat"
    and "run_state (env_op (ck_now ck)) w = (now, v)" "wait_fuel timeout beat \<le> n"
  shows "fst (run_state (wait_loop n ck check (now + timeout) abort beat) v) \<noteq> None \<and>
    run_state (wait_loop n ck check (now + timeout) abort beat) v =
      run_state (wait_loop (wait_fuel timeout beat) ck check (now + timeout) abort beat) v"
proof -
  obtain r u where "run_state (wait_loop (wait_fuel timeout beat) ck check (now + timeout) abort beat) v = (Some r, u)"
    using wait_enough [OF assms(1-5), of timeout] by (metis not_None_eq prod.collapse)
  with wait_loop_more [OF this assms(6)] show ?thesis
    by simp
qed

theorem bounded_wait_ends_witness:
  "fst (run_state (wait_loop 5 host_clock (ret (None :: unit option)) (0 + 200) never 100)
     (host_world [] (host_start [] []))) \<noteq> None"
  by (rule bounded_wait_ends [OF host_clock_ok, where w = "host_world [] (host_start [] [])", THEN conjunct1])
    (simp_all add: onward_def run_env_op never_def host_clock_def host_world_def host_start_def wait_fuel_def)

end
